(* ===== verification/Prelude.thy ===== *)
theory Prelude
  imports Main "HOL-Library.AList" "HOL-Library.Sublist" "HOL-Library.Multiset"
begin

text \<open>
  What the components share: JavaScript strings as lists of characters (code units up to 255),
  the stable \<open>Array.prototype.sort\<close>, and the insertion-ordered \<open>Map\<close> as an association list
  with distinct keys.  Three interfaces are stated here as locales, because several components
  rely on each: \<open>keyed_store\<close> (what a \<open>Map\<close> promises), \<open>transition_system\<close> (an invariant kept by
  every step holds after every run) and \<open>progress_system\<close> (a preorder along every run).
  Two collections gather facts for automation: \<open>store_simps\<close> and \<open>spec_simps\<close>.
\<close>

named_theorems store_simps \<open>laws of the insertion-ordered maps\<close>
named_theorems spec_simps \<open>unfolding rules of small definitions\<close>

section \<open>Strings\<close>

definition js_ws :: "char \<Rightarrow> bool" where
  "js_ws c \<longleftrightarrow> (of_char c :: nat) \<in> {9, 10, 11, 12, 13, 32, 160}"

definition js_trim :: "string \<Rightarrow> string" where
  "js_trim s = rev (dropWhile js_ws (rev (dropWhile js_ws s)))"

definition js_lower_char :: "char \<Rightarrow> char" where
  "js_lower_char c =
     (let n = (of_char c :: nat) in
      if (65 \<le> n \<and> n \<le> 90) \<or> (192 \<le> n \<and> n \<le> 222 \<and> n \<noteq> 215) then char_of (n + 32) else c)"

definition js_lower :: "string \<Rightarrow> string" where
  "js_lower s = map js_lower_char s"

fun js_split :: "char \<Rightarrow> string \<Rightarrow> string list" where
  "js_split d [] = [[]]"
| "js_split d (c # cs) =
     (if c = d then [] # js_split d cs
      else (case js_split d cs of [] \<Rightarrow> [[c]] | w # ws \<Rightarrow> (c # w) # ws))"

fun js_join :: "string \<Rightarrow> string list \<Rightarrow> string" where
  "js_join sep [] = []"
| "js_join sep [w] = w"
| "js_join sep (w # v # ws) = w @ sep @ js_join sep (v # ws)"

fun index_of :: "string \<Rightarrow> string \<Rightarrow> nat option" where
  "index_of p [] = (if p = [] then Some 0 else None)"
| "index_of p (c # s) = (if prefix p (c # s) then Some 0 else map_option Suc (index_of p s))"

definition truthy :: "string option \<Rightarrow> bool" where
  "truthy x \<longleftrightarrow> (case x of None \<Rightarrow> False | Some s \<Rightarrow> s \<noteq> [])"

lemma truthy_simps [simp]: "truthy None = False" "truthy (Some s) = (s \<noteq> [])"
  by (simp_all add: truthy_def)

lemma js_split_nonempty [simp]: "js_split d s \<noteq> []"
  by (induction s) (auto split: list.splits)

lemma js_join_Cons: "ws \<noteq> [] \<Longrightarrow> js_join sep (w # ws) = w @ sep @ js_join sep ws"
  by (cases ws) auto

lemma js_split_join: "js_join [d] (js_split d s) = s"
proof (induction s)
  case Nil
  then show ?case by simp
next
  case (Cons c s)
  obtain w ws where sp: "js_split d s = w # ws"
    using js_split_nonempty by (metis neq_Nil_conv)
  show ?case
  proof (cases "c = d")
    case True
    with Cons show ?thesis by (simp add: js_join_Cons)
  next
    case False
    with Cons sp show ?thesis by (cases ws) auto
  qed
qed

lemma js_split_no_sep: "d \<notin> set s \<Longrightarrow> js_split d s = [s]"
  by (induction s) auto

lemma js_split_append: "d \<notin> set w \<Longrightarrow> js_split d (w @ d # s) = w # js_split d s"
  by (induction w) auto

lemma js_join_split:
  "ws \<noteq> [] \<Longrightarrow> \<forall>w \<in> set ws. d \<notin> set w \<Longrightarrow> js_split d (js_join [d] ws) = ws"
proof (induction ws)
  case Nil
  then show ?case by simp
next
  case (Cons w ws)
  then show ?case
    by (cases ws) (auto simp: js_split_no_sep js_split_append)
qed

lemma js_split_append_sep: "js_split d (s @ d # t) = js_split d s @ js_split d t"
  by (induction s) (auto split: list.splits)

lemma index_of_Some: "index_of p s = Some i \<Longrightarrow> prefix p (drop i s)"
proof (induction s arbitrary: i)
  case Nil
  then show ?case by (simp split: if_splits)
next
  case (Cons c s)
  then show ?case by (auto split: if_splits)
qed

lemma index_of_le: "index_of p s = Some i \<Longrightarrow> i + length p \<le> length s"
proof (induction s arbitrary: i)
  case Nil
  then show ?case by (simp split: if_splits)
next
  case (Cons c s)
  then show ?case
    by (fastforce split: if_splits dest: prefix_length_le)
qed

lemma index_of_least: "prefix p (drop k s) \<Longrightarrow> k \<le> length s \<Longrightarrow> \<exists>i. index_of p s = Some i \<and> i \<le> k"
proof (induction s arbitrary: k)
  case Nil
  then show ?case by simp
next
  case (Cons c s)
  show ?case
  proof (cases "prefix p (c # s)")
    case True
    then show ?thesis by simp
  next
    case False
    with Cons.prems obtain k' where k: "k = Suc k'" by (cases k) auto
    with Cons.prems have "prefix p (drop k' s)" "k' \<le> length s" by simp_all
    from Cons.IH [OF this] False k show ?thesis by auto
  qed
qed

section \<open>Stable sorting\<close>

text \<open>
  \<open>Array.prototype.sort\<close> is stable; for a consistent comparison function its result is the one
  stable sorted permutation, which insertion from the left computes.
\<close>

fun js_insert :: "('a \<Rightarrow> 'a \<Rightarrow> int) \<Rightarrow> 'a \<Rightarrow> 'a list \<Rightarrow> 'a list" where
  "js_insert cmp x [] = [x]"
| "js_insert cmp x (y # ys) = (if cmp x y < 0 then x # y # ys else y # js_insert cmp x ys)"

definition js_sort :: "('a \<Rightarrow> 'a \<Rightarrow> int) \<Rightarrow> 'a list \<Rightarrow> 'a list" where
  "js_sort cmp xs = foldl (\<lambda>acc x. js_insert cmp x acc) [] xs"

lemma set_js_insert [simp]: "set (js_insert cmp x ys) = insert x (set ys)"
  by (induction ys) auto

lemma mset_js_insert [simp]: "mset (js_insert cmp x ys) = add_mset x (mset ys)"
  by (induction ys) auto

lemma mset_js_sort_aux: "mset (foldl (\<lambda>acc x. js_insert cmp x acc) ys xs) = mset ys + mset xs"
  by (induction xs arbitrary: ys) auto

lemma mset_js_sort [simp]: "mset (js_sort cmp xs) = mset xs"
  by (simp add: js_sort_def mset_js_sort_aux)

lemma set_js_sort [simp]: "set (js_sort cmp xs) = set xs"
  by (metis mset_js_sort set_mset_mset)

lemma length_js_sort [simp]: "length (js_sort cmp xs) = length xs"
  by (metis mset_js_sort size_mset)

text \<open>A comparison function is total and transitive: what makes the sort meaningful.\<close>

definition consistent :: "('a \<Rightarrow> 'a \<Rightarrow> int) \<Rightarrow> bool" where
  "consistent cmp \<longleftrightarrow>
     (\<forall>x y. cmp x y < 0 \<longrightarrow> cmp y x \<ge> 0) \<and>
     (\<forall>x y z. cmp x y \<ge> 0 \<longrightarrow> cmp y z \<ge> 0 \<longrightarrow> cmp x z \<ge> 0)"

lemma sorted_js_insert:
  assumes "consistent cmp" "sorted_wrt (\<lambda>a b. cmp b a \<ge> 0) ys"
  shows "sorted_wrt (\<lambda>a b. cmp b a \<ge> 0) (js_insert cmp x ys)"
  using assms(2)
proof (induction ys)
  case Nil
  then show ?case by simp
next
  case (Cons y ys)
  show ?case
  proof (cases "cmp x y < 0")
    case True
    then have yx: "cmp y x \<ge> 0" using assms(1) by (simp add: consistent_def)
    have "\<forall>z \<in> set ys. cmp z x \<ge> 0"
      using Cons.prems yx assms(1) unfolding consistent_def by (meson sorted_wrt.simps(2))
    with True yx Cons.prems show ?thesis by auto
  next
    case False
    with Cons show ?thesis by auto
  qed
qed

lemma sorted_js_sort:
  assumes "consistent cmp"
  shows "sorted_wrt (\<lambda>a b. cmp b a \<ge> 0) (js_sort cmp xs)"
proof -
  have "sorted_wrt (\<lambda>a b. cmp b a \<ge> 0) ys \<Longrightarrow>
    sorted_wrt (\<lambda>a b. cmp b a \<ge> 0) (foldl (\<lambda>acc x. js_insert cmp x acc) ys xs)" for ys
    by (induction xs arbitrary: ys) (auto simp: sorted_js_insert [OF assms])
  then show ?thesis by (simp add: js_sort_def)
qed

text \<open>
  The first element of the sorted list that satisfies a predicate is the least one that does, and
  the earliest of the original list among those that compare equal.
\<close>

lemma find_js_insert:
  assumes "consistent cmp" "sorted_wrt (\<lambda>a b. cmp b a \<ge> 0) ys"
  shows "List.find P (js_insert cmp x ys) =
    (if P x then (case List.find P ys of None \<Rightarrow> Some x
                  | Some y \<Rightarrow> if cmp x y < 0 then Some x else Some y)
     else List.find P ys)"
  using assms(2)
proof (induction ys)
  case Nil
  then show ?case by simp
next
  case (Cons y ys)
  have *: "List.find P ys = Some z \<Longrightarrow> cmp z y \<ge> 0" for z
    using Cons.prems by (auto simp: find_Some_iff)
  show ?case
  proof (cases "cmp x y < 0")
    case True
    have "cmp x z < 0" if "List.find P ys = Some z" for z
      using * [OF that] True assms(1) unfolding consistent_def by (meson not_less)
    with True show ?thesis by (auto split: option.splits)
  next
    case False
    with Cons show ?thesis by (auto split: option.splits)
  qed
qed

lemma js_sort_snoc: "js_sort cmp (xs @ [x]) = js_insert cmp x (js_sort cmp xs)"
  by (simp add: js_sort_def)

lemma find_js_sort:
  assumes c: "consistent cmp"
  shows "List.find P (js_sort cmp xs) = Some b \<Longrightarrow>
    \<exists>us vs. xs = us @ b # vs \<and> P b \<and> (\<forall>u \<in> set us. P u \<longrightarrow> cmp b u < 0) \<and>
      (\<forall>v \<in> set vs. P v \<longrightarrow> cmp v b \<ge> 0)"
proof (induction xs arbitrary: b rule: rev_induct)
  case Nil
  then show ?case by (simp add: js_sort_def)
next
  case (snoc x xs)
  note ins = find_js_insert [OF c sorted_js_sort [OF c], of P x xs]
  show ?case
  proof (cases "List.find P (js_sort cmp xs)")
    case None
    then have "\<forall>u \<in> set xs. \<not> P u" by (simp add: find_None_iff)
    moreover have "b = x" "P x" using snoc.prems None ins by (auto simp: js_sort_snoc split: if_splits)
    ultimately show ?thesis by (intro exI [of _ xs] exI [of _ "[]"]) auto
  next
    case (Some y)
    then obtain us vs where y: "xs = us @ y # vs" "P y" "\<forall>u \<in> set us. P u \<longrightarrow> cmp y u < 0"
      "\<forall>v \<in> set vs. P v \<longrightarrow> cmp v y \<ge> 0" using snoc.IH by blast
    show ?thesis
    proof (cases "P x \<and> cmp x y < 0")
      case True
      with Some snoc.prems ins have "b = x" by (auto simp: js_sort_snoc)
      moreover have "cmp x u < 0" if "u \<in> set xs" "P u" for u
      proof -
        have "u = y \<or> cmp u y \<ge> 0" using that y c unfolding consistent_def by auto
        with True c show ?thesis unfolding consistent_def by (metis not_less)
      qed
      ultimately show ?thesis using True by (intro exI [of _ xs] exI [of _ "[]"]) auto
    next
      case False
      with Some snoc.prems ins have "b = y" by (auto simp: js_sort_snoc split: if_splits)
      with y False show ?thesis
        by (intro exI [of _ us] exI [of _ "vs @ [x]"]) auto
    qed
  qed
qed

section \<open>Dynamic values\<close>

text \<open>Values of type \<open>unknown\<close>, with JavaScript's truth test.  A missing key reads as \<open>undefined\<close>.\<close>

datatype js_value =
    JS_Undefined | JS_Null | JS_Bool bool | JS_Num int | JS_Str string
  | JS_Array "js_value list" | JS_Object "(string \<times> js_value) list"

fun js_truthy :: "js_value \<Rightarrow> bool" where
  "js_truthy JS_Undefined = False"
| "js_truthy JS_Null = False"
| "js_truthy (JS_Bool b) = b"
| "js_truthy (JS_Num n) = (n \<noteq> 0)"
| "js_truthy (JS_Str s) = (s \<noteq> [])"
| "js_truthy (JS_Array _) = True"
| "js_truthy (JS_Object _) = True"

definition js_field :: "(string \<times> js_value) list option \<Rightarrow> string \<Rightarrow> js_value" where
  "js_field obj k =
     (case obj of None \<Rightarrow> JS_Undefined
      | Some kvs \<Rightarrow> (case map_of kvs k of None \<Rightarrow> JS_Undefined | Some v \<Rightarrow> v))"

definition js_text :: "js_value \<Rightarrow> string" where
  "js_text v = (case v of JS_Str s \<Rightarrow> s | _ \<Rightarrow> [])"

definition is_text :: "js_value \<Rightarrow> bool" where
  "is_text v \<longleftrightarrow> (case v of JS_Str _ \<Rightarrow> True | _ \<Rightarrow> False)"

lemma distinct_js_sort [simp]: "distinct (js_sort cmp xs) = distinct xs"
  using mset_js_sort [of cmp xs] by (metis mset_eq_imp_distinct_iff)

lemma sorted_numbers: "sorted (js_sort (\<lambda>a b. a - b) (xs :: int list))"
proof -
  have "consistent (\<lambda>a b :: int. a - b)" by (simp add: consistent_def)
  from sorted_js_sort [OF this, of xs] show ?thesis
    by (rule sorted_wrt_mono_rel [rotated]) simp
qed

text \<open>Decimal numerals.\<close>

fun show_nat :: "nat \<Rightarrow> string" where
  "show_nat n = (if n < 10 then [char_of (48 + n)] else show_nat (n div 10) @ [char_of (48 + n mod 10)])"

definition show_int :: "int \<Rightarrow> string" where
  "show_int n = (if n < 0 then CHR ''-'' # show_nat (nat (- n)) else show_nat (nat n))"

text \<open>\<open>[...new Set(xs)]\<close> keeps the first occurrence of each value.\<close>

definition js_dedupe :: "'a list \<Rightarrow> 'a list" where
  "js_dedupe xs = rev (remdups (rev xs))"

lemma set_js_dedupe [simp]: "set (js_dedupe xs) = set xs"
  by (simp add: js_dedupe_def)

section \<open>Insertion-ordered maps\<close>

type_synonym ('k, 'v) jmap = "('k \<times> 'v) list"

abbreviation jmap_ok :: "('k, 'v) jmap \<Rightarrow> bool" where
  "jmap_ok m \<equiv> distinct (map fst m)"

locale keyed_store =
  fixes lookup :: "'s \<Rightarrow> 'k \<Rightarrow> 'v option"
    and put :: "'k \<Rightarrow> 'v \<Rightarrow> 's \<Rightarrow> 's"
    and remove :: "'k \<Rightarrow> 's \<Rightarrow> 's"
    and keys :: "'s \<Rightarrow> 'k list"
    and wf :: "'s \<Rightarrow> bool"
  assumes lookup_put: "lookup (put k v s) j = (if j = k then Some v else lookup s j)"
    and lookup_remove: "lookup (remove k s) j = (if j = k then None else lookup s j)"
    and wf_put: "wf s \<Longrightarrow> wf (put k v s)"
    and wf_remove: "wf s \<Longrightarrow> wf (remove k s)"
    and keys_put: "keys (put k v s) = (if k \<in> set (keys s) then keys s else keys s @ [k])"
    and keys_remove: "keys (remove k s) = filter (\<lambda>j. j \<noteq> k) (keys s)"
    and keys_lookup: "set (keys s) = dom (lookup s)"
    and keys_distinct: "wf s \<Longrightarrow> distinct (keys s)"
begin

lemma lookup_put_same: "lookup (put k v s) k = Some v"
  by (simp add: lookup_put)

lemma lookup_put_other: "j \<noteq> k \<Longrightarrow> lookup (put k v s) j = lookup s j"
  by (simp add: lookup_put)

lemma size_put:
  "length (keys (put k v s)) = (if k \<in> dom (lookup s) then length (keys s) else Suc (length (keys s)))"
  by (auto simp: keys_put keys_lookup)

lemma size_put_le: "length (keys (put k v s)) \<le> Suc (length (keys s))"
  by (simp add: size_put)

lemma size_remove:
  assumes "wf s" "k \<in> dom (lookup s)"
  shows "Suc (length (keys (remove k s))) = length (keys s)"
proof -
  have "k \<in> set (keys s)" using assms by (simp add: keys_lookup)
  have "card (set (keys (remove k s))) = card (set (keys s) - {k})"
    by (simp add: keys_remove set_diff_eq)
  with \<open>k \<in> set (keys s)\<close> show ?thesis
    by (metis List.finite_set assms(1) card_Suc_Diff1 distinct_card keys_distinct wf_remove)
qed

lemma size_remove_le: "length (keys (remove k s)) \<le> length (keys s)"
  by (simp add: keys_remove)

end

lemma keys_alist_delete: "map fst (AList.delete k m) = filter (\<lambda>j. j \<noteq> k) (map fst m)"
  by (induction m) (auto simp: AList.delete_eq)

interpretation jm: keyed_store map_of AList.update AList.delete "map fst" jmap_ok
proof unfold_locales
  fix k j :: 'a and v :: 'b and s
  show "map_of (AList.update k v s) j = (if j = k then Some v else map_of s j)"
    by (simp add: update_conv')
  show "map_of (AList.delete k s) j = (if j = k then None else map_of s j)"
    by (simp add: delete_conv')
  show "map fst (AList.update k v s) =
      (if k \<in> set (map fst s) then map fst s else map fst s @ [k])"
    by (simp add: update_keys)
  show "map fst (AList.delete k s) = filter (\<lambda>j. j \<noteq> k) (map fst s)"
    by (rule keys_alist_delete)
  show "set (map fst s) = dom (map_of s)"
    by (simp add: dom_map_of_conv_image_fst)
  show "jmap_ok s \<Longrightarrow> jmap_ok (AList.update k v s)" by (rule distinct_update)
  show "jmap_ok s \<Longrightarrow> jmap_ok (AList.delete k s)" by (rule distinct_delete)
qed

lemmas [store_simps] = jm.lookup_put jm.lookup_remove jm.wf_put jm.wf_remove jm.keys_put
  jm.keys_remove

lemma update_new: "k \<notin> fst ` set r \<Longrightarrow> AList.update k v r = r @ [(k, v)]"
  by (induction r) auto

lemma set_update_alist:
  "jmap_ok m \<Longrightarrow> set (AList.update k v m) = {(j, w) \<in> set m. j \<noteq> k} \<union> {(k, v)}"
  by (induction m) (auto simp: image_iff)

lemma jmap_update_ball:
  assumes "jmap_ok st" "\<forall>x \<in> set st. P x" "P (k, v)"
  shows "\<forall>x \<in> set (AList.update k v st). P x"
  unfolding set_update_alist [OF assms(1)] using assms(2,3) by blast

lemma jmap_delete_ball: "\<forall>x \<in> set st. P x \<Longrightarrow> \<forall>x \<in> set (AList.delete k st). P x"
  by (auto simp: AList.delete_eq)

lemma jmap_find: "jmap_ok st \<Longrightarrow> (k, v) \<in> set st \<Longrightarrow> map_of st k = Some v"
  by simp

text \<open>A well-formed map whose entries all satisfy a predicate: the form of most invariants.\<close>

definition entries_ok :: "('k \<times> 'v \<Rightarrow> bool) \<Rightarrow> ('k, 'v) jmap \<Rightarrow> bool" where
  "entries_ok P m \<longleftrightarrow> jmap_ok m \<and> (\<forall>x \<in> set m. P x)"

lemma entries_ok_Nil [simp]: "entries_ok P []"
  by (simp add: entries_ok_def)

lemma entries_ok_put: "entries_ok P m \<Longrightarrow> P (k, v) \<Longrightarrow> entries_ok P (AList.update k v m)"
  unfolding entries_ok_def by (metis distinct_update jmap_update_ball)

lemma entries_ok_delete: "entries_ok P m \<Longrightarrow> entries_ok P (AList.delete k m)"
  unfolding entries_ok_def by (metis distinct_delete jmap_delete_ball)

lemma entries_ok_filter: "entries_ok P m \<Longrightarrow> entries_ok P (filter Q m)"
  unfolding entries_ok_def by (simp add: distinct_map_filter)

lemma entries_ok_get: "entries_ok P m \<Longrightarrow> map_of m k = Some v \<Longrightarrow> P (k, v)"
  unfolding entries_ok_def by (blast dest: map_of_SomeD)

lemma entries_ok_member: "entries_ok P m \<Longrightarrow> (k, v) \<in> set m \<Longrightarrow> map_of m k = Some v \<and> P (k, v)"
  unfolding entries_ok_def by (blast intro: jmap_find)

section \<open>Runs of a component\<close>

text \<open>
  A component with state is a step function on its public operations; a run is a left fold.  An
  invariant kept by each step is kept by each run, and a preorder respected by each step relates
  the first state of a run with its last.
\<close>

locale transition_system =
  fixes step :: "'s \<Rightarrow> 'e \<Rightarrow> 's" and inv :: "'s \<Rightarrow> bool"
  assumes step_inv: "inv s \<Longrightarrow> inv (step s e)"
begin

lemma run_inv: "inv s \<Longrightarrow> inv (foldl step s es)"
  by (induction es arbitrary: s) (auto intro: step_inv)

end

locale progress_system = transition_system +
  fixes before :: "'s \<Rightarrow> 's \<Rightarrow> bool"
  assumes before_refl: "before s s"
    and before_trans: "before s t \<Longrightarrow> before t u \<Longrightarrow> before s u"
    and step_before: "inv s \<Longrightarrow> before s (step s e)"
begin

lemma run_before: "inv s \<Longrightarrow> before s (foldl step s es)"
proof (induction es arbitrary: s)
  case Nil
  then show ?case by (simp add: before_refl)
next
  case (Cons e es)
  then have "before (step s e) (foldl step (step s e) es)"
    by (simp add: step_inv)
  with Cons.prems show ?case by (auto intro: before_trans step_before)
qed

end

end
