(* ===== verification/Glob.thy ===== *)
theory Glob
  imports Prelude
begin

text \<open>
  The path globs of \<open>odysseus/packages/policy-engine/src/deny-floor.ts\<close> (\<open>evaluate.ts\<close> carries an
  identical copy for user rules): \<open>normaliseResource\<close>, \<open>globMatches\<close>, \<open>matchParts\<close>,
  \<open>segmentMatches\<close>.  The array indices \<open>pi\<close> and \<open>ri\<close> of the code are the suffixes of the pattern
  and the resource that are left.  An inductive relation \<open>glob\<close> on segments says what a pattern
  means, and \<open>wild\<close> what a pattern inside one segment means; the matcher is compared with both.
\<close>

section \<open>The matcher\<close>

fun segLoop :: "string \<Rightarrow> nat \<Rightarrow> string list \<Rightarrow> bool" where
  "segLoop v pos [] = True"
| "segLoop v pos [p] = suffix p v"
| "segLoop v pos (p # q # ps) =
     (case index_of p (drop pos v) of
        None \<Rightarrow> False
      | Some i \<Rightarrow> segLoop v (pos + i + length p) (q # ps))"

definition segmentMatches :: "string \<Rightarrow> string \<Rightarrow> bool" where
  "segmentMatches pat v =
     (let pParts = js_split (CHR ''*'') pat in
      if length pParts = 1 then pat = v
      else case pParts of
          [] \<Rightarrow> True
        | p0 # ps \<Rightarrow> (if \<not> prefix p0 v then False else segLoop v (length p0) ps))"

fun matchParts :: "string list \<Rightarrow> string list \<Rightarrow> bool" where
  "matchParts [] rs = (rs = [])"
| "matchParts (p # ps) rs =
     (if p = ''**'' then
        (if ps = [] then True
         else list_ex (\<lambda>r. matchParts ps (drop r rs)) [0..<Suc (length rs)])
      else (case rs of
          [] \<Rightarrow> False
        | r # rs' \<Rightarrow>
            if p = ''*'' then matchParts ps rs'
            else if p = r then matchParts ps rs'
            else if CHR ''*'' \<in> set p \<or> CHR ''?'' \<in> set p then
              (if \<not> segmentMatches p r then False else matchParts ps rs')
            else False))"

definition globMatches :: "string \<Rightarrow> string \<Rightarrow> bool" where
  "globMatches resource pat =
     (let parts = js_split (CHR ''/'') pat;
          resParts = js_split (CHR ''/'') resource;
          maxLen = length (filter (\<lambda>p. p \<noteq> ''**'') parts) in
      if length resParts < maxLen then False else matchParts parts resParts)"

section \<open>Normalisation\<close>

text \<open>One function per \<open>replace\<close> of the code, in its order.\<close>

fun collapseSlashes :: "string \<Rightarrow> string" where
  "collapseSlashes [] = []"
| "collapseSlashes [c] = [c]"
| "collapseSlashes (c # d # s) =
     (if c = CHR ''/'' \<and> d = CHR ''/'' then collapseSlashes (d # s) else c # collapseSlashes (d # s))"

fun stripDotSlashes :: "string \<Rightarrow> string" where
  "stripDotSlashes (c # d # s) =
     (if c = CHR ''.'' \<and> d = CHR ''/'' then stripDotSlashes s else c # d # s)"
| "stripDotSlashes s = s"

lemma length_stripDotSlashes [termination_simp]: "length (stripDotSlashes s) \<le> length s"
  by (induction s rule: stripDotSlashes.induct) auto

fun dropInnerDots :: "string \<Rightarrow> string" where
  "dropInnerDots [] = []"
| "dropInnerDots (c # s) =
     (if c = CHR ''/'' then c # dropInnerDots (stripDotSlashes s) else c # dropInnerDots s)"

definition dropTrailingSlashes :: "string \<Rightarrow> string" where
  "dropTrailingSlashes s = rev (dropWhile (\<lambda>c. c = CHR ''/'') (rev s))"

definition normaliseResource :: "string \<Rightarrow> string" where
  "normaliseResource resource =
     js_lower (dropTrailingSlashes (dropInnerDots (stripDotSlashes (collapseSlashes
       (map (\<lambda>c. if c = CHR 0x5C then CHR ''/'' else c) (js_trim resource))))))"

section \<open>What a pattern means\<close>

text \<open>
  Inside one segment, a star stands for any characters and every other character (the question
  mark too) for itself.
\<close>

fun wild :: "string \<Rightarrow> string \<Rightarrow> bool" where
  "wild [] v = (v = [])"
| "wild (c # p) v =
     (if c = CHR ''*'' then list_ex (\<lambda>k. wild p (drop k v)) [0..<Suc (length v)]
      else (case v of [] \<Rightarrow> False | d # v' \<Rightarrow> c = d \<and> wild p v'))"

definition segOk :: "string \<Rightarrow> string \<Rightarrow> bool" where
  "segOk p r \<longleftrightarrow> p = ''*'' \<or> p = r \<or> (CHR ''*'' \<in> set p \<and> segmentMatches p r)"

inductive glob :: "string list \<Rightarrow> string list \<Rightarrow> bool" where
  finish: "glob [] []"
| tail: "glob [''**''] rs"
| stars: "ps \<noteq> [] \<Longrightarrow> glob ps rs \<Longrightarrow> glob (''**'' # ps) (xs @ rs)"
| seg: "p \<noteq> ''**'' \<Longrightarrow> segOk p r \<Longrightarrow> glob ps rs \<Longrightarrow> glob (p # ps) (r # rs)"

inductive_cases glob_NilE: "glob [] rs"
inductive_cases glob_ConsE: "glob (p # ps) rs"
inductive_simps glob_Nil [spec_simps]: "glob [] rs"

section \<open>The matcher computes the meaning\<close>

lemma split_singleton: "length (js_split d s) = 1 \<Longrightarrow> d \<notin> set s"
proof (induction s)
  case Nil
  then show ?case by simp
next
  case (Cons c s)
  then show ?case
    by (cases "js_split d s") (auto split: if_splits)
qed

lemma segmentMatches_plain: "CHR ''*'' \<notin> set p \<Longrightarrow> segmentMatches p r \<longleftrightarrow> p = r"
  by (simp add: segmentMatches_def js_split_no_sep)

lemma list_ex_upt: "list_ex P [0..<Suc n] \<longleftrightarrow> (\<exists>k \<le> n. P k)"
  by (auto simp: list_ex_iff Bex_def less_Suc_eq_le simp del: upt_Suc)

lemma matchParts_sound: "matchParts ps rs \<Longrightarrow> glob ps rs"
proof (induction ps rs rule: matchParts.induct)
  case (1 rs)
  then show ?case by (simp add: glob.finish)
next
  case (2 p ps rs)
  show ?case
  proof (cases "p = ''**''")
    case True
    show ?thesis
    proof (cases "ps = []")
      case True
      with \<open>p = ''**''\<close> show ?thesis by (simp add: glob.tail)
    next
      case False
      with 2 True obtain k where "k \<in> set [0..<Suc (length rs)]" "matchParts ps (drop k rs)"
        by (auto simp: list_ex_iff simp del: upt_Suc)
      with 2(1) True False have "glob ps (drop k rs)" by simp
      then have "glob (''**'' # ps) (take k rs @ drop k rs)"
        using False by (rule glob.stars [rotated])
      with True show ?thesis by simp
    qed
  next
    case False
    show ?thesis
    proof (cases rs)
      case Nil
      with "2.prems" False show ?thesis by simp
    next
      case (Cons r rs')
      with "2.prems" False have m: "matchParts ps rs'"
        by (auto split: if_splits)
      from "2.prems" False Cons have "p = ''*'' \<or> p = r \<or> segmentMatches p r"
        by (auto split: if_splits)
      then have "segOk p r"
        using segmentMatches_plain [of p r] by (auto simp: segOk_def)
      moreover have "glob ps rs'"
        using "2.IH"(2) False Cons m "2.prems" "2.IH"(3,4) by (auto split: if_splits)
      ultimately show ?thesis
        using False Cons by (simp add: glob.seg)
    qed
  qed
qed

lemma matchParts_complete: "glob ps rs \<Longrightarrow> matchParts ps rs"
proof (induction rule: glob.induct)
  case (stars ps rs xs)
  then have "matchParts ps (drop (length xs) (xs @ rs))" by simp
  with stars show ?case
    by (auto simp: list_ex_upt simp del: upt_Suc intro!: exI [of _ "length xs"])
next
  case (seg p r ps rs)
  then show ?case by (auto simp: segOk_def)
qed auto

lemma glob_length: "glob ps rs \<Longrightarrow> length (filter (\<lambda>p. p \<noteq> ''**'') ps) \<le> length rs"
  by (induction rule: glob.induct) auto

lemma globMatches_glob:
  "globMatches resource pat \<longleftrightarrow> glob (js_split (CHR ''/'') pat) (js_split (CHR ''/'') resource)"
  by (auto simp: globMatches_def Let_def dest: matchParts_sound glob_length
      intro: matchParts_complete)

text \<open>A pattern that starts with two stars matches below every directory.\<close>

lemma glob_prepend: "ps \<noteq> [] \<Longrightarrow> glob ps rs \<Longrightarrow> glob (''**'' # ps) (xs @ rs)"
  by (rule glob.stars)

lemma glob_refl: "\<forall>p \<in> set ps. p \<noteq> ''**'' \<Longrightarrow> glob ps ps"
  by (induction ps) (auto intro: glob.intros simp: segOk_def)

section \<open>Inside a segment: nothing that fits is missed\<close>

text \<open>The parts between the stars, in order, without overlap.\<close>

fun fits :: "string list \<Rightarrow> string \<Rightarrow> bool" where
  "fits [] w = True"
| "fits [p] w = suffix p w"
| "fits (p # q # ps) w = (\<exists>k \<le> length w. prefix p (drop k w) \<and> fits (q # ps) (drop (k + length p) w))"

lemma fits_drop: "fits ps (drop k w) \<Longrightarrow> fits ps w"
proof (induction ps w arbitrary: k rule: fits.induct)
  case (2 p w)
  then show ?case by (simp add: suffix_def) (metis append_take_drop_id append.assoc)
next
  case (3 p q ps w)
  from "3.prems" obtain j where j: "j \<le> length w - k" "prefix p (drop (j + k) w)"
    "fits (q # ps) (drop (j + length p + k) w)" by auto
  show ?case
  proof (cases "k \<le> length w")
    case True
    with j show ?thesis by (auto intro!: exI [of _ "j + k"] simp: ac_simps)
  next
    case False
    with j show ?thesis by (auto intro!: exI [of _ "length w"] simp: ac_simps)
  qed
qed simp

lemma suffix_drop: "suffix p (drop k v) \<Longrightarrow> suffix p v"
  by (metis append_take_drop_id append.assoc suffix_def)

lemma segLoop_complete: "fits ps (drop pos v) \<Longrightarrow> segLoop v pos ps"
proof (induction v pos ps rule: segLoop.induct)
  case (2 v pos p)
  then show ?case by (simp add: suffix_drop)
next
  case (3 v pos p q ps)
  from "3.prems" obtain k where k: "k \<le> length (drop pos v)" "prefix p (drop k (drop pos v))"
    "fits (q # ps) (drop (k + length p) (drop pos v))" by auto
  from index_of_least [OF k(2,1)] obtain i where i: "index_of p (drop pos v) = Some i" "i \<le> k"
    by auto
  have "drop (k + length p) (drop pos v)
      = drop (k - i) (drop (pos + i + length p) v)"
    using i(2) by (simp add: ac_simps)
  with k(3) have "fits (q # ps) (drop (pos + i + length p) v)"
    by (metis fits_drop)
  with "3.IH" [OF i(1)] i show ?case by simp
qed simp

lemma wild_parts:
  "wild p v \<Longrightarrow> js_split (CHR ''*'') p = p0 # ps \<Longrightarrow>
     prefix p0 v \<and> (if ps = [] then v = p0 else fits ps (drop (length p0) v))"
proof (induction p arbitrary: v p0 ps)
  case Nil
  then show ?case by simp
next
  case (Cons c p)
  obtain q0 qs where sp: "js_split (CHR ''*'') p = q0 # qs"
    using js_split_nonempty by (metis neq_Nil_conv)
  show ?case
  proof (cases "c = CHR ''*''")
    case True
    with Cons.prems obtain k where k: "k \<le> length v" "wild p (drop k v)"
      by (auto simp: list_ex_upt simp del: upt_Suc)
    have *: "prefix q0 (drop k v)"
      "if qs = [] then drop k v = q0 else fits qs (drop (length q0) (drop k v))"
      using Cons.IH [OF k(2) sp] by auto
    have "fits (q0 # qs) v"
    proof (cases qs)
      case Nil
      with * show ?thesis by (simp add: suffix_def) (metis append_take_drop_id)
    next
      case (Cons r rs)
      with * k show ?thesis by (auto simp: ac_simps)
    qed
    with True Cons.prems sp show ?thesis by auto
  next
    case False
    with Cons.prems obtain v' where v: "v = c # v'" "wild p v'" by (auto split: list.splits)
    from Cons.IH [OF v(2) sp] False Cons.prems sp v show ?thesis by auto
  qed
qed

lemma segmentMatches_complete: "wild p v \<Longrightarrow> segmentMatches p v"
proof -
  assume w: "wild p v"
  obtain p0 ps where sp: "js_split (CHR ''*'') p = p0 # ps"
    using js_split_nonempty by (metis neq_Nil_conv)
  show ?thesis
  proof (cases "ps = []")
    case True
    then have "CHR ''*'' \<notin> set p" using sp split_singleton [of _ p] by simp
    then have "js_split (CHR ''*'') p = [p]" by (rule js_split_no_sep)
    with sp True wild_parts [OF w sp] show ?thesis
      by (simp add: segmentMatches_def)
  next
    case False
    with wild_parts [OF w sp] sp show ?thesis
      by (cases ps) (auto simp: segmentMatches_def segLoop_complete)
  qed
qed

section \<open>A protected tail survives normalisation\<close>

text \<open>
  Whatever stands before it, a clean relative path \<open>f\<close> after a separator is still there, after a
  slash, when the resource has been normalised.
\<close>

definition unslash :: "char \<Rightarrow> char" where
  "unslash c = (if c = CHR 0x5C then CHR ''/'' else c)"

definition below :: "string \<Rightarrow> string \<Rightarrow> bool" where
  "below f s \<longleftrightarrow> (\<exists>y. s = y @ CHR ''/'' # f)"

definition clean :: "string \<Rightarrow> bool" where
  "clean f \<longleftrightarrow> f \<noteq> [] \<and> collapseSlashes f = f \<and> stripDotSlashes f = f \<and> dropInnerDots f = f \<and>
     hd f \<noteq> CHR ''/'' \<and> last f \<noteq> CHR ''/''"

lemma below_Cons: "below f s \<Longrightarrow> below f (c # s)"
  unfolding below_def by (metis append_Cons)

lemma below_self: "below f (CHR ''/'' # f)"
  unfolding below_def by (metis append_Nil)

lemma below_collapse: "clean f \<Longrightarrow> below f s \<Longrightarrow> below f (collapseSlashes s)"
proof (induction s rule: collapseSlashes.induct)
  case 1
  then show ?case by (simp add: below_def)
next
  case (2 c)
  then show ?case by simp
next
  case (3 c d s)
  from "3.prems"(2) obtain y where y: "c # d # s = y @ CHR ''/'' # f" by (auto simp: below_def)
  show ?case
  proof (cases y)
    case Nil
    with y "3.prems"(1) have *: "c = CHR ''/''" "d # s = f" "d \<noteq> CHR ''/''"
      by (auto simp: clean_def)
    have "collapseSlashes (c # d # s) = c # f"
      using * "3.prems"(1) by (auto simp: clean_def)
    with * show ?thesis by (simp add: below_self)
  next
    case (Cons a y')
    with y have "below f (d # s)" by (auto simp: below_def)
    with "3.IH" "3.prems"(1) show ?thesis by (auto intro: below_Cons)
  qed
qed

lemma below_strip: "clean f \<Longrightarrow> s = f \<or> below f s \<Longrightarrow> stripDotSlashes s = f \<or> below f (stripDotSlashes s)"
proof (induction s rule: stripDotSlashes.induct)
  case (1 c d s)
  show ?case
  proof (cases "c = CHR ''.'' \<and> d = CHR ''/''")
    case False
    with "1.prems" show ?thesis by auto
  next
    case True
    show ?thesis
    proof (cases "c # d # s = f")
      case True
      with "1.prems"(1) show ?thesis by (simp add: clean_def)
    next
      case False
      with "1.prems"(2) obtain y where y: "c # d # s = y @ CHR ''/'' # f" by (auto simp: below_def)
      with True obtain y' where "y = c # y'" by (cases y) auto
      with y have "s = f \<or> below f s" by (cases y') (auto simp: below_def)
      with "1.IH" True "1.prems"(1) show ?thesis by simp
    qed
  qed
qed auto

lemma below_inner: "clean f \<Longrightarrow> below f s \<Longrightarrow> below f (dropInnerDots s)"
proof (induction s rule: dropInnerDots.induct)
  case 1
  then show ?case by (simp add: below_def)
next
  case (2 c s)
  then obtain y where y: "c # s = y @ CHR ''/'' # f" by (auto simp: below_def)
  then have s: "s = f \<or> below f s" by (cases y) (auto simp: below_def)
  show ?case
  proof (cases "c = CHR ''/''")
    case True
    from below_strip [OF "2.prems"(1) s] show ?thesis
    proof
      assume "stripDotSlashes s = f"
      with True "2.prems"(1) show ?thesis by (simp add: clean_def below_self)
    next
      assume "below f (stripDotSlashes s)"
      with "2.IH"(1) [OF True "2.prems"(1)] True show ?thesis by (simp add: below_Cons)
    qed
  next
    case False
    with y have "below f s" by (cases y) (auto simp: below_def)
    with "2.IH"(2) [OF False "2.prems"(1)] False show ?thesis by (simp add: below_Cons)
  qed
qed

lemma dropTrailing_id: "s \<noteq> [] \<Longrightarrow> last s \<noteq> CHR ''/'' \<Longrightarrow> dropTrailingSlashes s = s"
  by (cases s rule: rev_cases) (auto simp: dropTrailingSlashes_def)

text \<open>Lower case changes neither slashes nor dots, so it can come first.\<close>

lemma char_of_code: "c = char_of ((of_char c) :: nat)"
  by simp

lemma lower_fixed: "js_lower_char c = d \<Longrightarrow> (of_char d :: nat) < 65 \<Longrightarrow> c = d"
  by (auto simp: js_lower_char_def Let_def split: if_splits)

lemma lower_slash [simp]: "js_lower_char c = CHR ''/'' \<longleftrightarrow> c = CHR ''/''"
  using lower_fixed [of c "CHR ''/''"] by (auto simp: js_lower_char_def Let_def)

lemma lower_dot [simp]: "js_lower_char c = CHR ''.'' \<longleftrightarrow> c = CHR ''.''"
  using lower_fixed [of c "CHR ''.''"] by (auto simp: js_lower_char_def Let_def)

lemma lower_slash_eq [simp]: "js_lower_char (CHR ''/'') = CHR ''/''" "js_lower_char (CHR ''.'') = CHR ''.''"
  by simp_all

lemma lower_collapse: "js_lower (collapseSlashes s) = collapseSlashes (js_lower s)"
  by (induction s rule: collapseSlashes.induct) (auto simp: js_lower_def)

lemma lower_strip: "js_lower (stripDotSlashes s) = stripDotSlashes (js_lower s)"
  by (induction s rule: stripDotSlashes.induct) (auto simp: js_lower_def)

lemma lower_inner: "js_lower (dropInnerDots s) = dropInnerDots (js_lower s)"
  using lower_strip
  by (induction s rule: dropInnerDots.induct) (auto simp: js_lower_def)

lemma lower_trailing: "js_lower (dropTrailingSlashes s) = dropTrailingSlashes (js_lower s)"
  by (simp add: js_lower_def dropTrailingSlashes_def dropWhile_map comp_def rev_map)

lemma normalise_lower_first:
  "normaliseResource r = dropTrailingSlashes (dropInnerDots (stripDotSlashes (collapseSlashes
     (js_lower (map unslash (js_trim r))))))"
  unfolding normaliseResource_def lower_trailing lower_inner lower_strip lower_collapse
    unslash_def [abs_def] by (rule refl)

lemma trim_tail:
  assumes "g \<noteq> []" "\<not> js_ws (last g)" "\<not> js_ws sep"
  shows "\<exists>x. js_trim (d @ sep # g) = x @ sep # g"
proof -
  have "dropWhile js_ws (d @ sep # g) = dropWhile js_ws d @ sep # g"
    using assms(3) by (metis append.left_neutral dropWhile_append dropWhile_append3 dropWhile_eq_Nil_conv
        dropWhile.simps(2))
  moreover have "dropWhile js_ws (rev (y @ g)) = rev (y @ g)" for y
    using assms(1,2) by (cases g rule: rev_cases) auto
  ultimately show ?thesis
    unfolding js_trim_def by (metis append_Cons append_assoc append_Nil rev_rev_ident)
qed

lemma normalise_below:
  assumes "clean f" "js_lower (map unslash g) = f" "\<not> js_ws (last g)" "unslash sep = CHR ''/''"
  shows "\<exists>pre. js_split (CHR ''/'') (normaliseResource (d @ sep # g))
    = pre @ js_split (CHR ''/'') f"
proof -
  have g: "g \<noteq> []" using assms(1,2) by (auto simp: clean_def js_lower_def)
  have "\<not> js_ws sep"
    using assms(4) by (auto simp: unslash_def js_ws_def split: if_splits)
  with trim_tail [OF g assms(3)] obtain x where "js_trim (d @ sep # g) = x @ sep # g" by blast
  then have "js_lower (map unslash (js_trim (d @ sep # g))) =
      js_lower (map unslash x) @ CHR ''/'' # f"
    using assms(2,4) by (simp add: js_lower_def)
  then have "below f (js_lower (map unslash (js_trim (d @ sep # g))))"
    by (auto simp: below_def)
  then have "below f (collapseSlashes (js_lower (map unslash (js_trim (d @ sep # g)))))" (is "below f ?c")
    using assms(1) by (simp add: below_collapse)
  then have "stripDotSlashes ?c = f \<or> below f (stripDotSlashes ?c)"
    using assms(1) by (simp add: below_strip)
  then have in_: "dropInnerDots (stripDotSlashes ?c) = f \<or> below f (dropInnerDots (stripDotSlashes ?c))"
    using assms(1) by (auto simp: below_inner clean_def)
  then have "dropTrailingSlashes (dropInnerDots (stripDotSlashes ?c)) = dropInnerDots (stripDotSlashes ?c)"
    using assms(1) by (intro dropTrailing_id) (auto simp: clean_def below_def)
  with in_ have "normaliseResource (d @ sep # g) = f \<or> below f (normaliseResource (d @ sep # g))"
    by (simp add: normalise_lower_first)
  then show ?thesis
    by (metis append_Nil below_def js_split_append_sep)
qed

section \<open>Properties\<close>


text \<open>
  Inside a segment nothing that fits is missed: a value that fits a wildcard pattern
  is matched by the leftmost-first search, however many stars the pattern has.
\<close>

theorem segmentMatches_misses_nothing: "wild p v \<Longrightarrow> segmentMatches p v"
  by (rule segmentMatches_complete)

theorem segmentMatches_misses_nothing_witness: "segmentMatches ''a*b*c'' ''axbybzc''"
  by (rule segmentMatches_misses_nothing) code_simp

end
