(* ===== verification/Shell.thy ===== *)
theory Shell
  imports Prelude
begin

text \<open>
  Which files a shell command writes, as \<open>commandWriteTargets\<close> of
  \<open>odysseus/packages/policy-engine/src/action-risk.ts\<close> reads it off the text: the segment
  splitter, the tokenizer, redirections, and the write operands of the programs the code knows.
  Every regular expression of the code is written out as a function on characters.  The recursion
  into a nested shell terminates because the inner command is shorter than its segment.
\<close>

section \<open>Characters and words\<close>

definition is_quote :: "char \<Rightarrow> bool" where
  "is_quote c \<longleftrightarrow> c = CHR 0x22 \<or> c = CHR 0x27"

definition is_digit :: "char \<Rightarrow> bool" where
  "is_digit c \<longleftrightarrow> c \<in> set ''0123456789''"

definition is_word_start :: "char \<Rightarrow> bool" where
  "is_word_start c \<longleftrightarrow>
     (let n = (of_char c :: nat) in (65 \<le> n \<and> n \<le> 90) \<or> (97 \<le> n \<and> n \<le> 122) \<or> n = 95)"

definition stripQuotes :: "string \<Rightarrow> string" where
  "stripQuotes s =
     (let a = (case s of [] \<Rightarrow> [] | c # t \<Rightarrow> if is_quote c then t else s) in
      if a \<noteq> [] \<and> is_quote (last a) then butlast a else a)"

definition normalisePath :: "string \<Rightarrow> string" where
  "normalisePath p = map (\<lambda>c. if c = CHR 0x5C then CHR ''/'' else c) (stripQuotes (js_trim p))"

definition lastSegment :: "string \<Rightarrow> string" where
  "lastSegment p =
     last (js_split (CHR ''/'') (rev (dropWhile (\<lambda>c. c = CHR ''/'') (rev (normalisePath p)))))"

definition dropExt :: "string \<Rightarrow> string" where
  "dropExt s =
     (if list_ex (\<lambda>e. suffix e s) [''.exe'', ''.cmd'', ''.bat'', ''.ps1''] then take (length s - 4) s
      else s)"

definition program :: "string \<Rightarrow> string" where
  "program token = dropExt (js_lower (lastSegment (normalisePath token)))"

section \<open>Segments\<close>

definition nextIs :: "char \<Rightarrow> string \<Rightarrow> bool" where
  "nextIs d cs \<longleftrightarrow> (case cs of [] \<Rightarrow> False | c # _ \<Rightarrow> c = d)"

definition pushTrim :: "string \<Rightarrow> string list" where
  "pushTrim cur = (if js_trim cur \<noteq> [] then [js_trim cur] else [])"

fun splitSeg :: "char option \<Rightarrow> string \<Rightarrow> string \<Rightarrow> string list" where
  "splitSeg q cur [] = pushTrim cur"
| "splitSeg (Some q) cur (c # cs) = splitSeg (if c = q then None else Some q) (cur @ [c]) cs"
| "splitSeg None cur (c # cs) =
     (if is_quote c then splitSeg (Some c) (cur @ [c]) cs
      else if c = CHR '';'' \<or> c = CHR 0x0A \<or> c = CHR ''|'' \<or> (c = CHR ''&'' \<and> nextIs (CHR ''&'') cs) then
        pushTrim cur @
        splitSeg None [] (if (c = CHR ''&'' \<or> c = CHR ''|'') \<and> nextIs c cs then tl cs else cs)
      else splitSeg None (cur @ [c]) cs)"

definition splitSegments :: "string \<Rightarrow> string list" where
  "splitSegments command = splitSeg None [] command"

section \<open>Tokens\<close>

fun tok :: "char option \<Rightarrow> bool \<Rightarrow> string \<Rightarrow> string \<Rightarrow> string list" where
  "tok q started cur [] = (if started \<or> cur \<noteq> [] then [cur] else [])"
| "tok (Some q) started cur (c # cs) =
     (if c = q then tok None started cur cs else tok (Some q) started (cur @ [c]) cs)"
| "tok None started cur (c # cs) =
     (if is_quote c then tok (Some c) True cur cs
      else if js_ws c then (if started \<or> cur \<noteq> [] then [cur] else []) @ tok None False [] cs
      else if c = CHR ''>'' \<or> c = CHR ''<'' then
        (if started \<or> cur \<noteq> [] then [cur] else []) @ [[c]] @ tok None False [] cs
      else tok None True (cur @ [c]) cs)"

definition isArrow :: "string \<Rightarrow> bool" where
  "isArrow t \<longleftrightarrow> t = ''>'' \<or> t = ''<''"

lemma drop_dropWhile_less [termination_simp]:
  "length (dropWhile P xs) - Suc 0 < Suc (length xs)"
  using length_dropWhile_le [of P xs] by linarith

fun cleanTok :: "string list \<Rightarrow> string list" where
  "cleanTok [] = []"
| "cleanTok (t # ts) =
     (if isArrow t then cleanTok (drop 1 (dropWhile (\<lambda>u. u = ''>'' \<or> u = []) ts))
      else if length t = 1 \<and> is_digit (hd t) \<and> (case ts of [] \<Rightarrow> False | u # _ \<Rightarrow> isArrow u)
        then cleanTok ts
      else t # cleanTok ts)"

definition tokenize :: "string \<Rightarrow> string list" where
  "tokenize segment = filter (\<lambda>t. t \<noteq> []) (cleanTok (tok None False [] segment))"

section \<open>Redirections\<close>

text \<open>
  The pattern is: the start or a character that is no digit, ampersand or arrow; an optional
  digit; one or two arrows (two are tried first); spaces; and a quoted or bare target.
\<close>

definition bareChar :: "char \<Rightarrow> bool" where
  "bareChar c \<longleftrightarrow> \<not> js_ws c \<and> c \<noteq> CHR ''|'' \<and> c \<noteq> CHR '';'' \<and> c \<noteq> CHR ''&''"

definition bareTarget :: "string \<Rightarrow> (string \<times> string) option" where
  "bareTarget s =
     (let w = takeWhile bareChar s in if w = [] then None else Some (w, dropWhile bareChar s))"

definition redirTarget :: "string \<Rightarrow> (string \<times> string) option" where
  "redirTarget s =
     (case s of [] \<Rightarrow> None
      | q # t \<Rightarrow>
          if is_quote q then
            (let body = takeWhile (\<lambda>c. c \<noteq> q) t; rest = dropWhile (\<lambda>c. c \<noteq> q) t in
             if body \<noteq> [] \<and> rest \<noteq> [] then Some (q # body @ [q], tl rest) else bareTarget s)
          else bareTarget s)"

definition redirOp :: "string \<Rightarrow> (string \<times> string) option" where
  "redirOp s =
     (case s of [] \<Rightarrow> None
      | c # t \<Rightarrow>
          if c \<noteq> CHR ''>'' then None
          else if nextIs (CHR ''>'') t then
            (case redirTarget (dropWhile js_ws (tl t)) of
               Some r \<Rightarrow> Some r
             | None \<Rightarrow> redirTarget t)
          else redirTarget (dropWhile js_ws t))"

definition redirDigit :: "string \<Rightarrow> (string \<times> string) option" where
  "redirDigit s = (case s of [] \<Rightarrow> None | c # t \<Rightarrow> if is_digit c then redirOp t else redirOp s)"

definition redirAt :: "bool \<Rightarrow> string \<Rightarrow> (string \<times> string) option" where
  "redirAt start s =
     (case (if start then redirDigit s else None) of
        Some r \<Rightarrow> Some r
      | None \<Rightarrow>
          (case s of [] \<Rightarrow> None
           | c # t \<Rightarrow>
               if is_digit c \<or> c = CHR ''&'' \<or> c = CHR ''<'' \<or> c = CHR ''>'' then None
               else redirDigit t))"

lemma length_bareTarget: "bareTarget s = Some (w, r) \<Longrightarrow> length r < length s"
proof -
  assume a: "bareTarget s = Some (w, r)"
  then have w: "takeWhile bareChar s \<noteq> []" and r: "r = dropWhile bareChar s"
    by (auto simp: bareTarget_def Let_def split: if_splits)
  have "length (takeWhile bareChar s) + length (dropWhile bareChar s) = length s"
    by (metis length_append takeWhile_dropWhile_id)
  with w r show ?thesis by (cases "takeWhile bareChar s") auto
qed

lemma length_redirTarget: "redirTarget s = Some (w, r) \<Longrightarrow> length r < length s"
proof (cases s)
  case Nil
  assume "redirTarget s = Some (w, r)"
  with Nil show ?thesis by (simp add: redirTarget_def)
next
  case (Cons q t)
  assume a: "redirTarget s = Some (w, r)"
  have l: "length (dropWhile (\<lambda>c. c \<noteq> q) t) \<le> length t" by (rule length_dropWhile_le)
  show ?thesis
  proof (cases "is_quote q \<and> takeWhile (\<lambda>c. c \<noteq> q) t \<noteq> [] \<and> dropWhile (\<lambda>c. c \<noteq> q) t \<noteq> []")
    case True
    with a Cons have "r = tl (dropWhile (\<lambda>c. c \<noteq> q) t)"
      by (simp add: redirTarget_def Let_def)
    with l Cons show ?thesis by simp
  next
    case False
    with a Cons have "bareTarget s = Some (w, r)"
      by (auto simp: redirTarget_def Let_def split: if_splits)
    then show ?thesis by (rule length_bareTarget)
  qed
qed

lemma length_redirOp: "redirOp s = Some (w, r) \<Longrightarrow> length r < length s"
  by (auto simp: redirOp_def nextIs_def split: list.splits if_splits option.splits
      dest!: length_redirTarget
      intro: le_less_trans less_le_trans [OF _ le_trans [OF length_dropWhile_le]])

lemma length_redirDigit: "redirDigit s = Some (w, r) \<Longrightarrow> length r < length s"
  by (auto simp: redirDigit_def split: list.splits if_splits dest: length_redirOp)

lemma length_redirAt: "redirAt b s = Some (w, r) \<Longrightarrow> length r < length s"
  by (auto simp: redirAt_def split: list.splits if_splits option.splits dest: length_redirDigit)

function redirScan :: "bool \<Rightarrow> string \<Rightarrow> string list" where
  "redirScan start s =
     (case redirAt start s of
        Some (w, r) \<Rightarrow> w # redirScan False r
      | None \<Rightarrow> (case s of [] \<Rightarrow> [] | c # t \<Rightarrow> redirScan False t))"
  by pat_completeness auto
termination
  by (relation "measure (\<lambda>(b, s). length s)") (auto dest: length_redirAt)

declare redirScan.simps [simp del]

definition isNullDevice :: "string \<Rightarrow> bool" where
  "isNullDevice p \<longleftrightarrow> js_lower p \<in> {''/dev/null'', ''/dev/stdout'', ''/dev/stderr'', ''nul''}"

definition redirectTargets :: "string \<Rightarrow> string list" where
  "redirectTargets segment =
     filter (\<lambda>t. \<not> prefix ''&'' t \<and> \<not> isNullDevice t) (map stripQuotes (redirScan True segment))"

section \<open>Write targets\<close>

definition noNewline :: "string \<Rightarrow> bool" where
  "noNewline s \<longleftrightarrow> CHR 0x0A \<notin> set s \<and> CHR 0x0D \<notin> set s"

text \<open>The middle of a dotted key: at least one character between the given ends.\<close>

definition dottedKey :: "string \<Rightarrow> string list \<Rightarrow> string \<Rightarrow> bool" where
  "dottedKey pre ends k \<longleftrightarrow>
     prefix pre k \<and>
     list_ex (\<lambda>e. suffix e (drop (length pre) k) \<and> length (drop (length pre) k) > length e \<and>
       noNewline (take (length k - length pre - length e) (drop (length pre) k))) ends"

definition executingKey :: "string \<Rightarrow> bool" where
  "executingKey key =
     (let k = js_lower key in
      k \<in> {''core.hookspath'', ''core.fsmonitor'', ''core.sshcommand'', ''core.pager'',
           ''core.editor'', ''core.askpass'', ''core.gitproxy''} \<or>
      dottedKey ''alias.'' [[]] k \<or>
      (prefix ''credential.'' k \<and> suffix ''helper'' (drop 11 k) \<and>
        noNewline (take (length k - 17) (drop 11 k))) \<or>
      k = ''include.path'' \<or>
      dottedKey ''includeif.'' [[]] k \<or>
      dottedKey ''filter.'' [''.clean'', ''.smudge'', ''.process''] k \<or>
      dottedKey ''diff.'' [''.textconv''] k \<or>
      k = ''sequence.editor'' \<or>
      k = ''uploadpack.packobjectshook'')"

definition isAssignment :: "string \<Rightarrow> bool" where
  "isAssignment t \<longleftrightarrow>
     (case t of [] \<Rightarrow> False
      | c # _ \<Rightarrow> is_word_start c \<and>
          prefix ''='' (dropWhile (\<lambda>d. is_word_start d \<or> is_digit d) t))"

definition isOption :: "string \<Rightarrow> bool" where
  "isOption t \<longleftrightarrow> prefix ''-'' t"

lemma length_dropWhile_Suc [termination_simp]: "length (dropWhile P xs) < Suc (length xs)"
  by (simp add: length_dropWhile_le le_imp_less_Suc)

fun dropWrappers :: "string list \<Rightarrow> string list" where
  "dropWrappers [] = []"
| "dropWrappers (t # ts) =
     (if program t \<in> {''sudo'', ''doas'', ''env'', ''nohup'', ''time'', ''exec''}
      then dropWrappers (dropWhile (\<lambda>u. isOption u \<or> isAssignment u) ts)
      else t # ts)"

fun find_index :: "('a \<Rightarrow> bool) \<Rightarrow> 'a list \<Rightarrow> nat option" where
  "find_index P [] = None"
| "find_index P (x # xs) = (if P x then Some 0 else map_option Suc (find_index P xs))"

definition nth_opt :: "'a list \<Rightarrow> nat \<Rightarrow> 'a option" where
  "nth_opt xs i = (if i < length xs then Some (xs ! i) else None)"

definition last_opt :: "'a list \<Rightarrow> 'a option" where
  "last_opt xs = (if xs = [] then None else Some (last xs))"

definition addTarget :: "string option \<Rightarrow> string list" where
  "addTarget p = (case p of None \<Rightarrow> []
     | Some q \<Rightarrow> if q \<noteq> [] \<and> \<not> isNullDevice q then [normalisePath q] else [])"

definition after :: "string list \<Rightarrow> nat \<Rightarrow> string option" where
  "after args i = nth_opt args (Suc i)"

definition copyTargets :: "string list \<Rightarrow> string list \<Rightarrow> string list" where
  "copyTargets args operands =
     (let destFlag = find_index (\<lambda>a. js_lower a \<in> {''-destination'', ''-t'', ''--target-directory''}) args;
          destination = (case destFlag of Some i \<Rightarrow> after args i | None \<Rightarrow> last_opt operands);
          sources = (case destFlag of Some _ \<Rightarrow> operands | None \<Rightarrow> butlast operands) in
      case destination of None \<Rightarrow> []
      | Some d \<Rightarrow> if d = [] then []
          else addTarget (Some d) @
            concat (map (\<lambda>source. addTarget (Some
              (rev (dropWhile (\<lambda>c. c = CHR 0x5C \<or> c = CHR ''/'') (rev d)) @ ''/'' @ lastSegment source)))
              sources))"

definition gitTargets :: "string list \<Rightarrow> string list" where
  "gitTargets args =
     (case find_index (\<lambda>a. a = ''config'') args of None \<Rightarrow> []
      | Some i \<Rightarrow>
          (let rest = drop (Suc i) args;
               plain = filter (\<lambda>a. \<not> isOption a) rest;
               setting = length plain \<ge> 2 \<or> ''--add'' \<in> set rest in
           case plain of [] \<Rightarrow> []
           | key # _ \<Rightarrow>
               if key \<noteq> [] \<and> setting \<and> executingKey key then
                 addTarget (Some (if ''--global'' \<in> set rest \<or> ''--system'' \<in> set rest
                   then ''~/.gitconfig'' else ''.git/config''))
               else []))"

text \<open>
  The commands other than a nested shell, by program name, in the order of the code.
\<close>

definition programTargets :: "string \<Rightarrow> string list \<Rightarrow> string list" where
  "programTargets name args =
     (let operands = filter (\<lambda>a. \<not> isOption a) args in
      if name \<in> {''tee'', ''touch'', ''truncate'', ''new-item'', ''set-content'', ''add-content'', ''out-file''} then
        (case find_index (\<lambda>a. js_lower a \<in> {''-path'', ''-filepath'', ''-literalpath''}) args of
           Some i \<Rightarrow> addTarget (after args i)
         | None \<Rightarrow> concat (map (\<lambda>a. addTarget (Some a)) operands))
      else if name \<in> {''cp'', ''mv'', ''install'', ''ln'', ''copy'', ''move'', ''copy-item'', ''move-item'', ''rsync''}
        then copyTargets args operands
      else if name = ''sed'' \<and> list_ex (prefix ''-i'') args then addTarget (last_opt operands)
      else if name \<in> {''curl'', ''wget'', ''iwr'', ''invoke-webrequest''} then
        (case find_index (\<lambda>a. a \<in> {''-o'', ''--output'', ''-O'', ''--output-document'', ''-outfile''}) args of
           Some i \<Rightarrow> addTarget (after args i)
         | None \<Rightarrow> [])
      else if name = ''dd'' then
        (case filter (prefix ''of='') args of [] \<Rightarrow> [] | a # _ \<Rightarrow> addTarget (Some (drop 3 a)))
      else if name = ''git'' \<and> ''config'' \<in> set args then gitTargets args
      else [])"

definition commandTokens :: "string \<Rightarrow> string list" where
  "commandTokens segment = dropWrappers (dropWhile isAssignment (tokenize segment))"

definition isShell :: "string \<Rightarrow> bool" where
  "isShell name \<longleftrightarrow>
     name \<in> {''sh'', ''bash'', ''zsh'', ''dash'', ''cmd'', ''powershell'', ''pwsh''}"

definition shellFlag :: "string list \<Rightarrow> nat option" where
  "shellFlag args = find_index (\<lambda>a. js_lower a \<in> {''-c'', ''/c'', ''-command''}) args"

definition segmentWrites :: "(string \<Rightarrow> string list) \<Rightarrow> string \<Rightarrow> string list" where
  "segmentWrites nested segment =
     map normalisePath (redirectTargets segment) @
     (case commandTokens segment of [] \<Rightarrow> []
      | t # args \<Rightarrow>
          if isShell (program t) then
            (case shellFlag args of None \<Rightarrow> []
             | Some i \<Rightarrow> concat (map (\<lambda>p. addTarget (Some p)) (nested (js_join '' '' (drop (Suc i) args)))))
          else programTargets (program t) args)"

section \<open>Termination: a nested command is shorter than its segment\<close>

lemma length_js_trim: "length (js_trim s) \<le> length s"
  unfolding js_trim_def by (metis length_dropWhile_le length_rev le_trans)

lemma length_splitSeg: "x \<in> set (splitSeg q cur cs) \<Longrightarrow> length x \<le> length cur + length cs"
proof (induction q cur cs rule: splitSeg.induct)
  case (1 q cur)
  then show ?case by (auto simp: pushTrim_def length_js_trim split: if_splits)
next
  case (2 q cur c cs)
  then show ?case by (auto split: if_splits)
next
  case (3 cur c cs)
  have p: "y \<in> set (pushTrim cur) \<Longrightarrow> length y \<le> length cur" for y
    by (auto simp: pushTrim_def length_js_trim split: if_splits)
  from 3 show ?case by (fastforce split: if_splits dest: p)
qed

lemma length_splitSegments: "x \<in> set (splitSegments s) \<Longrightarrow> length x \<le> length s"
  using length_splitSeg [of x None "[]" s] by (simp add: splitSegments_def)

definition weight :: "string \<Rightarrow> nat" where
  "weight t = (if isArrow t then 0 else Suc (length t))"

lemma weight_tok: "sum_list (map weight (tok q st cur cs)) \<le> Suc (length cur + length cs)"
proof (induction q st cur cs rule: tok.induct)
  case (1 q st cur)
  then show ?case by (simp add: weight_def)
next
  case (2 q st cur c cs)
  then show ?case by (cases "c = q") auto
next
  case (3 st cur c cs)
  have flush: "sum_list (map weight (if st \<or> cur \<noteq> [] then [cur] else [])) \<le> Suc (length cur)"
    by (simp add: weight_def)
  consider "is_quote c" | "\<not> is_quote c" "js_ws c"
    | "\<not> is_quote c" "\<not> js_ws c" "c = CHR ''>'' \<or> c = CHR ''<''"
    | "\<not> is_quote c" "\<not> js_ws c" "\<not> (c = CHR ''>'' \<or> c = CHR ''<'')" by blast
  then show ?case
  proof cases
    case 1
    with 3(1) show ?thesis by simp
  next
    case 2
    have "sum_list (map weight (tok None False [] cs)) \<le> Suc (length cs)"
      using 3(2) 2 by simp
    with 2 flush show ?thesis by (simp del: sum_list.Cons split del: if_split)
  next
    case 3
    have "weight [c] = 0" using 3 by (auto simp: weight_def isArrow_def)
    moreover have "sum_list (map weight (tok None False [] cs)) \<le> Suc (length cs)"
      using "3.IH"(3) 3 by simp
    ultimately show ?thesis using 3 flush by (auto split: if_splits)
  next
    case 4
    with 3(4) show ?thesis by simp
  qed
qed

lemma weight_dropWhile: "sum_list (map weight (dropWhile P ts)) \<le> sum_list (map weight ts)"
  by (induction ts) auto

lemma weight_drop1: "sum_list (map weight (drop 1 ts)) \<le> sum_list (map weight ts)"
  by (cases ts) auto

lemma cleanTok_weight:
  "sum_list (map (\<lambda>t. Suc (length t)) (cleanTok ts)) \<le> sum_list (map weight ts)"
proof (induction ts rule: cleanTok.induct)
  case 1
  then show ?case by simp
next
  case (2 t ts)
  have "sum_list (map weight (drop 1 (dropWhile (\<lambda>u. u = ''>'' \<or> u = []) ts)))
      \<le> sum_list (map weight ts)"
    using weight_drop1 weight_dropWhile le_trans by blast
  moreover have "isArrow t \<Longrightarrow> weight t = 0" "\<not> isArrow t \<Longrightarrow> weight t = Suc (length t)"
    by (simp_all add: weight_def)
  ultimately show ?case using 2
    by (cases "isArrow t") (auto intro: le_trans)
qed

lemma sum_filter_le: "sum_list (map f (filter P ts)) \<le> sum_list (map f (ts :: 'a list))"
  for f :: "'a \<Rightarrow> nat"
  by (induction ts) auto

lemma tokenize_weight:
  "sum_list (map (\<lambda>t. Suc (length t)) (tokenize s)) \<le> Suc (length s)"
proof -
  have "sum_list (map weight (tok None False [] s)) \<le> Suc (length s)"
    using weight_tok [of None False "[]" s] by simp
  with cleanTok_weight [of "tok None False [] s"] show ?thesis
    unfolding tokenize_def by (meson le_trans sum_filter_le)
qed

lemma sum_dropWhile_le: "sum_list (map f (dropWhile P ts)) \<le> sum_list (map f (ts :: 'a list))"
  for f :: "'a \<Rightarrow> nat"
  by (induction ts) auto

lemma sum_dropWrappers_le:
  "sum_list (map f (dropWrappers ts)) \<le> sum_list (map f ts)" for f :: "string \<Rightarrow> nat"
proof (induction ts rule: dropWrappers.induct)
  case 1
  then show ?case by simp
next
  case (2 t ts)
  have *: "sum_list (map f (dropWhile (\<lambda>u. isOption u \<or> isAssignment u) ts)) \<le> sum_list (map f ts)"
    by (rule sum_dropWhile_le)
  show ?case
  proof (cases "program t \<in> {''sudo'', ''doas'', ''env'', ''nohup'', ''time'', ''exec''}")
    case True
    with 2 [OF True] * show ?thesis
      by (simp only: dropWrappers.simps if_True list.map sum_list.Cons)
  next
    case False
    then show ?thesis by (simp only: dropWrappers.simps if_False)
  qed
qed

lemma sum_drop_le: "sum_list (map f (drop n ts)) \<le> sum_list (map f (ts :: 'a list))"
  for f :: "'a \<Rightarrow> nat"
  by (metis append_take_drop_id le_add2 map_append sum_list_append)

lemma length_js_join_space: "length (js_join '' '' ts) \<le> sum_list (map (\<lambda>t. Suc (length t)) ts)"
  by (induction "'' ''" ts rule: js_join.induct) auto

lemma nested_shorter:
  assumes "commandTokens s = t # args"
  shows "length (js_join '' '' (drop (Suc i) args)) < length s \<or> s = []"
proof -
  let ?f = "\<lambda>t. Suc (length t)"
  have "sum_list (map ?f (t # args)) \<le> Suc (length s)"
    using assms tokenize_weight [of s] unfolding commandTokens_def
    by (metis (no_types, lifting) le_trans sum_dropWhile_le sum_dropWrappers_le)
  moreover have "length (js_join '' '' (drop (Suc i) args)) \<le> sum_list (map ?f (drop (Suc i) args))"
    by (rule length_js_join_space)
  moreover have "args = [] \<or> sum_list (map ?f (drop (Suc i) args)) < sum_list (map ?f args)"
    using sum_drop_le [of ?f i "tl args"] by (cases args) auto
  ultimately show ?thesis by (cases args) auto
qed

lemma tokenize_Nil [simp]: "tokenize [] = []"
  by (simp add: tokenize_def)

lemma segmentWrites_cong [fundef_cong]:
  assumes "s = s'" "\<And>inner. length inner < length s' \<Longrightarrow> f inner = g inner"
  shows "segmentWrites f s = segmentWrites g s'"
proof (cases "commandTokens s'")
  case Nil
  with assms(1) show ?thesis by (simp add: segmentWrites_def)
next
  case (Cons t args)
  then have "s' \<noteq> []" by (auto simp: commandTokens_def)
  with nested_shorter [OF Cons] have "f (js_join '' '' (drop (Suc i) args)) = g (js_join '' '' (drop (Suc i) args))" for i
    using assms(2) by blast
  with Cons assms(1) show ?thesis by (simp add: segmentWrites_def split: option.split)
qed

function commandWriteTargets :: "string \<Rightarrow> string list" where
  "commandWriteTargets command =
     js_dedupe (concat (map (\<lambda>segment. segmentWrites commandWriteTargets segment)
       (splitSegments command)))"
  by pat_completeness auto
termination
  by (relation "measure length") (auto dest: length_splitSegments)

declare commandWriteTargets.simps [simp del]

section \<open>A redirection is always seen\<close>

text \<open>Characters that neither quote nor separate nor redirect.\<close>

definition plain :: "char \<Rightarrow> bool" where
  "plain c \<longleftrightarrow> \<not> is_quote c \<and> c \<noteq> CHR '';'' \<and> c \<noteq> CHR 0x0A \<and> c \<noteq> CHR ''|'' \<and> c \<noteq> CHR ''&'' \<and>
     c \<noteq> CHR ''>''"

definition plainWord :: "string \<Rightarrow> bool" where
  "plainWord w \<longleftrightarrow> w \<noteq> [] \<and> (\<forall>c \<in> set w. plain c \<and> \<not> js_ws c)"

lemma splitSeg_plain: "\<forall>c \<in> set s. plain c \<or> c = CHR ''>'' \<Longrightarrow> splitSeg None cur s = pushTrim (cur @ s)"
proof (induction s arbitrary: cur)
  case Nil
  then show ?case by simp
next
  case (Cons c s)
  then have "splitSeg None cur (c # s) = splitSeg None (cur @ [c]) s"
    by (auto simp: plain_def is_quote_def)
  with Cons show ?case by simp
qed

lemma redirOp_None: "s = [] \<or> hd s \<noteq> CHR ''>'' \<Longrightarrow> redirOp s = None"
  by (cases s) (auto simp: redirOp_def)

lemma bareTarget_word: "plainWord w \<Longrightarrow> bareTarget w = Some (w, [])"
proof -
  assume w: "plainWord w"
  then have "\<forall>c \<in> set w. bareChar c" by (auto simp: plainWord_def plain_def bareChar_def)
  then have "takeWhile bareChar w = w" "dropWhile bareChar w = []"
    by (simp_all add: takeWhile_eq_all_conv dropWhile_eq_Nil_conv)
  moreover have "w \<noteq> []" using w by (simp add: plainWord_def)
  ultimately show ?thesis by (simp only: bareTarget_def Let_def if_False)
qed

lemma redirOp_word:
  assumes "plainWord w"
  shows "redirOp ('' > '' @ w) = None" "redirOp (CHR ''>'' # CHR '' '' # w) = Some (w, [])"
proof -
  obtain c t where w: "w = c # t" using assms by (cases w) (auto simp: plainWord_def)
  with assms have c: "\<not> js_ws c" "\<not> is_quote c" by (auto simp: plainWord_def plain_def)
  show "redirOp ('' > '' @ w) = None" by (simp add: redirOp_def)
  have "js_ws (CHR '' '')" by (simp add: js_ws_def)
  moreover have "redirTarget w = Some (w, [])"
    using bareTarget_word [OF assms] w c by (simp add: redirTarget_def)
  ultimately show "redirOp (CHR ''>'' # CHR '' '' # w) = Some (w, [])"
    using w c by (simp add: redirOp_def nextIs_def)
qed

lemma redirScan_Nil [simp]: "redirScan False [] = []"
  by (simp add: redirScan.simps redirAt_def)

lemma redirAt_here: "plainWord w \<Longrightarrow> redirAt b ('' > '' @ w) = Some (w, [])"
  using redirOp_word [of w] by (simp add: redirAt_def redirDigit_def is_digit_def)

lemma redirDigit_plain:
  assumes "CHR ''>'' \<notin> set u" "plainWord w"
  shows "redirDigit (u @ '' > '' @ w) = None"
proof (cases u)
  case Nil
  then show ?thesis using redirOp_word(1) [OF assms(2)] by (simp add: redirDigit_def is_digit_def)
next
  case (Cons c t)
  have "redirOp (t @ '' > '' @ w) = None" by (rule redirOp_None) (use assms Cons in \<open>cases t; auto\<close>)
  moreover have "redirOp (c # t @ '' > '' @ w) = None"
    by (rule redirOp_None) (use assms Cons in auto)
  ultimately show ?thesis using Cons by (simp add: redirDigit_def)
qed

lemma redirScan_word:
  assumes "CHR ''>'' \<notin> set u" "plainWord w"
  shows "redirScan b (u @ '' > '' @ w) = [w]"
  using assms(1)
proof (induction u arbitrary: b)
  case Nil
  show ?case
    by (subst redirScan.simps) (use redirAt_here [OF assms(2)] in simp)
next
  case (Cons c u)
  have "redirDigit ((c # u) @ '' > '' @ w) = None" "redirDigit (u @ '' > '' @ w) = None"
    using Cons.prems assms(2) by (intro redirDigit_plain; simp)+
  then have "redirAt b ((c # u) @ '' > '' @ w) = None"
    by (simp add: redirAt_def)
  then show ?case
    by (subst redirScan.simps) (use Cons in simp)
qed

lemma plainWord_last: "plainWord w \<Longrightarrow> \<not> js_ws (last w)"
  by (auto simp: plainWord_def)

lemma stripQuotes_word: "plainWord w \<Longrightarrow> stripQuotes w = w"
  by (cases w) (auto simp: stripQuotes_def plainWord_def plain_def)

lemma js_trim_id: "s \<noteq> [] \<Longrightarrow> \<not> js_ws (hd s) \<Longrightarrow> \<not> js_ws (last s) \<Longrightarrow> js_trim s = s"
proof -
  assume s: "s \<noteq> []" "\<not> js_ws (hd s)" "\<not> js_ws (last s)"
  then have "dropWhile js_ws s = s" by (cases s) auto
  moreover have "dropWhile js_ws (rev s) = rev s" using s by (cases s rule: rev_cases) auto
  ultimately show "js_trim s = s" by (simp add: js_trim_def)
qed

lemma normalisePath_word:
  "plainWord w \<Longrightarrow> normalisePath w = map (\<lambda>c. if c = CHR 0x5C then CHR ''/'' else c) w"
  using js_trim_id [of w] stripQuotes_word [of w]
  by (auto simp: normalisePath_def plainWord_def)

lemma pushTrim_trim: "js_trim (c # s) = c # s \<Longrightarrow> pushTrim (c # s) = [c # s]"
  by (simp add: pushTrim_def)

lemma segmentWrites_redirect:
  assumes "w \<in> set (redirectTargets s)"
  shows "normalisePath w \<in> set (segmentWrites f s)"
  unfolding segmentWrites_def set_append
  by (rule UnI1) (use assms in \<open>simp only: set_map imageI\<close>)

lemma commandWriteTargets_segment:
  assumes "seg \<in> set (splitSegments c)" "x \<in> set (segmentWrites commandWriteTargets seg)"
  shows "x \<in> set (commandWriteTargets c)"
proof -
  have "set (commandWriteTargets c) =
      (\<Union>s \<in> set (splitSegments c). set (segmentWrites commandWriteTargets s))"
    by (subst commandWriteTargets.simps) (simp only: set_js_dedupe set_concat list.set_map image_image)
  with assms show ?thesis by blast
qed

lemma commandWriteTargets_redirect:
  assumes "plain c" "\<not> js_ws c" "\<forall>d \<in> set u. plain d" "plainWord w" "\<not> isNullDevice w"
  shows "normalisePath w \<in> set (commandWriteTargets (c # u @ '' > '' @ w))"
proof -
  let ?s = "c # u @ '' > '' @ w"
  have "\<not> js_ws (last ?s)"
    using assms(4) by (simp add: plainWord_last) (metis last_appendR plainWord_def plainWord_last)
  then have trim: "js_trim ?s = ?s" using assms(2) by (intro js_trim_id) auto
  have *: "\<forall>d \<in> set ?s. plain d \<or> d = CHR ''>''"
    using assms by (auto simp: plainWord_def plain_def is_quote_def)
  then have seg: "splitSegments ?s = [?s]"
    unfolding splitSegments_def
    using splitSeg_plain [of ?s "[]"] * by (simp only: append_Nil pushTrim_trim [OF trim])
  have "CHR ''>'' \<notin> set (c # u)" using assms(1,3) by (auto simp: plain_def)
  from redirScan_word [OF this assms(4)] have "redirScan True ?s = [w]"
    by (simp only: append_Cons)
  moreover have "\<not> prefix ''&'' w"
    using assms(4) by (cases w) (auto simp: plainWord_def plain_def)
  ultimately have "w \<in> set (redirectTargets ?s)"
    unfolding redirectTargets_def using assms(5) stripQuotes_word [OF assms(4)]
    by (simp only: list.map) simp
  then have w: "normalisePath w \<in> set (segmentWrites commandWriteTargets ?s)"
    by (rule segmentWrites_redirect)
  have "?s \<in> set (splitSegments ?s)" unfolding seg by (simp only: list.set insertI1)
  then show ?thesis using w by (rule commandWriteTargets_segment)
qed

end
