(* ===== verification/PolicyEngine.thy ===== *)
theory PolicyEngine
  imports Glob Shell
begin

text \<open>
  The policy engine of \<open>odysseus/packages/policy-engine/src\<close>: the deny-override floor
  (\<open>deny-floor.ts\<close>), the risk-class defaults (\<open>risk-defaults.ts\<close>), the rule order
  (\<open>specificity.ts\<close>) and the evaluation pipeline (\<open>evaluate.ts\<close>), on the types of
  \<open>protocol/src/types/policy.ts\<close>.  Times are milliseconds; \<open>now\<close> is the clock reading.
\<close>

section \<open>Types\<close>

datatype capability =
    Filesystem_Read | Filesystem_Write | Filesystem_Delete | Process_Exec | Network_Access
  | Package_Install | Git_Commit | Git_Push | Git_Branch_Create | Git_Pull_Request_Create
  | Deployment_Execute | Secret_Read

fun capability_name :: "capability \<Rightarrow> string" where
  "capability_name Filesystem_Read = ''filesystem.read''"
| "capability_name Filesystem_Write = ''filesystem.write''"
| "capability_name Filesystem_Delete = ''filesystem.delete''"
| "capability_name Process_Exec = ''process.exec''"
| "capability_name Network_Access = ''network.access''"
| "capability_name Package_Install = ''package.install''"
| "capability_name Git_Commit = ''git.commit''"
| "capability_name Git_Push = ''git.push''"
| "capability_name Git_Branch_Create = ''git.branch_create''"
| "capability_name Git_Pull_Request_Create = ''git.pull_request_create''"
| "capability_name Deployment_Execute = ''deployment.execute''"
| "capability_name Secret_Read = ''secret.read''"

datatype risk_class = Low | Medium | High | Critical

fun RISK_ORDER :: "risk_class \<Rightarrow> nat" where
  "RISK_ORDER Low = 0"
| "RISK_ORDER Medium = 1"
| "RISK_ORDER High = 2"
| "RISK_ORDER Critical = 3"

instantiation risk_class :: linorder
begin

definition less_eq_risk_class :: "risk_class \<Rightarrow> risk_class \<Rightarrow> bool" where
  "less_eq_risk_class a b \<longleftrightarrow> RISK_ORDER a \<le> RISK_ORDER b"

definition less_risk_class :: "risk_class \<Rightarrow> risk_class \<Rightarrow> bool" where
  "less_risk_class a b \<longleftrightarrow> RISK_ORDER a < RISK_ORDER b"

instance
proof
  fix a b :: risk_class
  show "a \<le> b \<Longrightarrow> b \<le> a \<Longrightarrow> a = b"
    by (cases a; cases b) (simp_all add: less_eq_risk_class_def)
qed (auto simp: less_eq_risk_class_def less_risk_class_def)

end

lemmas risk_order_simps [spec_simps] = less_eq_risk_class_def less_risk_class_def

fun risk_name :: "risk_class \<Rightarrow> string" where
  "risk_name Low = ''low''"
| "risk_name Medium = ''medium''"
| "risk_name High = ''high''"
| "risk_name Critical = ''critical''"

datatype trust_profile = Supervised | Trusted_Afk | Read_Only | Locked | Default_Profile

fun trust_name :: "trust_profile \<Rightarrow> string" where
  "trust_name Supervised = ''supervised''"
| "trust_name Trusted_Afk = ''trusted-afk''"
| "trust_name Read_Only = ''read-only''"
| "trust_name Locked = ''locked''"
| "trust_name Default_Profile = ''default''"

datatype effect = Eff_Allow | Eff_Deny | Eff_Require_Approval

datatype role = Role_Owner | Role_Admin

datatype device_status = Dev_Trusted | Dev_Revoked | Dev_Suspended

fun device_status_name :: "device_status \<Rightarrow> string" where
  "device_status_name Dev_Trusted = ''trusted''"
| "device_status_name Dev_Revoked = ''revoked''"
| "device_status_name Dev_Suspended = ''suspended''"

record rule_match =
  m_capability :: "capability option"
  m_riskClass :: "risk_class option"
  m_resourcePattern :: "string option"
  m_projectId :: "string option"
  m_trustProfile :: "trust_profile option"

record policy_rule =
  r_id :: string
  r_description :: string
  r_match :: rule_match
  r_effect :: effect
  r_requiredRole :: "role option"
  r_priority :: int

record policy_version =
  v_id :: string
  v_version :: string
  v_description :: string
  v_rules :: "policy_rule list"
  v_createdAt :: int
  v_createdBy :: string
  v_isActive :: bool

record eval_context =
  c_capability :: capability
  c_riskClass :: risk_class
  c_resource :: "string option"
  c_projectId :: "string option"
  c_trustProfile :: trust_profile
  c_deviceStatus :: device_status
  c_userId :: string
  c_force :: "bool option"
  c_command :: "string option"

text \<open>
  The three shapes of \<open>Decision\<close>: allow (version, reason, matched rules), deny (version, reason,
  matched rules) and require approval (version, role, expiry, matched rules, reason).
\<close>

datatype decision =
    Allow string "string option" "string list option"
  | Deny string string "string list option"
  | Require_Approval string "role option" int "string list" string

fun is_deny :: "decision \<Rightarrow> bool" where
  "is_deny (Deny _ _ _) = True"
| "is_deny _ = False"

fun is_allow :: "decision \<Rightarrow> bool" where
  "is_allow (Allow _ _ _) = True"
| "is_allow _ = False"

section \<open>The deny-override floor\<close>

definition PROTECTED_CONFIG_FILES :: "string list" where
  "PROTECTED_CONFIG_FILES =
     [''.mcp.json'', ''.cursor/mcp.json'', ''.vscode/mcp.json'', ''.vscode/tasks.json'',
      ''.claude/settings.json'', ''.claude/settings.local.json'', ''.gemini/settings.json'',
      ''.codex/config.toml'', ''.git/config'', ''.gitconfig'']"

definition PROTECTED_CONFIG_DIRECTORIES :: "string list" where
  "PROTECTED_CONFIG_DIRECTORIES = [''.git/hooks'', ''.odysseus'']"

record floor_entry =
  f_capability :: capability
  f_resourcePattern :: "string option"
  f_force :: "bool option"

definition floor_on :: "capability \<Rightarrow> string \<Rightarrow> bool option \<Rightarrow> floor_entry" where
  "floor_on c p f = \<lparr>f_capability = c, f_resourcePattern = Some p, f_force = f\<rparr>"

definition DENY_OVERRIDE_FLOOR :: "floor_entry list" where
  "DENY_OVERRIDE_FLOOR =
     [floor_on Deployment_Execute ''production/**'' None,
      floor_on Filesystem_Delete ''**/.git/**'' None,
      floor_on Secret_Read ''**/.env*'' None,
      floor_on Git_Push ''main'' (Some True),
      floor_on Git_Push ''master'' (Some True)] @
     map (\<lambda>path. floor_on Filesystem_Write (''**/'' @ path) None) PROTECTED_CONFIG_FILES @
     map (\<lambda>path. floor_on Filesystem_Write (''**/'' @ path @ ''/**'') None)
       PROTECTED_CONFIG_DIRECTORIES"

definition floorEntryMatches ::
  "floor_entry \<Rightarrow> capability \<Rightarrow> string option \<Rightarrow> bool option \<Rightarrow> bool" where
  "floorEntryMatches e cap resource force =
     (if f_capability e \<noteq> cap then False
      else if f_force e \<noteq> None \<and> f_force e \<noteq> force then False
      else if \<not> truthy (f_resourcePattern e) then True
      else truthy resource \<and> globMatches (the resource) (the (f_resourcePattern e)))"

definition denyFloorMatches ::
  "capability \<Rightarrow> string option \<Rightarrow> bool option \<Rightarrow> string option" where
  "denyFloorMatches cap resource force =
     (let resource' = (if truthy resource then map_option normaliseResource resource else resource) in
      case filter (\<lambda>e. floorEntryMatches e cap resource' force) DENY_OVERRIDE_FLOOR of
        [] \<Rightarrow> None
      | e # _ \<Rightarrow> Some (''deny-floor:'' @ capability_name (f_capability e)))"

section \<open>Risk-class defaults\<close>

record risk_defaults =
  d_riskClass :: risk_class
  d_defaultEffect :: effect
  d_requiredRole :: "role option"

definition riskClassDefaults :: "risk_class \<Rightarrow> trust_profile \<Rightarrow> risk_defaults" where
  "riskClassDefaults rc tp =
     (let res = (\<lambda>e r. \<lparr>d_riskClass = rc, d_defaultEffect = e, d_requiredRole = r\<rparr>) in
      if tp = Locked then res Eff_Deny None
      else if tp = Read_Only then (if rc = Low then res Eff_Allow None else res Eff_Deny None)
      else case rc of
          Low \<Rightarrow> res Eff_Allow None
        | Medium \<Rightarrow> (if tp = Supervised then res Eff_Require_Approval (Some Role_Admin)
                    else res Eff_Allow None)
        | High \<Rightarrow> res Eff_Require_Approval (Some Role_Admin)
        | Critical \<Rightarrow> res Eff_Require_Approval (Some Role_Owner))"

section \<open>Rule order\<close>

definition ruleSpecificity :: "policy_rule \<Rightarrow> int" where
  "ruleSpecificity r =
     (let m = r_match r; one = (\<lambda>b. if b then 1 else 0) in
      one (m_capability m \<noteq> None) + one (m_riskClass m \<noteq> None) +
      one (m_resourcePattern m \<noteq> None) + one (m_projectId m \<noteq> None) +
      one (m_trustProfile m \<noteq> None))"

definition compareRules :: "policy_rule \<Rightarrow> policy_rule \<Rightarrow> int" where
  "compareRules a b =
     (if r_priority b \<noteq> r_priority a then r_priority b - r_priority a
      else ruleSpecificity b - ruleSpecificity a)"

definition sortRulesForEvaluation :: "policy_rule list \<Rightarrow> policy_rule list" where
  "sortRulesForEvaluation rules = js_sort compareRules rules"

section \<open>The pipeline\<close>

definition optMatches :: "'a option \<Rightarrow> 'a \<Rightarrow> bool" where
  "optMatches want have = (case want of None \<Rightarrow> True | Some w \<Rightarrow> w = have)"

definition ruleMatches :: "eval_context \<Rightarrow> policy_rule \<Rightarrow> bool" where
  "ruleMatches ctx rule =
     (let m = r_match rule in
      if \<not> optMatches (m_capability m) (c_capability ctx) then False
      else if \<not> optMatches (m_riskClass m) (c_riskClass ctx) then False
      else if (case m_resourcePattern m of None \<Rightarrow> False
               | Some p \<Rightarrow> (case c_resource ctx of None \<Rightarrow> True | Some r \<Rightarrow> \<not> globMatches r p))
        then False
      else if (case m_projectId m of None \<Rightarrow> False | Some p \<Rightarrow> c_projectId ctx \<noteq> Some p) then False
      else optMatches (m_trustProfile m) (c_trustProfile ctx))"

definition version_of :: "policy_version option \<Rightarrow> string" where
  "version_of pv = (case pv of None \<Rightarrow> ''none'' | Some v \<Rightarrow> v_version v)"

definition THIRTY_MINUTES :: int where
  "THIRTY_MINUTES = 30 * 60 * 1000"

definition decideRule :: "int \<Rightarrow> policy_version \<Rightarrow> policy_rule \<Rightarrow> decision" where
  "decideRule now pv rule =
     (case r_effect rule of
        Eff_Deny \<Rightarrow> Deny (v_version pv) (r_description rule) (Some [r_id rule])
      | Eff_Require_Approval \<Rightarrow>
          Require_Approval (v_version pv) (r_requiredRole rule) (now + THIRTY_MINUTES)
            [r_id rule] (r_description rule)
      | Eff_Allow \<Rightarrow> Allow (v_version pv) None None)"

definition defaultDecision :: "int \<Rightarrow> eval_context \<Rightarrow> policy_version option \<Rightarrow> decision" where
  "defaultDecision now ctx pv =
     (let d = riskClassDefaults (c_riskClass ctx) (c_trustProfile ctx) in
      case d_defaultEffect d of
        Eff_Allow \<Rightarrow> Allow (version_of pv) None None
      | Eff_Deny \<Rightarrow> Deny (version_of pv)
          (''Action denied by '' @ trust_name (c_trustProfile ctx) @ '' trust profile (risk class: ''
            @ risk_name (c_riskClass ctx) @ '')'') None
      | Eff_Require_Approval \<Rightarrow>
          Require_Approval (version_of pv) (d_requiredRole d) (now + THIRTY_MINUTES) []
            (''Risk class '' @ risk_name (c_riskClass ctx) @ '' requires approval under ''
              @ trust_name (c_trustProfile ctx) @ '' profile''))"

definition protectedWrite :: "string option \<Rightarrow> string option" where
  "protectedWrite command =
     (if truthy command then
        (case filter (\<lambda>t. denyFloorMatches Filesystem_Write (Some t) None \<noteq> None)
                (commandWriteTargets (the command)) of
           [] \<Rightarrow> None
         | t # _ \<Rightarrow> Some t)
      else None)"

definition evaluate :: "int \<Rightarrow> eval_context \<Rightarrow> policy_version option \<Rightarrow> decision" where
  "evaluate now ctx pv =
     (if denyFloorMatches (c_capability ctx) (c_resource ctx) (c_force ctx) \<noteq> None then
        Deny (version_of pv)
          (''Denied by deny-override floor: '' @ capability_name (c_capability ctx)) None
      else case protectedWrite (c_command ctx) of
        Some target \<Rightarrow> Deny (version_of pv)
          (''Denied by deny-override floor: the command writes '' @ target
            @ '', which agents may never change'') None
      | None \<Rightarrow>
          if c_deviceStatus ctx = Dev_Revoked \<or> c_deviceStatus ctx = Dev_Suspended then
            Deny (version_of pv)
              (''Device is '' @ device_status_name (c_deviceStatus ctx)
                @ '' and cannot perform actions'') None
          else
            (case pv of None \<Rightarrow> defaultDecision now ctx pv
             | Some v \<Rightarrow>
                 (case List.find (ruleMatches ctx) (sortRulesForEvaluation (v_rules v)) of
                    Some rule \<Rightarrow> decideRule now v rule
                  | None \<Rightarrow> defaultDecision now ctx pv)))"

section \<open>The floor\<close>

lemma floor_entry_matches:
  assumes "e \<in> set DENY_OVERRIDE_FLOOR"
    "floorEntryMatches e cap (if truthy res then map_option normaliseResource res else res) force"
  shows "denyFloorMatches cap res force \<noteq> None"
proof -
  have "filter (\<lambda>e. floorEntryMatches e cap
      (if truthy res then map_option normaliseResource res else res) force) DENY_OVERRIDE_FLOOR \<noteq> []"
    using assms unfolding filter_empty_conv by blast
  then obtain x xs where eq: "filter (\<lambda>e. floorEntryMatches e cap
      (if truthy res then map_option normaliseResource res else res) force) DENY_OVERRIDE_FLOOR
      = x # xs"
    unfolding neq_Nil_conv by blast
  show ?thesis unfolding denyFloorMatches_def Let_def eq by simp
qed

lemma protected_check:
  "list_all (\<lambda>f. clean f \<and> list_all (\<lambda>x. plain x \<and> \<not> js_ws x \<and> x \<noteq> CHR 0x5C) f \<and> js_lower f = f \<and>
     CHR ''.'' \<in> set f \<and>
     list_all (\<lambda>p. p \<noteq> ''**'' \<and> p \<noteq> []) (js_split (CHR ''/'') f)) PROTECTED_CONFIG_FILES"
  by code_simp

lemma protected_facts:
  assumes "f \<in> set PROTECTED_CONFIG_FILES"
  shows "clean f" "f \<noteq> []" "\<forall>x \<in> set f. plain x \<and> \<not> js_ws x \<and> x \<noteq> CHR 0x5C" "js_lower f = f"
    "CHR ''.'' \<in> set f"
    "\<forall>p \<in> set (js_split (CHR ''/'') f). p \<noteq> ''**'' \<and> p \<noteq> []"
  using protected_check assms by (auto simp: list_all_iff clean_def)

lemma protected_files_clean:
  "f \<in> set PROTECTED_CONFIG_FILES \<Longrightarrow> clean f \<and> \<not> js_ws (last f) \<and> CHR 0x5C \<notin> set f"
  using protected_facts(1-3) [of f] by auto

lemma lower_ws: "js_ws c \<Longrightarrow> js_lower_char c = c"
  by (auto simp: js_ws_def js_lower_char_def Let_def)

lemma protected_segments:
  "f \<in> set PROTECTED_CONFIG_FILES \<Longrightarrow> \<forall>p \<in> set (js_split (CHR ''/'') f). p \<noteq> ''**''"
  using protected_facts(6) [of f] by blast

lemma floor_covers_protected:
  assumes f: "f \<in> set PROTECTED_CONFIG_FILES" and g: "js_lower (map unslash g) = f"
    and sep: "unslash sep = CHR ''/''"
  shows "denyFloorMatches Filesystem_Write (Some (d @ sep # g)) force \<noteq> None"
proof (rule floor_entry_matches)
  let ?e = "floor_on Filesystem_Write (''**/'' @ f) None"
  show "?e \<in> set DENY_OVERRIDE_FLOOR" using f by (simp add: DENY_OVERRIDE_FLOOR_def)
  have gne: "g \<noteq> []" using protected_facts(2) [OF f] g by (auto simp: js_lower_def)
  have "\<not> js_ws (last g)"
  proof
    assume ws: "js_ws (last g)"
    then have "unslash (last g) = last g" by (auto simp: unslash_def js_ws_def)
    moreover have "last f = js_lower_char (unslash (last g))"
      using g gne by (auto simp: js_lower_def last_map)
    ultimately show False using ws lower_ws protected_files_clean [OF f] by simp
  qed
  with normalise_below [of f g sep d] f g sep protected_files_clean [OF f] obtain pre where
    pre: "js_split (CHR ''/'') (normaliseResource (d @ sep # g)) = pre @ js_split (CHR ''/'') f"
    by auto
  have "glob (js_split (CHR ''/'') f) (js_split (CHR ''/'') f)"
    using protected_segments [OF f] by (rule glob_refl)
  then have "glob (''**'' # js_split (CHR ''/'') f) (pre @ js_split (CHR ''/'') f)"
    by (intro glob_prepend) simp_all
  then have "globMatches (normaliseResource (d @ sep # g)) (''**/'' @ f)"
    by (simp add: globMatches_glob pre)
  moreover have "normaliseResource (d @ sep # g) \<noteq> []"
  proof
    assume "normaliseResource (d @ sep # g) = []"
    with pre have "[[]] = pre @ js_split (CHR ''/'') f" by simp
    then have "set (js_split (CHR ''/'') f) \<subseteq> {[]}"
      by (metis Un_upper2 list.set set_append)
    with protected_facts(6) [OF f] js_split_nonempty [of "CHR ''/''" f] show False
      by (cases "js_split (CHR ''/'') f") auto
  qed
  ultimately show "floorEntryMatches ?e Filesystem_Write
      (if truthy (Some (d @ sep # g)) then map_option normaliseResource (Some (d @ sep # g))
       else Some (d @ sep # g)) force"
    by (simp add: floorEntryMatches_def floor_on_def)
qed

lemma evaluate_floor:
  "denyFloorMatches (c_capability ctx) (c_resource ctx) (c_force ctx) \<noteq> None \<Longrightarrow>
     is_deny (evaluate now ctx pv)"
  by (simp add: evaluate_def)

lemma evaluate_protected_write:
  assumes "t \<in> set (commandWriteTargets s)" "s \<noteq> []" "c_command ctx = Some s"
    "denyFloorMatches Filesystem_Write (Some t) None \<noteq> None"
  shows "is_deny (evaluate now ctx pv)"
proof -
  have "filter (\<lambda>t. denyFloorMatches Filesystem_Write (Some t) None \<noteq> None)
      (commandWriteTargets s) \<noteq> []"
    using assms by (auto simp: filter_empty_conv)
  then have "protectedWrite (c_command ctx) \<noteq> None"
    using assms by (auto simp: protectedWrite_def split: list.split)
  then show ?thesis by (auto simp: evaluate_def)
qed





section \<open>Rules\<close>

lemma consistent_compareRules: "consistent compareRules"
  by (auto simp: consistent_def compareRules_def split: if_splits)

lemma evaluate_passes:
  assumes "denyFloorMatches (c_capability ctx) (c_resource ctx) (c_force ctx) = None"
    "protectedWrite (c_command ctx) = None" "c_deviceStatus ctx = Dev_Trusted"
  shows "evaluate now ctx pv =
    (case pv of None \<Rightarrow> defaultDecision now ctx pv
     | Some v \<Rightarrow> (case List.find (ruleMatches ctx) (sortRulesForEvaluation (v_rules v)) of
           Some rule \<Rightarrow> decideRule now v rule
         | None \<Rightarrow> defaultDecision now ctx pv))"
  using assms by (simp add: evaluate_def)

text \<open>
  C3: Past the floor and the device check, the decision is that of the best matching rule:
  highest priority, then highest specificity, then earliest in the policy; when no rule
  matches, it is the risk-class default.
\<close>

theorem evaluate_best_rule:
  assumes "denyFloorMatches (c_capability ctx) (c_resource ctx) (c_force ctx) = None"
    "protectedWrite (c_command ctx) = None" "c_deviceStatus ctx = Dev_Trusted"
  shows "if \<exists>r \<in> set (v_rules v). ruleMatches ctx r
    then \<exists>us best vs. v_rules v = us @ best # vs \<and> ruleMatches ctx best \<and>
      evaluate now ctx (Some v) = decideRule now v best \<and>
      (\<forall>r \<in> set us. ruleMatches ctx r \<longrightarrow> r_priority r < r_priority best \<or>
         r_priority r = r_priority best \<and> ruleSpecificity r < ruleSpecificity best) \<and>
      (\<forall>r \<in> set vs. ruleMatches ctx r \<longrightarrow> r_priority r < r_priority best \<or>
         r_priority r = r_priority best \<and> ruleSpecificity r \<le> ruleSpecificity best)
    else evaluate now ctx (Some v) = defaultDecision now ctx (Some v)"
proof (cases "List.find (ruleMatches ctx) (sortRulesForEvaluation (v_rules v))")
  case None
  then have "\<forall>r \<in> set (v_rules v). \<not> ruleMatches ctx r"
    by (simp add: find_None_iff sortRulesForEvaluation_def)
  with None evaluate_passes [OF assms] show ?thesis by auto
next
  case (Some best)
  from find_js_sort [OF consistent_compareRules Some [unfolded sortRulesForEvaluation_def]]
  obtain us vs where b: "v_rules v = us @ best # vs" "ruleMatches ctx best"
    "\<forall>u \<in> set us. ruleMatches ctx u \<longrightarrow> compareRules best u < 0"
    "\<forall>u \<in> set vs. ruleMatches ctx u \<longrightarrow> compareRules u best \<ge> 0" by blast
  have "\<exists>us best vs. v_rules v = us @ best # vs \<and> ruleMatches ctx best \<and>
      evaluate now ctx (Some v) = decideRule now v best \<and>
      (\<forall>r \<in> set us. ruleMatches ctx r \<longrightarrow> r_priority r < r_priority best \<or>
         r_priority r = r_priority best \<and> ruleSpecificity r < ruleSpecificity best) \<and>
      (\<forall>r \<in> set vs. ruleMatches ctx r \<longrightarrow> r_priority r < r_priority best \<or>
         r_priority r = r_priority best \<and> ruleSpecificity r \<le> ruleSpecificity best)"
    using b Some evaluate_passes [OF assms, of now "Some v"]
    by (intro exI [of _ us] exI [of _ best] exI [of _ vs])
      (fastforce simp: compareRules_def split: if_splits)
  moreover have "\<exists>r \<in> set (v_rules v). ruleMatches ctx r" using b(1,2) by auto
  ultimately show ?thesis by simp
qed

theorem evaluate_best_rule_witness:
  "let m = \<lparr>m_capability = None, m_riskClass = None, m_resourcePattern = None, m_projectId = None,
         m_trustProfile = None\<rparr>;
       r1 = \<lparr>r_id = ''a'', r_description = ''any'', r_match = m, r_effect = Eff_Allow,
         r_requiredRole = None, r_priority = 1\<rparr>;
       r2 = \<lparr>r_id = ''b'', r_description = ''no'', r_match = m\<lparr>m_riskClass := Some Low\<rparr>,
         r_effect = Eff_Deny, r_requiredRole = None, r_priority = 1\<rparr>;
       v = \<lparr>v_id = ''p'', v_version = ''p_1'', v_description = [], v_rules = [r1, r2],
         v_createdAt = 0, v_createdBy = ''u'', v_isActive = True\<rparr>;
       ctx = \<lparr>c_capability = Git_Commit, c_riskClass = Low, c_resource = None, c_projectId = None,
         c_trustProfile = Supervised, c_deviceStatus = Dev_Trusted, c_userId = ''u'',
         c_force = None, c_command = None\<rparr>
   in \<exists>us best vs. v_rules v = us @ best # vs \<and> ruleMatches ctx best \<and>
        evaluate 0 ctx (Some v) = decideRule 0 v best"
proof -
  define m where "m = \<lparr>m_capability = None, m_riskClass = None, m_resourcePattern = None,
    m_projectId = None, m_trustProfile = None\<rparr>"
  define r1 where "r1 = \<lparr>r_id = ''a'', r_description = ''any'', r_match = m, r_effect = Eff_Allow,
    r_requiredRole = None, r_priority = 1\<rparr>"
  define r2 where "r2 = \<lparr>r_id = ''b'', r_description = ''no'', r_match = m\<lparr>m_riskClass := Some Low\<rparr>,
    r_effect = Eff_Deny, r_requiredRole = None, r_priority = 1\<rparr>"
  define v where "v = \<lparr>v_id = ''p'', v_version = ''p_1'', v_description = [], v_rules = [r1, r2],
    v_createdAt = 0, v_createdBy = ''u'', v_isActive = True\<rparr>"
  define ctx where "ctx = \<lparr>c_capability = Git_Commit, c_riskClass = Low, c_resource = None,
    c_projectId = None, c_trustProfile = Supervised, c_deviceStatus = Dev_Trusted, c_userId = ''u'',
    c_force = None, c_command = None\<rparr>"
  have floor: "denyFloorMatches (c_capability ctx) (c_resource ctx) (c_force ctx) = None"
    by (simp add: ctx_def denyFloorMatches_def DENY_OVERRIDE_FLOOR_def PROTECTED_CONFIG_FILES_def
        PROTECTED_CONFIG_DIRECTORIES_def floorEntryMatches_def floor_on_def)
  have cmd: "protectedWrite (c_command ctx) = None" by (simp add: ctx_def protectedWrite_def)
  have dev: "c_deviceStatus ctx = Dev_Trusted" by (simp add: ctx_def)
  have "ruleMatches ctx r1" by (simp add: ruleMatches_def optMatches_def r1_def m_def)
  moreover have "r1 \<in> set (v_rules v)" by (simp add: v_def)
  ultimately have "\<exists>r \<in> set (v_rules v). ruleMatches ctx r" by blast
  with evaluate_best_rule [OF floor cmd dev, of v 0]
  have "\<exists>us best vs. v_rules v = us @ best # vs \<and> ruleMatches ctx best \<and>
      evaluate 0 ctx (Some v) = decideRule 0 v best" by (simp only: if_True) blast
  then show ?thesis
    unfolding Let_def ctx_def [symmetric] m_def [symmetric] r1_def [symmetric]
      r2_def [symmetric] v_def [symmetric] .
qed

section \<open>Risk\<close>

fun decision_rank :: "decision \<Rightarrow> nat" where
  "decision_rank (Allow _ _ _) = 0"
| "decision_rank (Require_Approval _ _ _ _ _) = 1"
| "decision_rank (Deny _ _ _) = 2"

text \<open>
  C6: Without user rules, raising the risk class of an action never loosens the decision, from
  allow over require-approval to deny, under any trust profile, device status and floor result.
\<close>

theorem raising_risk_never_loosens:
  assumes "a \<le> b" "v_rules v = []"
  shows "decision_rank (evaluate now (ctx\<lparr>c_riskClass := a\<rparr>) (Some v))
    \<le> decision_rank (evaluate now (ctx\<lparr>c_riskClass := b\<rparr>) (Some v))"
proof -
  have "decision_rank (defaultDecision now (ctx\<lparr>c_riskClass := a\<rparr>) pv)
      \<le> decision_rank (defaultDecision now (ctx\<lparr>c_riskClass := b\<rparr>) pv)" for pv
    using assms(1)
    by (cases a; cases b; cases "c_trustProfile ctx")
      (simp_all add: defaultDecision_def riskClassDefaults_def risk_order_simps)
  with assms(2) show ?thesis
    by (simp add: evaluate_def sortRulesForEvaluation_def js_sort_def split: option.split)
qed

theorem raising_risk_never_loosens_witness:
  "decision_rank (evaluate 0
      (\<lparr>c_capability = Git_Commit, c_riskClass = Low, c_resource = None, c_projectId = None,
        c_trustProfile = Supervised, c_deviceStatus = Dev_Trusted, c_userId = ''u'', c_force = None,
        c_command = None\<rparr>\<lparr>c_riskClass := Medium\<rparr>)
      (Some \<lparr>v_id = ''p'', v_version = ''p_1'', v_description = [], v_rules = [], v_createdAt = 0,
        v_createdBy = ''u'', v_isActive = True\<rparr>))
   \<le> decision_rank (evaluate 0
      (\<lparr>c_capability = Git_Commit, c_riskClass = Low, c_resource = None, c_projectId = None,
        c_trustProfile = Supervised, c_deviceStatus = Dev_Trusted, c_userId = ''u'', c_force = None,
        c_command = None\<rparr>\<lparr>c_riskClass := Critical\<rparr>)
      (Some \<lparr>v_id = ''p'', v_version = ''p_1'', v_description = [], v_rules = [], v_createdAt = 0,
        v_createdBy = ''u'', v_isActive = True\<rparr>))"
  by (rule raising_risk_never_loosens) (simp_all add: risk_order_simps)

section \<open>Where the code and its comments part\<close>

text \<open>
  The comment in \<open>denyFloorMatches\<close> says that normalising can only make more resources match.
  A file name with a backslash shows otherwise: unnormalised it matches the pattern of the
  secret-read entry, normalised it becomes a path below a directory and no entry matches.
\<close>

lemma normalising_can_lose_a_match:
  "globMatches (''.env'' @ [CHR 0x5C] @ ''x'') ''**/.env*'' \<and>
   denyFloorMatches Secret_Read (Some (''.env'' @ [CHR 0x5C] @ ''x'')) None = None"
  by code_simp

text \<open>The text after the last star may overlap what was matched before it.\<close>

lemma segment_suffix_may_overlap: "segmentMatches ''a*a'' ''a'' \<and> \<not> wild ''a*a'' ''a''"
  by code_simp

end
