(* ===== verification/Approvals.thy ===== *)
theory Approvals
  imports Prelude
begin

text \<open>
  The approval workflow (\<open>control-plane/src/policy/approval-workflow.ts\<close>) on the in-memory approval
  repository (\<open>control-plane/src/db/memory-store.ts\<close>).  Each public method is one state-passing
  definition.  In the memory repository a method's check and update run without a suspension point
  between them, so the methods are atomic, except \<open>revokeDeviceApprovals\<close> and
  \<open>expireStaleApprovals\<close>, which suspend between two updates: they are modelled as a collecting part
  and a list of updates, composed for the uninterrupted call.

  Dates are integers (milliseconds).  A method reads the clock once in the model: \<open>now\<close>.  The random
  identifiers are a supply \<open>as_uuids\<close> held in the state, used in order; the workflow relies on
  them being distinct.  What is handed to the tunnel server is appended to \<open>as_outbox\<close>.
\<close>

section \<open>Data\<close>

datatype approval_status = Pending | Granted | Denied | Timed_Out | Superseded

datatype approver_role = Approver_Owner | Approver_Admin

record approval =
  ap_id :: string
  ap_sessionId :: string
  ap_deviceId :: string
  ap_userId :: string
  ap_actionType :: string
  ap_description :: string
  ap_details :: "(string \<times> js_value) list option"
  ap_status :: approval_status
  ap_requestedAt :: int
  ap_decidedAt :: "int option"
  ap_decidedBy :: "string option"
  ap_reason :: "string option"
  ap_policyVersion :: "string option"
  ap_matchedRules :: "string list option"
  ap_requiredRole :: "approver_role option"
  ap_expiresAt :: "int option"
  ap_reminderSentAt :: "int option"
  ap_fallbackTriggeredAt :: "int option"

text \<open>The commands the workflow sends to a device.\<close>

datatype tunnel_command =
    Session_Message string string string
  | Session_Approve string string string string

record approval_store =
  as_approvals :: "(string, approval) jmap"
  as_sessions :: "string list option"
  as_uuids :: "nat \<Rightarrow> string"
  as_next :: nat
  as_outbox :: "tunnel_command list"
  as_created :: "approval list"
  as_listening :: bool

section \<open>The repository\<close>

abbreviation findById :: "string \<Rightarrow> approval_store \<Rightarrow> approval option" where
  "findById i s \<equiv> map_of (as_approvals s) i"

definition listBySession :: "string \<Rightarrow> approval_store \<Rightarrow> approval list" where
  "listBySession sid s = filter (\<lambda>a. ap_sessionId a = sid) (map snd (as_approvals s))"

definition listByUser :: "string \<Rightarrow> approval_status option \<Rightarrow> approval_store \<Rightarrow> approval list" where
  "listByUser u st s =
     filter (\<lambda>a. if ap_userId a \<noteq> u then False
                 else (case st of None \<Rightarrow> True | Some x \<Rightarrow> ap_status a = x)) (map snd (as_approvals s))"

definition listPending :: "string \<Rightarrow> approval_store \<Rightarrow> approval list" where
  "listPending u s =
     filter (\<lambda>a. ap_userId a = u \<and> ap_status a = Pending) (map snd (as_approvals s))"

definition listAllPending :: "approval_store \<Rightarrow> approval list" where
  "listAllPending s = filter (\<lambda>a. ap_status a = Pending) (map snd (as_approvals s))"

text \<open>\<open>Object.assign\<close> on the stored record: nothing but the presence of the identifier is checked.\<close>

definition update_approval ::
  "string \<Rightarrow> (approval \<Rightarrow> approval) \<Rightarrow> approval_store \<Rightarrow> approval option \<times> approval_store" where
  "update_approval i f s =
     (case findById i s of
        None \<Rightarrow> (None, s)
      | Some a \<Rightarrow> (Some (f a), s\<lparr>as_approvals := AList.update i (f a) (as_approvals s)\<rparr>))"

definition create_record ::
  "(string \<Rightarrow> approval) \<Rightarrow> approval_store \<Rightarrow> approval \<times> approval_store" where
  "create_record mk s =
     (let i = ''appr_'' @ as_uuids s (as_next s); a = mk i in
      (a, s\<lparr>as_approvals := AList.update i a (as_approvals s), as_next := Suc (as_next s)\<rparr>))"

section \<open>The workflow\<close>

definition isAgentWaiting :: "approval \<Rightarrow> bool" where
  "isAgentWaiting a \<longleftrightarrow>
     \<not> js_truthy (js_field (ap_details a) ''pendingCommand'') \<and>
     \<not> js_truthy (js_field (ap_details a) ''pendingControlAction'')"

definition agentApprovalId :: "approval \<Rightarrow> string" where
  "agentApprovalId a =
     (case js_field (ap_details a) ''approvalId'' of
        JS_Str i \<Rightarrow> (if i \<noteq> [] then i else ap_id a)
      | _ \<Rightarrow> ap_id a)"

definition THIRTY_MINUTES_MS :: int where
  "THIRTY_MINUTES_MS = 30 * 60 * 1000"

record approval_request =
  rq_sessionId :: string
  rq_deviceId :: string
  rq_userId :: string
  rq_actionType :: string
  rq_description :: string
  rq_details :: "(string \<times> js_value) list option"
  rq_policyVersion :: "string option"
  rq_matchedRules :: "string list option"
  rq_requiredRole :: "approver_role option"
  rq_expiresAt :: "int option"

definition createApproval ::
  "int \<Rightarrow> approval_request \<Rightarrow> approval_store \<Rightarrow> approval \<times> approval_store" where
  "createApproval now rq s =
     (let (a, s') = create_record (\<lambda>i.
        \<lparr>ap_id = i, ap_sessionId = rq_sessionId rq, ap_deviceId = rq_deviceId rq,
         ap_userId = rq_userId rq, ap_actionType = rq_actionType rq,
         ap_description = rq_description rq, ap_details = rq_details rq, ap_status = Pending,
         ap_requestedAt = now, ap_decidedAt = None, ap_decidedBy = None, ap_reason = None,
         ap_policyVersion = rq_policyVersion rq, ap_matchedRules = rq_matchedRules rq,
         ap_requiredRole = rq_requiredRole rq,
         ap_expiresAt = Some (case rq_expiresAt rq of Some e \<Rightarrow> e
                              | None \<Rightarrow> now + THIRTY_MINUTES_MS),
         ap_reminderSentAt = None, ap_fallbackTriggeredAt = None\<rparr>) s in
      (a, if as_listening s' then s'\<lparr>as_created := as_created s' @ [a]\<rparr> else s'))"

record submit_result =
  sr_success :: bool
  sr_record :: "approval option"
  sr_conflict :: "bool option"

definition send :: "tunnel_command \<Rightarrow> approval_store \<Rightarrow> approval_store" where
  "send c s = s\<lparr>as_outbox := as_outbox s @ [c]\<rparr>"

definition submitDecision ::
  "int \<Rightarrow> string \<Rightarrow> string \<Rightarrow> bool \<Rightarrow> string option \<Rightarrow> string option \<Rightarrow> approval_store
     \<Rightarrow> submit_result \<times> approval_store" where
  "submitDecision now i decidedBy approved reason feedback s =
     (let res = (\<lambda>ok r c. \<lparr>sr_success = ok, sr_record = r, sr_conflict = c\<rparr>) in
      case findById i s of
        None \<Rightarrow> (res False None None, s)
      | Some a \<Rightarrow>
          if ap_status a \<noteq> Pending then
            (if ap_status a = Timed_Out then (res False (Some a) (Some False), s)
             else if ap_status a = Superseded then (res False (Some a) (Some False), s)
             else (res False (Some a) (Some True), s))
          else if (case ap_expiresAt a of None \<Rightarrow> False | Some e \<Rightarrow> now > e) then
            (let s' = snd (update_approval i (\<lambda>a. a\<lparr>ap_status := Timed_Out,
                ap_reason := Some ''Approval request expired before a decision was made''\<rparr>) s) in
             (res False (findById i s') (Some False), s'))
          else
            (let (updated, s') = update_approval i (\<lambda>a. a\<lparr>
                ap_status := (if approved then Granted else Denied),
                ap_decidedAt := Some now, ap_decidedBy := Some decidedBy,
                ap_reason := Some (if truthy reason then the reason
                  else if approved then ''Approved by user'' else ''Denied by user'')\<rparr>) s in
             case updated of
               None \<Rightarrow> (res False (findById i s') (Some True), s')
             | Some u \<Rightarrow>
                 (res True (Some u) None,
                  if \<not> approved \<and> truthy feedback \<and> js_trim (the feedback) \<noteq> []
                  then send (Session_Message (ap_deviceId a) (ap_sessionId a) (the feedback)) s'
                  else s')))"

text \<open>
  The sessions to scan are the keys of the session store's map; \<open>listAllSessions\<close> reads a field that
  only the memory store has, so \<open>as_sessions\<close> is \<open>None\<close> for any other store.
\<close>

definition listAllSessions :: "approval_store \<Rightarrow> string list" where
  "listAllSessions s = (case as_sessions s of None \<Rightarrow> [] | Some ks \<Rightarrow> ks)"

definition collectDeviceApprovals :: "string \<Rightarrow> approval_store \<Rightarrow> approval list" where
  "collectDeviceApprovals dev s =
     concat (map (\<lambda>sid. filter (\<lambda>a. ap_deviceId a = dev \<and> ap_status a = Pending)
       (listBySession sid s)) (listAllSessions s))"

definition supersede :: "string \<Rightarrow> approval \<Rightarrow> approval_store \<Rightarrow> approval_store" where
  "supersede reason a s = snd (update_approval (ap_id a) (\<lambda>a. a\<lparr>ap_status := Superseded,
     ap_reason := Some (''Device revoked: '' @ reason)\<rparr>) s)"

definition revokeDeviceApprovals ::
  "string \<Rightarrow> string \<Rightarrow> approval_store \<Rightarrow> nat \<times> approval_store" where
  "revokeDeviceApprovals dev reason s =
     (let as = collectDeviceApprovals dev s in
      (length as, foldl (\<lambda>s a. supersede reason a s) s as))"

datatype expire_result = Not_Expired | Expired approval | Send_Failed

definition expireApproval ::
  "int \<Rightarrow> bool \<Rightarrow> string \<Rightarrow> approval_store \<Rightarrow> expire_result \<times> approval_store" where
  "expireApproval now tunnel_ok i s =
     (case findById i s of
        None \<Rightarrow> (Not_Expired, s)
      | Some a \<Rightarrow>
          (case ap_expiresAt a of
             None \<Rightarrow> (Not_Expired, s)
           | Some e \<Rightarrow>
               if ap_status a \<noteq> Pending then (Not_Expired, s)
               else if e > now then (Not_Expired, s)
               else
                 (let reason = ''Nobody decided before the approval expired, so it was denied.'';
                      (updated, s') = update_approval i (\<lambda>a. a\<lparr>ap_status := Timed_Out,
                        ap_decidedAt := Some now, ap_decidedBy := Some ''system'',
                        ap_reason := Some reason\<rparr>) s in
                  case updated of
                    None \<Rightarrow> (Not_Expired, s')
                  | Some u \<Rightarrow>
                      if isAgentWaiting u then
                        (if tunnel_ok then Expired u else Send_Failed,
                         send (Session_Approve (ap_deviceId u) (ap_sessionId u)
                           (agentApprovalId u) reason) s')
                      else (Expired u, s'))))"

definition expireStaleApprovals :: "int \<Rightarrow> approval_store \<Rightarrow> nat \<times> approval_store" where
  "expireStaleApprovals now s =
     foldl (\<lambda>(n, s) a.
         if (case ap_expiresAt a of None \<Rightarrow> False | Some e \<Rightarrow> now > e)
         then (Suc n, snd (update_approval (ap_id a) (\<lambda>a. a\<lparr>ap_status := Timed_Out,
                 ap_reason := Some ''Approval request expired''\<rparr>) s))
         else (n, s))
       (0, s) (listPending [] s)"

datatype policy_outcome = Now_Allow | Now_Deny | Now_Require_Approval

definition handlePolicyChange ::
  "int \<Rightarrow> string \<Rightarrow> policy_outcome \<Rightarrow> approval_store
     \<Rightarrow> (bool \<times> approval option) \<times> approval_store" where
  "handlePolicyChange now i current s =
     (case findById i s of
        None \<Rightarrow> ((False, None), s)
      | Some a \<Rightarrow>
          if ap_status a \<noteq> Pending then ((False, Some a), s)
          else if current = Now_Deny then
            (let s' = snd (update_approval i (\<lambda>a. a\<lparr>ap_status := Denied,
                ap_decidedAt := Some now, ap_decidedBy := Some ''system'',
                ap_reason := Some ''policy_superseded: current policy denies this action''\<rparr>) s) in
             ((True, findById i s'), s'))
          else ((False, Some a), s))"

definition getPendingApprovals :: "string \<Rightarrow> approval_store \<Rightarrow> approval list" where
  "getPendingApprovals u s = listPending u s"

text \<open>The role of the user, if there is one: \<open>''admin''\<close> and \<open>''owner''\<close> may approve.\<close>

definition canUserApprove :: "string option \<Rightarrow> bool" where
  "canUserApprove user_role =
     (case user_role of None \<Rightarrow> False | Some r \<Rightarrow> r = ''admin'' \<or> r = ''owner'')"


section \<open>Runs\<close>

datatype approval_op =
    Op_Create int approval_request
  | Op_Submit int string string bool "string option" "string option"
  | Op_Revoke string string
  | Op_Expire int bool string
  | Op_Expire_Stale int
  | Op_Policy_Change int string policy_outcome
  | Op_New_Session string

fun approval_step :: "approval_store \<Rightarrow> approval_op \<Rightarrow> approval_store" where
  "approval_step s (Op_Create now rq) = snd (createApproval now rq s)"
| "approval_step s (Op_Submit now i by ok reason fb) = snd (submitDecision now i by ok reason fb s)"
| "approval_step s (Op_Revoke dev reason) = snd (revokeDeviceApprovals dev reason s)"
| "approval_step s (Op_Expire now ok i) = snd (expireApproval now ok i s)"
| "approval_step s (Op_Expire_Stale now) = snd (expireStaleApprovals now s)"
| "approval_step s (Op_Policy_Change now i p) = snd (handlePolicyChange now i p s)"
| "approval_step s (Op_New_Session sid) =
     s\<lparr>as_sessions := map_option (\<lambda>ks. if sid \<in> set ks then ks else ks @ [sid]) (as_sessions s)\<rparr>"

definition approval_inv :: "approval_store \<Rightarrow> bool" where
  "approval_inv s \<longleftrightarrow>
     inj (as_uuids s) \<and> jmap_ok (as_approvals s) \<and>
     (\<forall>i \<in> fst ` set (as_approvals s). \<exists>k < as_next s. i = ''appr_'' @ as_uuids s k) \<and>
     (\<forall>(i, a) \<in> set (as_approvals s). ap_id a = i) \<and>
     (case as_sessions s of None \<Rightarrow> True | Some ks \<Rightarrow> distinct ks)"

text \<open>What no operation changes in a record, and the order of stores: records stay, decided ones frozen.\<close>

definition same_request :: "approval \<Rightarrow> approval \<Rightarrow> bool" where
  "same_request a b \<longleftrightarrow>
     ap_id b = ap_id a \<and> ap_sessionId b = ap_sessionId a \<and> ap_deviceId b = ap_deviceId a \<and>
     ap_userId b = ap_userId a \<and> ap_actionType b = ap_actionType a \<and>
     ap_description b = ap_description a \<and> ap_details b = ap_details a \<and>
     ap_requestedAt b = ap_requestedAt a \<and> ap_policyVersion b = ap_policyVersion a \<and>
     ap_matchedRules b = ap_matchedRules a \<and> ap_requiredRole b = ap_requiredRole a \<and>
     ap_expiresAt b = ap_expiresAt a"

definition approval_before :: "approval_store \<Rightarrow> approval_store \<Rightarrow> bool" where
  "approval_before s t \<longleftrightarrow>
     (\<forall>i a. findById i s = Some a \<longrightarrow>
        (\<exists>b. findById i t = Some b \<and> same_request a b \<and> (ap_status a \<noteq> Pending \<longrightarrow> b = a)))"

lemma same_request_refl [simp, intro]: "same_request a a"
  by (simp add: same_request_def)

lemma same_request_trans: "same_request a b \<Longrightarrow> same_request b c \<Longrightarrow> same_request a c"
  by (simp add: same_request_def)

lemma approval_before_refl [simp, intro]: "approval_before s s"
  by (simp add: approval_before_def)

lemma approval_before_trans: "approval_before s t \<Longrightarrow> approval_before t u \<Longrightarrow> approval_before s u"
proof (unfold approval_before_def, intro allI impI)
  fix i a
  assume st: "\<forall>i a. findById i s = Some a \<longrightarrow>
      (\<exists>b. findById i t = Some b \<and> same_request a b \<and> (ap_status a \<noteq> Pending \<longrightarrow> b = a))"
    and tu: "\<forall>i a. findById i t = Some a \<longrightarrow>
      (\<exists>b. findById i u = Some b \<and> same_request a b \<and> (ap_status a \<noteq> Pending \<longrightarrow> b = a))"
    and a: "findById i s = Some a"
  from st a obtain b where b: "findById i t = Some b" "same_request a b" "ap_status a \<noteq> Pending \<longrightarrow> b = a"
    by blast
  from tu b(1) obtain c where "findById i u = Some c" "same_request b c" "ap_status b \<noteq> Pending \<longrightarrow> c = b"
    by blast
  with b show "\<exists>b. findById i u = Some b \<and> same_request a b \<and> (ap_status a \<noteq> Pending \<longrightarrow> b = a)"
    by (intro exI [of _ c]) (auto intro: same_request_trans)
qed

lemma approval_before_approvals:
  "as_approvals t = as_approvals s \<Longrightarrow> approval_before s t"
  by (auto simp: approval_before_def)

section \<open>One guarded update\<close>

text \<open>
  Every update of the workflow goes through this: the record is pending, and the update keeps what
  was requested.
\<close>

definition good_step :: "approval_store \<Rightarrow> approval_store \<Rightarrow> bool" where
  "good_step s t \<longleftrightarrow> approval_inv t \<and> approval_before s t"

lemma good_step_refl: "approval_inv s \<Longrightarrow> good_step s s"
  by (simp add: good_step_def)

lemma good_step_trans: "good_step s t \<Longrightarrow> good_step t u \<Longrightarrow> good_step s u"
  by (auto simp: good_step_def intro: approval_before_trans)

lemma approval_inv_jmap: "approval_inv s \<Longrightarrow> jmap_ok (as_approvals s)"
  unfolding approval_inv_def by blast

lemma approval_inv_sessions: "approval_inv s \<Longrightarrow> distinct (listAllSessions s)"
  unfolding approval_inv_def listAllSessions_def by (auto split: option.splits)

lemma approval_inv_id: "approval_inv s \<Longrightarrow> findById i s = Some a \<Longrightarrow> ap_id a = i"
  by (force simp: approval_inv_def dest: map_of_SomeD)

lemma approval_inv_put:
  assumes inv: "approval_inv s" and id: "ap_id b = i" and key: "\<exists>k < n. i = ''appr_'' @ as_uuids s k"
    and n: "as_next s \<le> n"
  shows "approval_inv (s\<lparr>as_approvals := AList.update i b (as_approvals s), as_next := n\<rparr>)"
proof -
  note i = inv [unfolded approval_inv_def]
  have set: "set (AList.update i b (as_approvals s)) = {(j, w) \<in> set (as_approvals s). j \<noteq> i} \<union> {(i, b)}"
    using i by (intro set_update_alist) blast
  have "\<exists>k < n. j = ''appr_'' @ as_uuids s k" if "j \<in> fst ` set (AList.update i b (as_approvals s))" for j
  proof (cases "j = i")
    case True with key show ?thesis by blast
  next
    case False
    with that set have "j \<in> fst ` set (as_approvals s)" by force
    with i n show ?thesis by (meson order_less_le_trans)
  qed
  moreover have "\<forall>(j, a) \<in> set (AList.update i b (as_approvals s)). ap_id a = j"
    using i id unfolding set by blast
  moreover have "jmap_ok (AList.update i b (as_approvals s))" using i by (intro distinct_update) blast
  ultimately show ?thesis using i unfolding approval_inv_def by simp
qed

lemma update_approval_good:
  assumes inv: "approval_inv s" and a: "findById i s = Some a" "ap_status a = Pending"
    and f: "same_request a (f a)"
  shows "good_step s (snd (update_approval i f s))"
proof -
  let ?t = "s\<lparr>as_approvals := AList.update i (f a) (as_approvals s)\<rparr>"
  have id: "ap_id (f a) = i" using f approval_inv_id [OF inv a(1)] by (simp add: same_request_def)
  have "i \<in> fst ` set (as_approvals s)" using a(1) by (metis domI dom_map_of_conv_image_fst)
  then have "\<exists>k < as_next s. i = ''appr_'' @ as_uuids s k"
    using inv unfolding approval_inv_def by blast
  from approval_inv_put [OF inv id this order_refl] have "approval_inv ?t" by simp
  moreover have "approval_before s ?t"
    using a f by (auto simp: approval_before_def update_conv')
  ultimately show ?thesis using a(1) by (simp add: update_approval_def good_step_def)
qed

lemma update_approval_find:
  "findById j (snd (update_approval i f s)) =
     (if j = i then map_option f (findById i s) else findById j s)"
  by (auto simp: update_approval_def update_conv' split: option.split)

lemma update_approval_sessions [simp]:
  "as_sessions (snd (update_approval i f s)) = as_sessions s"
  by (simp add: update_approval_def split: option.split)

lemma approval_inv_fields:
  "as_approvals t = as_approvals s \<Longrightarrow> as_uuids t = as_uuids s \<Longrightarrow> as_next t = as_next s \<Longrightarrow>
     as_sessions t = as_sessions s \<Longrightarrow> approval_inv t = approval_inv s"
  by (simp add: approval_inv_def)

lemma good_step_same:
  assumes "good_step s t" "as_approvals u = as_approvals t" "as_uuids u = as_uuids t"
    "as_next u = as_next t" "as_sessions u = as_sessions t"
  shows "good_step s u"
  using assms approval_inv_fields [of u t] approval_before_approvals [of u t]
  unfolding good_step_def by (meson approval_before_trans)

lemma good_step_send: "good_step s t \<Longrightarrow> good_step s (send c t)"
  by (rule good_step_same) (simp_all add: send_def)

lemma find_send [simp]: "findById i (send c s) = findById i s"
  by (simp add: send_def)

lemma ids_of_values: "approval_inv s \<Longrightarrow> map ap_id (map snd (as_approvals s)) = map fst (as_approvals s)"
  unfolding approval_inv_def map_map by (intro map_cong refl) auto

lemma value_found:
  assumes "approval_inv s" "a \<in> set (map snd (as_approvals s))"
  shows "findById (ap_id a) s = Some a"
proof -
  obtain i where i: "(i, a) \<in> set (as_approvals s)" using assms(2) by auto
  moreover have "ap_id a = i" using assms(1) i unfolding approval_inv_def by blast
  ultimately show ?thesis using assms(1) unfolding approval_inv_def by (simp add: map_of_eq_Some_iff)
qed

lemma distinct_ids_filter: "approval_inv s \<Longrightarrow> distinct (map ap_id (filter P (map snd (as_approvals s))))"
  by (rule distinct_map_filter) (simp only: ids_of_values approval_inv_jmap)

lemma updates_good:
  assumes "approval_inv s" "distinct (map ap_id as)"
    and "\<forall>a \<in> set as. findById (ap_id a) s = Some a \<and> ap_status a = Pending"
    and "\<And>a. same_request a (f a)"
  shows "good_step s (foldl (\<lambda>s a. snd (update_approval (ap_id a) f s)) s as)"
  using assms(1-3)
proof (induction as arbitrary: s)
  case Nil
  then show ?case by (simp add: good_step_refl)
next
  case (Cons a as)
  let ?t = "snd (update_approval (ap_id a) f s)"
  have a: "findById (ap_id a) s = Some a" "ap_status a = Pending" using Cons.prems(3) by auto
  have t: "good_step s ?t" by (rule update_approval_good [where f = f, OF Cons.prems(1) a assms(4)])
  have "findById (ap_id b) ?t = Some b \<and> ap_status b = Pending" if "b \<in> set as" for b
  proof -
    have "ap_id b \<noteq> ap_id a" using that Cons.prems(2) by (metis distinct.simps(2) image_eqI list.simps(9) set_map)
    then show ?thesis using that Cons.prems(3) by (simp add: update_approval_find)
  qed
  moreover have "approval_inv ?t" using t by (simp only: good_step_def)
  moreover have "distinct (map ap_id as)" using Cons.prems(2) by simp
  ultimately have "good_step ?t (foldl (\<lambda>s a. snd (update_approval (ap_id a) f s)) ?t as)"
    by (intro Cons.IH) simp_all
  with t show ?case by (simp add: good_step_trans)
qed

lemma updates_find:
  assumes "distinct (map ap_id as)"
  shows "findById i (foldl (\<lambda>s a. snd (update_approval (ap_id a) f s)) s as) =
    (if i \<in> set (map ap_id as) then map_option f (findById i s) else findById i s)"
  using assms by (induction as arbitrary: s) (auto simp: update_approval_find)

section \<open>Each operation is a good step\<close>

lemma createApproval_good:
  assumes "approval_inv s" shows "good_step s (snd (createApproval now rq s))"
proof -
  let ?i = "''appr_'' @ as_uuids s (as_next s)"
  have fresh: "findById ?i s = None"
  proof (rule ccontr)
    assume "findById ?i s \<noteq> None"
    then have "?i \<in> fst ` set (as_approvals s)" by (metis domIff dom_map_of_conv_image_fst)
    then obtain k where "k < as_next s" "?i = ''appr_'' @ as_uuids s k"
      using assms unfolding approval_inv_def by blast
    then show False using assms unfolding approval_inv_def by (auto dest: injD)
  qed
  have inv: "approval_inv (s\<lparr>as_approvals := AList.update ?i a (as_approvals s),
      as_next := Suc (as_next s)\<rparr>)" if "ap_id a = ?i" for a
    using that by (intro approval_inv_put [OF assms]) auto
  have "approval_before s (s\<lparr>as_approvals := AList.update ?i a (as_approvals s),
      as_next := Suc (as_next s)\<rparr>)" for a
    using fresh by (auto simp: approval_before_def update_conv')
  then have "good_step s (snd (create_record mk s))" if "\<And>i. ap_id (mk i) = i" for mk
    using that inv by (simp add: create_record_def Let_def good_step_def)
  then have "good_step s (snd (create_record (\<lambda>i.
        \<lparr>ap_id = i, ap_sessionId = rq_sessionId rq, ap_deviceId = rq_deviceId rq,
         ap_userId = rq_userId rq, ap_actionType = rq_actionType rq,
         ap_description = rq_description rq, ap_details = rq_details rq, ap_status = Pending,
         ap_requestedAt = now, ap_decidedAt = None, ap_decidedBy = None, ap_reason = None,
         ap_policyVersion = rq_policyVersion rq, ap_matchedRules = rq_matchedRules rq,
         ap_requiredRole = rq_requiredRole rq,
         ap_expiresAt = Some (case rq_expiresAt rq of Some e \<Rightarrow> e
                              | None \<Rightarrow> now + THIRTY_MINUTES_MS),
         ap_reminderSentAt = None, ap_fallbackTriggeredAt = None\<rparr>) s))" by simp
  then show ?thesis
    unfolding createApproval_def Let_def
    by (rule good_step_same) (simp_all split: prod.split)
qed

text \<open>The branches of a decision.\<close>

definition approval_expired :: "int \<Rightarrow> approval \<Rightarrow> bool" where
  "approval_expired now a \<longleftrightarrow> (case ap_expiresAt a of None \<Rightarrow> False | Some e \<Rightarrow> now > e)"

definition decide :: "int \<Rightarrow> string \<Rightarrow> bool \<Rightarrow> string option \<Rightarrow> approval \<Rightarrow> approval" where
  "decide now by approved reason a = a\<lparr>ap_status := (if approved then Granted else Denied),
     ap_decidedAt := Some now, ap_decidedBy := Some by,
     ap_reason := Some (if truthy reason then the reason
       else if approved then ''Approved by user'' else ''Denied by user'')\<rparr>"

lemma submit_live:
  assumes "findById i s = Some a" "ap_status a = Pending" "\<not> approval_expired now a"
  shows "submitDecision now i by approved reason fb s =
    (\<lparr>sr_success = True, sr_record = Some (decide now by approved reason a), sr_conflict = None\<rparr>,
     (if \<not> approved \<and> truthy fb \<and> js_trim (the fb) \<noteq> []
      then send (Session_Message (ap_deviceId a) (ap_sessionId a) (the fb)) else id)
       (snd (update_approval i (decide now by approved reason) s)))"
  using assms
  by (simp add: submitDecision_def approval_expired_def update_approval_def decide_def Let_def
      split: option.splits)

lemma submit_expired:
  assumes "findById i s = Some a" "ap_status a = Pending" "approval_expired now a"
  shows "\<exists>a'. submitDecision now i by approved reason fb s =
      (\<lparr>sr_success = False, sr_record = Some a', sr_conflict = Some False\<rparr>,
       snd (update_approval i (\<lambda>a. a\<lparr>ap_status := Timed_Out,
         ap_reason := Some ''Approval request expired before a decision was made''\<rparr>) s)) \<and>
     ap_status a' = Timed_Out"
  using assms
  by (auto simp: submitDecision_def approval_expired_def update_approval_def Let_def update_conv'
      split: option.splits)

lemma submit_decided:
  assumes "findById i s = Some a" "ap_status a \<noteq> Pending"
  shows "submitDecision now i by approved reason fb s =
    (\<lparr>sr_success = False, sr_record = Some a,
      sr_conflict = Some (ap_status a \<in> {Granted, Denied})\<rparr>, s)"
  using assms by (cases "ap_status a") (simp_all add: submitDecision_def Let_def)

lemma submit_missing:
  "findById i s = None \<Longrightarrow> submitDecision now i by approved reason fb s =
    (\<lparr>sr_success = False, sr_record = None, sr_conflict = None\<rparr>, s)"
  by (simp add: submitDecision_def Let_def)

lemma submitDecision_good:
  assumes inv: "approval_inv s"
  shows "good_step s (snd (submitDecision now i by approved reason fb s))"
proof (cases "findById i s")
  case None
  then show ?thesis using inv by (simp add: submit_missing good_step_refl)
next
  case (Some a)
  consider "ap_status a \<noteq> Pending" | "ap_status a = Pending" "approval_expired now a"
    | "ap_status a = Pending" "\<not> approval_expired now a" by blast
  then show ?thesis
  proof cases
    case 1
    then show ?thesis using Some inv by (simp add: submit_decided good_step_refl)
  next
    case 2
    have "good_step s (snd (update_approval i (\<lambda>a. a\<lparr>ap_status := Timed_Out,
         ap_reason := Some ''Approval request expired before a decision was made''\<rparr>) s))"
      using 2 by (intro update_approval_good [OF inv Some]) (simp_all add: same_request_def)
    with submit_expired [OF Some 2] show ?thesis by (metis snd_conv)
  next
    case 3
    have "good_step s (snd (update_approval i (decide now by approved reason) s))"
      using 3 by (intro update_approval_good [OF inv Some]) (simp_all add: same_request_def decide_def)
    then show ?thesis unfolding submit_live [OF Some 3] snd_conv
      by (cases approved) (auto intro: good_step_send)
  qed
qed

lemma expireApproval_good:
  assumes inv: "approval_inv s"
  shows "good_step s (snd (expireApproval now tunnel_ok i s))"
proof (cases "findById i s")
  case None
  then show ?thesis using inv by (simp add: expireApproval_def good_step_refl)
next
  case (Some a)
  show ?thesis
  proof (cases "ap_status a = Pending \<and> (\<exists>e. ap_expiresAt a = Some e \<and> \<not> e > now)")
    case False
    then show ?thesis using Some inv
      by (auto simp: expireApproval_def good_step_refl split: option.split)
  next
    case True
    let ?f = "\<lambda>a. a\<lparr>ap_status := Timed_Out, ap_decidedAt := Some now,
      ap_decidedBy := Some ''system'',
      ap_reason := Some ''Nobody decided before the approval expired, so it was denied.''\<rparr>"
    have "good_step s (snd (update_approval i ?f s))"
      using True by (intro update_approval_good [OF inv Some]) (simp_all add: same_request_def)
    with True Some show ?thesis
      by (auto simp: expireApproval_def update_approval_def Let_def intro: good_step_send)
  qed
qed

lemma handlePolicyChange_good:
  assumes inv: "approval_inv s"
  shows "good_step s (snd (handlePolicyChange now i p s))"
proof (cases "findById i s")
  case None
  then show ?thesis using inv by (simp add: handlePolicyChange_def good_step_refl)
next
  case (Some a)
  show ?thesis
  proof (cases "ap_status a = Pending \<and> p = Now_Deny")
    case False
    then show ?thesis using Some inv
      by (auto simp: handlePolicyChange_def good_step_refl)
  next
    case True
    have "good_step s (snd (update_approval i (\<lambda>a. a\<lparr>ap_status := Denied,
        ap_decidedAt := Some now, ap_decidedBy := Some ''system'',
        ap_reason := Some ''policy_superseded: current policy denies this action''\<rparr>) s))"
      using True by (intro update_approval_good [OF inv Some]) (simp_all add: same_request_def)
    with True Some show ?thesis by (simp add: handlePolicyChange_def Let_def)
  qed
qed

lemma expireStale_eq:
  "expireStaleApprovals now s =
     (let stale = filter (approval_expired now) (listPending [] s) in
      (length stale, foldl (\<lambda>s a. snd (update_approval (ap_id a)
         (\<lambda>a. a\<lparr>ap_status := Timed_Out, ap_reason := Some ''Approval request expired''\<rparr>) s)) s stale))"
proof -
  have "foldl (\<lambda>(n, s) a. if approval_expired now a then (Suc n, g a s) else (n, s)) (n, s) as =
      (n + length (filter (approval_expired now) as),
       foldl (\<lambda>s a. g a s) s (filter (approval_expired now) as))" for n as s and g :: "approval \<Rightarrow> approval_store \<Rightarrow> approval_store"
    by (induction as arbitrary: n s) auto
  then show ?thesis
    unfolding expireStaleApprovals_def Let_def approval_expired_def [symmetric] by simp
qed

lemma expireStaleApprovals_good:
  assumes inv: "approval_inv s" shows "good_step s (snd (expireStaleApprovals now s))"
proof -
  let ?L = "filter (approval_expired now) (listPending [] s)"
  have "distinct (map ap_id ?L)"
    unfolding listPending_def filter_filter by (rule distinct_ids_filter [OF inv])
  moreover have "\<forall>a \<in> set ?L. findById (ap_id a) s = Some a \<and> ap_status a = Pending"
  proof
    fix a assume "a \<in> set ?L"
    then have "a \<in> set (map snd (as_approvals s))" "ap_status a = Pending"
      by (auto simp only: listPending_def set_filter mem_Collect_eq)
    then show "findById (ap_id a) s = Some a \<and> ap_status a = Pending"
      by (simp only: value_found [OF inv])
  qed
  ultimately show ?thesis
    unfolding expireStale_eq Let_def snd_conv
    by (intro updates_good [OF inv]) (simp_all add: same_request_def)
qed

section \<open>Revoking a device\<close>

lemma collect_values:
  "a \<in> set (collectDeviceApprovals dev s) \<longleftrightarrow>
     a \<in> set (map snd (as_approvals s)) \<and> ap_deviceId a = dev \<and> ap_status a = Pending \<and>
     ap_sessionId a \<in> set (listAllSessions s)"
  unfolding collectDeviceApprovals_def listBySession_def filter_filter by auto

lemma collect_distinct:
  assumes inv: "approval_inv s" shows "distinct (map ap_id (collectDeviceApprovals dev s))"
proof -
  let ?g = "\<lambda>sid. filter (\<lambda>a. ap_deviceId a = dev \<and> ap_status a = Pending) (listBySession sid s)"
  have one: "distinct (map ap_id (?g sid))" for sid
    unfolding listBySession_def filter_filter by (rule distinct_ids_filter [OF inv])
  have "distinct ks \<Longrightarrow> distinct (map ap_id (concat (map ?g ks)))" for ks
  proof (induction ks)
    case Nil
    then show ?case by simp
  next
    case (Cons k ks)
    have "ap_id a \<noteq> ap_id b" if ak: "a \<in> set (?g k)" and bk: "b \<in> set (concat (map ?g ks))" for a b
    proof
      assume eq: "ap_id a = ap_id b"
      have a: "a \<in> set (map snd (as_approvals s))" "ap_sessionId a = k"
        using that(1) by (simp_all only: listBySession_def set_filter mem_Collect_eq)
      have b: "b \<in> set (map snd (as_approvals s))" "ap_sessionId b \<in> set ks"
      proof -
        obtain j where j: "j \<in> set ks" "b \<in> set (?g j)"
          using bk unfolding set_concat set_map by blast
        from j(2) have b: "b \<in> set (map snd (as_approvals s)) \<and> ap_sessionId b = j"
          by (simp only: listBySession_def set_filter mem_Collect_eq)
        then show "b \<in> set (map snd (as_approvals s))" by (rule conjunct1)
        from b j(1) show "ap_sessionId b \<in> set ks" by (simp only:)
      qed
      have "Some a = Some b"
        using value_found [OF inv a(1)] value_found [OF inv b(1)] unfolding eq by (rule trans [OF sym])
      then have "ap_sessionId a = ap_sessionId b" by simp
      with a(2) b(2) Cons.prems show False by simp
    qed
    then have "set (map ap_id (?g k)) \<inter> set (map ap_id (concat (map ?g ks))) = {}"
      unfolding set_map by blast
    moreover have "distinct (map ap_id (concat (map ?g ks)))"
      using Cons by (simp only: distinct.simps)
    ultimately show ?case
      using one [of k] by (simp only: list.map concat.simps map_append distinct_append)
  qed
  with approval_inv_sessions [OF inv] show ?thesis unfolding collectDeviceApprovals_def by blast
qed

lemma collect_pending:
  assumes inv: "approval_inv s" and a: "a \<in> set (collectDeviceApprovals dev s)"
  shows "findById (ap_id a) s = Some a \<and> ap_status a = Pending"
  using a value_found [OF inv, of a] unfolding collect_values by blast

lemma revokeDeviceApprovals_good:
  assumes inv: "approval_inv s" shows "good_step s (snd (revokeDeviceApprovals dev reason s))"
  unfolding revokeDeviceApprovals_def Let_def snd_conv supersede_def
  using collect_distinct [OF inv] collect_pending [OF inv]
  by (intro updates_good [OF inv]) (auto simp: same_request_def)

lemma approval_step_good:
  assumes inv: "approval_inv s" shows "good_step s (approval_step s e)"
proof (cases e)
  case (Op_New_Session sid)
  have "approval_inv (approval_step s e)"
    using inv unfolding approval_inv_def Op_New_Session by (auto split: option.splits)
  then show ?thesis using Op_New_Session
    by (simp add: good_step_def approval_before_approvals)
qed (use inv in \<open>simp_all add: createApproval_good submitDecision_good revokeDeviceApprovals_good
  expireApproval_good expireStaleApprovals_good handlePolicyChange_good\<close>)

interpretation approvals: progress_system approval_step approval_inv approval_before
  by unfold_locales
    (auto dest: approval_step_good simp: good_step_def intro: approval_before_trans)

section \<open>What the workflow promises\<close>

text \<open>Who decided: the approvers whose call on an approval reported success, in order.\<close>

fun winners :: "string \<Rightarrow> approval_store \<Rightarrow> approval_op list \<Rightarrow> (string \<times> bool) list" where
  "winners i s [] = []"
| "winners i s (e # es) =
     (case e of
        Op_Submit now j by ok reason fb \<Rightarrow>
          (if j = i \<and> sr_success (fst (submitDecision now j by ok reason fb s)) then [(by, ok)] else [])
      | _ \<Rightarrow> []) @ winners i (approval_step s e) es"

lemma submit_success:
  assumes "sr_success (fst (submitDecision now i by ok reason fb s))"
  obtains a where "findById i s = Some a" "ap_status a = Pending" "\<not> approval_expired now a"
    "findById i (approval_step s (Op_Submit now i by ok reason fb)) = Some (decide now by ok reason a)"
proof (cases "findById i s")
  case None
  with assms show ?thesis by (simp add: submit_missing)
next
  case (Some a)
  have p: "ap_status a = Pending" using assms submit_decided [OF Some] by force
  have e: "\<not> approval_expired now a"
  proof
    assume "approval_expired now a"
    from submit_expired [OF Some p this, of "by" ok reason fb] assms show False by auto
  qed
  have "findById i (approval_step s (Op_Submit now i by ok reason fb)) = Some (decide now by ok reason a)"
    unfolding approval_step.simps submit_live [OF Some p e] snd_conv
    using Some by (simp add: update_approval_find)
  with Some p e that show ?thesis by blast
qed

lemma decided_stays:
  assumes "approval_inv s" "findById i s = Some a" "ap_status a \<noteq> Pending"
  shows "findById i (foldl approval_step s es) = Some a"
  using approvals.run_before [OF assms(1), of es] assms(2,3) unfolding approval_before_def by blast

lemma no_late_winner:
  assumes "approval_inv s" "findById i s = Some a" "ap_status a \<noteq> Pending"
  shows "winners i s es = []"
  using assms
proof (induction es arbitrary: s)
  case Nil
  then show ?case by simp
next
  case (Cons e es)
  have "findById i (approval_step s e) = Some a" using decided_stays [OF Cons.prems, of "[e]"] by simp
  then have "winners i (approval_step s e) es = []"
    using Cons by (blast intro: approvals.step_inv)
  moreover have "\<not> sr_success (fst (submitDecision now i u ok reason fb s))" for now u ok reason fb
    using submit_decided [OF Cons.prems(2,3)] by simp
  ultimately show ?case by (cases e) auto
qed


definition empty_approvals :: "(nat \<Rightarrow> string) \<Rightarrow> approval_store" where
  "empty_approvals u = \<lparr>as_approvals = [], as_sessions = Some [], as_uuids = u, as_next = 0,
     as_outbox = [], as_created = [], as_listening = False\<rparr>"

lemma approval_inv_empty: "inj u \<Longrightarrow> approval_inv (empty_approvals u)"
  by (simp add: approval_inv_def empty_approvals_def)

lemma inj_unary: "inj (\<lambda>n. replicate n CHR ''x'')"
  by (rule injI) (metis length_replicate)

definition sample_request :: approval_request where
  "sample_request = \<lparr>rq_sessionId = ''s1'', rq_deviceId = ''d1'', rq_userId = ''u1'',
     rq_actionType = ''git.push'', rq_description = [], rq_details = None, rq_policyVersion = None,
     rq_matchedRules = None, rq_requiredRole = None, rq_expiresAt = None\<rparr>"

definition sample_store :: approval_store where
  "sample_store = approval_step (approval_step (empty_approvals (\<lambda>n. replicate n CHR ''x''))
     (Op_New_Session ''s1'')) (Op_Create 0 sample_request)"

lemma sample_inv: "approval_inv sample_store"
  unfolding sample_store_def
  by (intro approvals.step_inv approval_inv_empty inj_unary)


text \<open>A granted approval was decided by someone, and no later than it expired.\<close>

definition granted_in_time :: "approval \<Rightarrow> bool" where
  "granted_in_time a \<longleftrightarrow> (ap_status a = Granted \<longrightarrow>
     (\<exists>t u. ap_decidedAt a = Some t \<and> ap_decidedBy a = Some u \<and> \<not> approval_expired t a))"

definition all_in_time :: "approval_store \<Rightarrow> bool" where
  "all_in_time s \<longleftrightarrow> approval_inv s \<and> (\<forall>i a. findById i s = Some a \<longrightarrow> granted_in_time a)"

lemma in_time_update:
  assumes "\<forall>i a. findById i s = Some a \<longrightarrow> granted_in_time a"
    and "\<And>a. findById i s = Some a \<Longrightarrow> granted_in_time (f a)"
  shows "\<forall>j a. findById j (snd (update_approval i f s)) = Some a \<longrightarrow> granted_in_time a"
  using assms by (auto simp: update_approval_find)

lemma in_time_updates:
  assumes "\<forall>i a. findById i s = Some a \<longrightarrow> granted_in_time a" "\<And>a. granted_in_time (f a)"
  shows "\<forall>j a. findById j (foldl (\<lambda>s x. snd (update_approval (ap_id x) f s)) s as) = Some a
    \<longrightarrow> granted_in_time a"
  using assms(1)
proof (induction as arbitrary: s)
  case Nil
  then show ?case by simp
next
  case (Cons x as)
  have "\<forall>j a. findById j (snd (update_approval (ap_id x) f s)) = Some a \<longrightarrow> granted_in_time a"
    by (rule in_time_update [OF Cons.prems assms(2)])
  from Cons.IH [OF this] show ?case by simp
qed

lemma in_time_step:
  assumes all: "\<forall>i a. findById i s = Some a \<longrightarrow> granted_in_time a"
  shows "\<forall>j a. findById j (approval_step s e) = Some a \<longrightarrow> granted_in_time a"
proof (cases e)
  case (Op_Create now rq)
  then show ?thesis using all
    by (auto simp: createApproval_def create_record_def Let_def update_conv' granted_in_time_def)
next
  case (Op_Submit now i u ok reason fb)
  show ?thesis
  proof (cases "findById i s")
    case None
    then show ?thesis using all Op_Submit by (simp add: submit_missing)
  next
    case (Some a)
    consider "ap_status a \<noteq> Pending" | "ap_status a = Pending" "approval_expired now a"
      | "ap_status a = Pending" "\<not> approval_expired now a" by blast
    then show ?thesis
    proof cases
      case 1
      then show ?thesis using all Op_Submit submit_decided [OF Some] by simp
    next
      case 2
      have "\<forall>j a. findById j (snd (update_approval i (\<lambda>a. a\<lparr>ap_status := Timed_Out,
         ap_reason := Some ''Approval request expired before a decision was made''\<rparr>) s)) = Some a
         \<longrightarrow> granted_in_time a"
        by (rule in_time_update [OF all]) (simp add: granted_in_time_def)
      moreover obtain a' where "submitDecision now i u ok reason fb s =
         (\<lparr>sr_success = False, sr_record = Some a', sr_conflict = Some False\<rparr>,
          snd (update_approval i (\<lambda>a. a\<lparr>ap_status := Timed_Out,
            ap_reason := Some ''Approval request expired before a decision was made''\<rparr>) s))"
        using submit_expired [OF Some 2] by blast
      ultimately show ?thesis using Op_Submit by simp
    next
      case 3
      have "\<forall>j b. findById j (snd (update_approval i (decide now u ok reason) s)) = Some b
         \<longrightarrow> granted_in_time b"
        using 3 Some
        by (intro in_time_update [OF all]) (simp add: granted_in_time_def decide_def approval_expired_def)
      then show ?thesis unfolding Op_Submit approval_step.simps submit_live [OF Some 3] snd_conv
        by simp
    qed
  qed
next
  case (Op_Revoke dev reason)
  then show ?thesis
    using in_time_updates [OF all, of "\<lambda>a. a\<lparr>ap_status := Superseded,
      ap_reason := Some (''Device revoked: '' @ reason)\<rparr>" "collectDeviceApprovals dev s"]
    by (simp add: revokeDeviceApprovals_def Let_def supersede_def granted_in_time_def)
next
  case (Op_Expire now ok i)
  let ?f = "\<lambda>a. a\<lparr>ap_status := Timed_Out, ap_decidedAt := Some now,
      ap_decidedBy := Some ''system'',
      ap_reason := Some ''Nobody decided before the approval expired, so it was denied.''\<rparr>"
  have "\<forall>j a. findById j (snd (update_approval i ?f s)) = Some a \<longrightarrow> granted_in_time a"
    by (rule in_time_update [OF all]) (simp add: granted_in_time_def)
  moreover have "snd (expireApproval now ok i s) = s \<or>
      (\<exists>c. snd (expireApproval now ok i s) = send c (snd (update_approval i ?f s))) \<or>
      snd (expireApproval now ok i s) = snd (update_approval i ?f s)"
    by (auto simp: expireApproval_def update_approval_def Let_def split: option.split)
  ultimately show ?thesis using all Op_Expire by auto
next
  case (Op_Expire_Stale now)
  then show ?thesis
    using in_time_updates [OF all, of "\<lambda>a. a\<lparr>ap_status := Timed_Out,
      ap_reason := Some ''Approval request expired''\<rparr>"]
    by (simp add: expireStale_eq Let_def granted_in_time_def)
next
  case (Op_Policy_Change now i p)
  let ?f = "\<lambda>a. a\<lparr>ap_status := Denied, ap_decidedAt := Some now, ap_decidedBy := Some ''system'',
      ap_reason := Some ''policy_superseded: current policy denies this action''\<rparr>"
  have "\<forall>j a. findById j (snd (update_approval i ?f s)) = Some a \<longrightarrow> granted_in_time a"
    by (rule in_time_update [OF all]) (simp add: granted_in_time_def)
  moreover have "snd (handlePolicyChange now i p s) \<in> {s, snd (update_approval i ?f s)}"
    by (simp add: handlePolicyChange_def Let_def split: option.split)
  ultimately show ?thesis using all Op_Policy_Change by auto
next
  case (Op_New_Session sid)
  then show ?thesis using all by simp
qed

interpretation approvals_time: transition_system approval_step all_in_time
  by unfold_locales (auto simp only: all_in_time_def approvals.step_inv dest: in_time_step)

text \<open>
  C5: Nothing is granted late.  Starting from an empty store, after any operations, a granted
  approval names who granted it and was granted before it expired.
\<close>

theorem granted_before_expiry:
  assumes "inj u" "findById i (foldl approval_step (empty_approvals u) es) = Some a"
    "ap_status a = Granted"
  shows "\<exists>t by. ap_decidedAt a = Some t \<and> ap_decidedBy a = Some by \<and> \<not> approval_expired t a"
proof -
  have "all_in_time (empty_approvals u)"
    using approval_inv_empty [OF assms(1)] by (simp add: all_in_time_def empty_approvals_def)
  from approvals_time.run_inv [OF this, of es] assms(2,3) show ?thesis
    unfolding all_in_time_def granted_in_time_def by blast
qed

definition sample_ops :: "approval_op list" where
  "sample_ops = [Op_New_Session ''s1'', Op_Create 0 sample_request,
     Op_Submit 5 ''appr_'' ''ann'' True None None]"

theorem granted_before_expiry_witness:
  "let a = the (findById ''appr_'' (foldl approval_step
       (empty_approvals (\<lambda>n. replicate n CHR ''x'')) sample_ops))
   in \<exists>t by. ap_decidedAt a = Some t \<and> ap_decidedBy a = Some by \<and> \<not> approval_expired t a"
  unfolding Let_def
proof (rule granted_before_expiry [OF inj_unary])
  let ?s = "foldl approval_step (empty_approvals (\<lambda>n. replicate n CHR ''x'')) sample_ops"
  show "findById ''appr_'' ?s = Some (the (findById ''appr_'' ?s))" by code_simp
  show "ap_status (the (findById ''appr_'' ?s)) = Granted" by code_simp
qed

lemma revoke_effect:
  assumes inv: "approval_inv s" and run: "revokeDeviceApprovals dev reason s = (n, t)"
  shows "n = length (filter (\<lambda>a. ap_deviceId a = dev \<and> ap_status a = Pending \<and>
       ap_sessionId a \<in> set (listAllSessions s)) (map snd (as_approvals s)))"
    and "\<forall>i a. findById i s = Some a \<longrightarrow> findById i t = Some
       (if ap_deviceId a = dev \<and> ap_status a = Pending \<and> ap_sessionId a \<in> set (listAllSessions s)
        then a\<lparr>ap_status := Superseded, ap_reason := Some (''Device revoked: '' @ reason)\<rparr> else a)"
proof -
  let ?P = "\<lambda>a. ap_deviceId a = dev \<and> ap_status a = Pending \<and> ap_sessionId a \<in> set (listAllSessions s)"
  let ?C = "collectDeviceApprovals dev s" and ?F = "filter ?P (map snd (as_approvals s))"
  have dC: "distinct ?C" using collect_distinct [OF inv] by (simp add: distinct_map)
  have dF: "distinct ?F" using distinct_ids_filter [OF inv, of ?P] by (simp only: distinct_map)
  have "set ?C = set ?F" using collect_values [of _ dev s] by auto
  then have "length ?C = length ?F" unfolding distinct_card [OF dC, symmetric] distinct_card [OF dF, symmetric] by (rule arg_cong)
  then show "n = length ?F" using run by (simp add: revokeDeviceApprovals_def Let_def)
  have t: "t = foldl (\<lambda>s x. snd (update_approval (ap_id x) (\<lambda>a. a\<lparr>ap_status := Superseded,
      ap_reason := Some (''Device revoked: '' @ reason)\<rparr>) s)) s ?C"
    using run by (simp add: revokeDeviceApprovals_def Let_def supersede_def)
  show "\<forall>i a. findById i s = Some a \<longrightarrow> findById i t = Some
       (if ?P a then a\<lparr>ap_status := Superseded,
          ap_reason := Some (''Device revoked: '' @ reason)\<rparr> else a)"
  proof (intro allI impI)
    fix i a assume a: "findById i s = Some a"
    have "i \<in> set (map ap_id ?C) \<longleftrightarrow> ?P a"
    proof
      assume "i \<in> set (map ap_id ?C)"
      then obtain b where b: "b \<in> set ?C" "ap_id b = i" by auto
      from collect_pending [OF inv b(1)] b(2) a have "Some b = Some a" by simp
      with b(1) show "?P a" using collect_values by simp
    next
      assume "?P a"
      moreover have "a \<in> set (map snd (as_approvals s))"
        using map_of_SomeD [OF a] by (metis image_eqI list.set_map snd_conv)
      ultimately have "a \<in> set ?C" using collect_values by blast
      with approval_inv_id [OF inv a] show "i \<in> set (map ap_id ?C)" by auto
    qed
    then show "findById i t = Some (if ?P a then a\<lparr>ap_status := Superseded,
        ap_reason := Some (''Device revoked: '' @ reason)\<rparr> else a)"
      unfolding t updates_find [OF collect_distinct [OF inv]] using a by simp
  qed
qed

text \<open>
  An uninterrupted revocation leaves no pending approval of the device in any session the memory
  store knows, counts exactly those it superseded, and touches no other approval.
\<close>

theorem revoke_supersedes_device:
  assumes "approval_inv s"
  shows "let (n, t) = revokeDeviceApprovals dev reason s;
       hit = (\<lambda>a. ap_deviceId a = dev \<and> ap_status a = Pending \<and>
         ap_sessionId a \<in> set (listAllSessions s))
     in n = length (filter hit (map snd (as_approvals s))) \<and>
        (\<forall>i a. findById i s = Some a \<longrightarrow> findById i t = Some (if hit a
           then a\<lparr>ap_status := Superseded, ap_reason := Some (''Device revoked: '' @ reason)\<rparr>
           else a))"
  using revoke_effect [OF assms prod.collapse [symmetric], of dev reason]
  unfolding Let_def split_beta by blast

theorem revoke_supersedes_device_witness:
  "fst (revokeDeviceApprovals ''d1'' ''lost'' sample_store) = 1"
proof -
  have "length (filter (\<lambda>a. ap_deviceId a = ''d1'' \<and> ap_status a = Pending \<and>
      ap_sessionId a \<in> set (listAllSessions sample_store)) (map snd (as_approvals sample_store))) = 1"
    by code_simp
  with revoke_supersedes_device [OF sample_inv, of "''d1''" "''lost''"] show ?thesis
    unfolding Let_def split_beta by presburger
qed

section \<open>Where the code falls short\<close>

text \<open>
  A revocation supersedes nothing when the session store is not the in-memory one, because
  \<open>listAllSessions\<close> reads a field other stores do not have.
\<close>

theorem revoke_needs_memory_store:
  "revokeDeviceApprovals dev reason (s\<lparr>as_sessions := None\<rparr>) = (0, s\<lparr>as_sessions := None\<rparr>)"
  by (simp add: revokeDeviceApprovals_def collectDeviceApprovals_def listAllSessions_def Let_def)

text \<open>
  The sweep of expired approvals asks for those of the user with the empty name, so it never
  touches an approval of any other user, expired or not.
\<close>

theorem stale_sweep_misses_users:
  assumes "approval_inv s" "findById i s = Some a" "ap_userId a \<noteq> []"
  shows "findById i (snd (expireStaleApprovals now s)) = Some a"
proof -
  let ?L = "filter (approval_expired now) (listPending [] s)"
  have "i \<notin> set (map ap_id ?L)"
  proof
    assume "i \<in> set (map ap_id ?L)"
    then obtain b where b: "b \<in> set (map snd (as_approvals s))" "ap_userId b = []" "i = ap_id b"
      by (auto simp: listPending_def)
    from value_found [OF assms(1) b(1)] assms(2) b(3) have "Some a = Some b" by simp
    with b(2) assms(3) show False by simp
  qed
  moreover have "distinct (map ap_id ?L)"
    unfolding listPending_def filter_filter by (rule distinct_ids_filter [OF assms(1)])
  ultimately show ?thesis
    unfolding expireStale_eq Let_def snd_conv by (subst updates_find) (simp_all add: assms(2))
qed

theorem stale_sweep_misses_users_witness:
  "findById ''appr_'' (snd (expireStaleApprovals 99999999 sample_store))
     = findById ''appr_'' sample_store"
proof -
  let ?a = "the (findById ''appr_'' sample_store)"
  have f: "findById ''appr_'' sample_store = Some ?a" by code_simp
  have "ap_userId ?a \<noteq> []" by code_simp
  from stale_sweep_misses_users [OF sample_inv f this] f show ?thesis by simp
qed

text \<open>
  The revocation suspends between collecting and updating, and its updates are unconditional: a
  grant that arrives in between is overwritten, although its caller was told it succeeded.
\<close>

lemma revoke_can_overwrite_a_grant:
  "let as = collectDeviceApprovals ''d1'' sample_store;
       (r, s1) = submitDecision 5 ''appr_'' ''ann'' True None None sample_store;
       s2 = foldl (\<lambda>s a. supersede ''lost'' a s) s1 as
   in sr_success r \<and> map_option ap_status (findById ''appr_'' s1) = Some Granted \<and>
      map_option ap_status (findById ''appr_'' s2) = Some Superseded"
  by code_simp

end
