(* ===== verification/AuditTrail.thy ===== *)
theory AuditTrail
  imports Prelude
begin

text \<open>
  The hash-chained audit log: \<open>AuditLog\<close> (\<open>control-plane/src/policy/audit-log.ts\<close>) on
  \<open>MemoryAuditRepository\<close> (\<open>control-plane/src/db/memory-store.ts\<close>).  The JSON text that is hashed is
  built here character by character; SHA-256 is a parameter \<open>sha\<close>, and where the chain's security
  rests on it the hypothesis is that it does not collide on the texts at hand.  A \<open>Date\<close> is kept as
  its ISO string.  The random identifier of an event is an argument.
\<close>

section \<open>JSON text\<close>

definition hex_digit :: "nat \<Rightarrow> char" where
  "hex_digit n = (if n < 10 then char_of (48 + n) else char_of (87 + n))"

definition json_char :: "char \<Rightarrow> string" where
  "json_char c =
     (let n = (of_char c :: nat) in
      if n = 34 then [CHR 0x5C, CHR 0x22]
      else if n = 92 then [CHR 0x5C, CHR 0x5C]
      else if n = 8 then CHR 0x5C # ''b''
      else if n = 9 then CHR 0x5C # ''t''
      else if n = 10 then CHR 0x5C # ''n''
      else if n = 12 then CHR 0x5C # ''f''
      else if n = 13 then CHR 0x5C # ''r''
      else if n < 32 then CHR 0x5C # ''u00'' @ [hex_digit (n div 16), hex_digit (n mod 16)]
      else [c])"

definition json_string :: "string \<Rightarrow> string" where
  "json_string s = CHR 0x22 # concat (map json_char s) @ [CHR 0x22]"

definition json_strings :: "string list \<Rightarrow> string" where
  "json_strings xs = ''['' @ js_join '','' (map json_string xs) @ '']''"

section \<open>Events\<close>

datatype actor_type = Actor_User | Actor_Device | Actor_System

fun actor_name :: "actor_type \<Rightarrow> string" where
  "actor_name Actor_User = ''user''"
| "actor_name Actor_Device = ''device''"
| "actor_name Actor_System = ''system''"

datatype audit_decision =
  Aud_Allow | Aud_Deny | Aud_Require_Approval | Aud_Granted | Aud_Denied | Aud_Timeout

fun audit_decision_name :: "audit_decision \<Rightarrow> string" where
  "audit_decision_name Aud_Allow = ''allow''"
| "audit_decision_name Aud_Deny = ''deny''"
| "audit_decision_name Aud_Require_Approval = ''require_approval''"
| "audit_decision_name Aud_Granted = ''granted''"
| "audit_decision_name Aud_Denied = ''denied''"
| "audit_decision_name Aud_Timeout = ''timeout''"

text \<open>What is hashed: the entry and the hash of the event before it.\<close>

record audit_entry =
  en_timestamp :: string
  en_actorType :: actor_type
  en_actorId :: string
  en_sessionId :: "string option"
  en_deviceId :: "string option"
  en_action :: string
  en_decision :: audit_decision
  en_policyVersion :: "string option"
  en_matchedRules :: "string list option"

record audit_event =
  ev_id :: string
  ev_sequence :: nat
  ev_entry :: audit_entry
  ev_previousHash :: string
  ev_hash :: string

record audit_store =
  au_events :: "audit_event list"
  au_nextSequence :: nat

definition json_opt :: "string \<Rightarrow> ('a \<Rightarrow> string) \<Rightarrow> 'a option \<Rightarrow> string" where
  "json_opt key enc v = (case v of None \<Rightarrow> [] | Some x \<Rightarrow> '','' @ json_string key @ '':'' @ enc x)"

text \<open>\<open>JSON.stringify\<close> of the entry with its keys sorted, absent keys left out.\<close>

definition canonicalize :: "audit_entry \<Rightarrow> string \<Rightarrow> string" where
  "canonicalize e prev =
     ''{'' @ json_string ''action'' @ '':'' @ json_string (en_action e) @
     '','' @ json_string ''actor'' @ '':{'' @ json_string ''type'' @ '':'' @
       json_string (actor_name (en_actorType e)) @ '','' @ json_string ''id'' @ '':'' @
       json_string (en_actorId e) @ ''}'' @
     '','' @ json_string ''decision'' @ '':'' @ json_string (audit_decision_name (en_decision e)) @
     json_opt ''deviceId'' json_string (en_deviceId e) @
     json_opt ''matchedRules'' json_strings (en_matchedRules e) @
     json_opt ''policyVersion'' json_string (en_policyVersion e) @
     json_opt ''previousHash'' json_string (Some prev) @
     json_opt ''sessionId'' json_string (en_sessionId e) @
     json_opt ''timestamp'' json_string (Some (en_timestamp e)) @ ''}''"

definition GENESIS_HASH :: string where
  "GENESIS_HASH = replicate 64 CHR ''0''"

definition empty_audit :: audit_store where
  "empty_audit = \<lparr>au_events = [], au_nextSequence = 1\<rparr>"

definition last_hash :: "audit_event list \<Rightarrow> string" where
  "last_hash es = (if es = [] then GENESIS_HASH else ev_hash (last es))"

definition append_event ::
  "(string \<Rightarrow> string) \<Rightarrow> string \<Rightarrow> audit_entry \<Rightarrow> audit_store \<Rightarrow> audit_event \<times> audit_store" where
  "append_event sha uuid e s =
     (let prev = last_hash (au_events s);
          ev = \<lparr>ev_id = ''aud_'' @ uuid, ev_sequence = au_nextSequence s, ev_entry = e,
                ev_previousHash = prev, ev_hash = sha (canonicalize e prev)\<rparr> in
      (ev, s\<lparr>au_events := au_events s @ [ev], au_nextSequence := Suc (au_nextSequence s)\<rparr>))"

text \<open>\<open>AuditLog.record\<close>: the timestamp is added, empty optional strings are left out.\<close>

definition non_empty :: "string option \<Rightarrow> string option" where
  "non_empty x = (if truthy x then x else None)"

definition record_audit ::
  "(string \<Rightarrow> string) \<Rightarrow> string \<Rightarrow> string \<Rightarrow> audit_entry \<Rightarrow> audit_store \<Rightarrow> audit_event \<times> audit_store"
where
  "record_audit sha uuid now e s =
     append_event sha uuid (e\<lparr>en_timestamp := now, en_sessionId := non_empty (en_sessionId e),
       en_deviceId := non_empty (en_deviceId e),
       en_policyVersion := non_empty (en_policyVersion e)\<rparr>) s"

record audit_query =
  qy_sessionId :: "string option"
  qy_deviceId :: "string option"
  qy_actorType :: "string option"
  qy_actorId :: "string option"
  qy_decision :: "string option"
  qy_fromSequence :: "nat option"
  qy_limit :: "int option"

definition when_truthy :: "string option \<Rightarrow> (string \<Rightarrow> 'a \<Rightarrow> bool) \<Rightarrow> 'a list \<Rightarrow> 'a list" where
  "when_truthy q p xs = (if truthy q then filter (p (the q)) xs else xs)"

text \<open>\<open>slice(-n)\<close>: the last \<open>n\<close> elements; for a negative \<open>n\<close>, all but the first \<open>-n\<close>.\<close>

definition slice_last :: "int \<Rightarrow> 'a list \<Rightarrow> 'a list" where
  "slice_last n xs = (if n \<ge> 0 then drop (length xs - nat n) xs else drop (nat (- n)) xs)"

definition list_audit :: "audit_query \<Rightarrow> audit_store \<Rightarrow> audit_event list" where
  "list_audit q s =
     (let r1 = when_truthy (qy_sessionId q) (\<lambda>x e. en_sessionId (ev_entry e) = Some x) (au_events s);
          r2 = when_truthy (qy_deviceId q) (\<lambda>x e. en_deviceId (ev_entry e) = Some x) r1;
          r3 = when_truthy (qy_actorType q) (\<lambda>x e. actor_name (en_actorType (ev_entry e)) = x) r2;
          r4 = when_truthy (qy_actorId q) (\<lambda>x e. en_actorId (ev_entry e) = x) r3;
          r5 = when_truthy (qy_decision q) (\<lambda>x e. audit_decision_name (en_decision (ev_entry e)) = x) r4;
          r6 = (case qy_fromSequence q of None \<Rightarrow> r5 | Some n \<Rightarrow> filter (\<lambda>e. ev_sequence e \<ge> n) r5)
      in case qy_limit q of None \<Rightarrow> r6 | Some l \<Rightarrow> if l = 0 then r6 else slice_last l r6)"

definition getHighestSequence :: "audit_store \<Rightarrow> nat" where
  "getHighestSequence s = (if au_events s = [] then 0 else ev_sequence (last (au_events s)))"

definition find_event :: "string \<Rightarrow> audit_store \<Rightarrow> audit_event option" where
  "find_event i s = List.find (\<lambda>e. ev_id e = i) (au_events s)"

text \<open>\<open>verifyChain\<close>: the index of the first event that does not follow from the one before it.\<close>

fun verify_from :: "(string \<Rightarrow> string) \<Rightarrow> nat \<Rightarrow> string \<Rightarrow> audit_event list \<Rightarrow> nat option" where
  "verify_from sha i prev [] = None"
| "verify_from sha i prev (e # es) =
     (if ev_previousHash e \<noteq> prev then Some i
      else if sha (canonicalize (ev_entry e) (ev_previousHash e)) \<noteq> ev_hash e then Some i
      else verify_from sha (Suc i) (ev_hash e) es)"

definition verifyChain :: "(string \<Rightarrow> string) \<Rightarrow> audit_event list \<Rightarrow> bool \<times> nat option" where
  "verifyChain sha es =
     (case verify_from sha 0 GENESIS_HASH es of None \<Rightarrow> (True, None) | Some i \<Rightarrow> (False, Some i))"

section \<open>The JSON text determines the entry\<close>

text \<open>An encoding is a prefix code when it can be read off the front of any text.\<close>

definition prefix_code :: "('a \<Rightarrow> string) \<Rightarrow> bool" where
  "prefix_code enc \<longleftrightarrow> (\<forall>a b x y. enc a @ x = enc b @ y \<longrightarrow> a = b \<and> x = y)"

lemma prefix_codeD: "prefix_code enc \<Longrightarrow> enc a @ x = enc b @ y \<Longrightarrow> a = b \<and> x = y"
  by (simp add: prefix_code_def)

lemma json_char_nonempty [simp]: "json_char c \<noteq> []"
  by (simp add: json_char_def Let_def)

lemma hex_digit_inj: "m < 16 \<Longrightarrow> n < 16 \<Longrightarrow> hex_digit m = hex_digit n \<Longrightarrow> m = n"
proof -
  have *: "(of_char (hex_digit k) :: nat) = (if k < 10 then 48 + k else 87 + k)" if "k < 16" for k
    using that by (simp add: hex_digit_def)
  assume "m < 16" "n < 16" "hex_digit m = hex_digit n"
  then have "(if m < 10 then 48 + m else 87 + m) = (if n < 10 then 48 + n else 87 + n)"
    using * [of m] * [of n] by simp
  then show "m = n" using \<open>m < 16\<close> \<open>n < 16\<close> by (simp split: if_splits)
qed

definition escape_code :: "nat \<Rightarrow> string" where
  "escape_code n =
     (if n = 34 then [CHR 0x22] else if n = 92 then [CHR 0x5C] else if n = 8 then ''b''
      else if n = 9 then ''t'' else if n = 10 then ''n'' else if n = 12 then ''f''
      else if n = 13 then ''r'' else ''u00'' @ [hex_digit (n div 16), hex_digit (n mod 16)])"

definition escaped :: "nat \<Rightarrow> bool" where
  "escaped n \<longleftrightarrow> n = 34 \<or> n = 92 \<or> n < 32"

lemma json_char_alt:
  "json_char c = (if escaped (of_char c) then CHR 0x5C # escape_code (of_char c) else [c])"
  by (simp add: json_char_def Let_def escape_code_def escaped_def)

lemma escape_code_inj:
  assumes "escaped m" "escaped n" "escape_code m @ x = escape_code n @ y"
  shows "m = n \<and> x = y"
proof (cases "hd (escape_code m) = CHR ''u'' \<and> hd (escape_code n) = CHR ''u''")
  case True
  then have lt: "m < 32" "n < 32" and
    m: "escape_code m = ''u00'' @ [hex_digit (m div 16), hex_digit (m mod 16)]" and
    n: "escape_code n = ''u00'' @ [hex_digit (n div 16), hex_digit (n mod 16)]"
    using assms(1,2) by (auto simp: escape_code_def escaped_def split: if_splits)
  from assms(3) m n have "hex_digit (m div 16) = hex_digit (n div 16)"
    "hex_digit (m mod 16) = hex_digit (n mod 16)" "x = y" by simp_all
  with lt have "m div 16 = n div 16" "m mod 16 = n mod 16"
    by (auto intro!: hex_digit_inj)
  with \<open>x = y\<close> show ?thesis by (metis mod_mult_div_eq)
next
  case False
  then show ?thesis using assms by (auto simp: escape_code_def split: if_splits)
qed

lemma json_char_first: "hd (json_char c) \<noteq> CHR 0x22"
proof -
  have "CHR 0x22 = c \<Longrightarrow> escaped (of_char c)" by (auto simp: escaped_def)
  then show ?thesis by (auto simp: json_char_alt)
qed

lemma json_char_code: "prefix_code json_char"
  unfolding prefix_code_def
proof (intro allI impI)
  fix a b x y assume eq: "json_char a @ x = json_char b @ y"
  have sp: "escaped (of_char (CHR 0x5C))" by (simp add: escaped_def)
  show "a = b \<and> x = y"
  proof (cases "escaped (of_char a) \<and> escaped (of_char b)")
    case True
    with eq have "escape_code (of_char a) @ x = escape_code (of_char b) @ y"
      by (simp add: json_char_alt)
    from escape_code_inj [OF _ _ this] True show ?thesis by simp
  next
    case False
    with eq sp show ?thesis by (auto simp: json_char_alt split: if_splits)
  qed
qed

lemma json_string_code: "prefix_code json_string"
  unfolding prefix_code_def
proof (intro allI)
  fix a b x y
  have "concat (map json_char a) @ CHR 0x22 # x = concat (map json_char b) @ CHR 0x22 # y \<Longrightarrow>
      a = b \<and> x = y"
  proof (induction a arbitrary: b)
    case Nil
    show ?case
    proof (cases b)
      case (Cons c b')
      with Nil have "hd (json_char c) = CHR 0x22"
        by (cases "json_char c") auto
      with json_char_first show ?thesis by blast
    qed (use Nil in simp)
  next
    case (Cons c a)
    show ?case
    proof (cases b)
      case Nil
      with Cons.prems have "hd (json_char c) = CHR 0x22"
        by (cases "json_char c") auto
      with json_char_first show ?thesis by blast
    next
      case (Cons d b')
      with Cons.prems have "json_char c @ concat (map json_char a) @ CHR 0x22 # x =
          json_char d @ concat (map json_char b') @ CHR 0x22 # y" by simp
      from prefix_codeD [OF json_char_code this] Cons.IH [of b'] show ?thesis
        unfolding \<open>b = d # b'\<close> by simp
    qed
  qed
  then show "json_string a @ x = json_string b @ y \<longrightarrow> a = b \<and> x = y"
    by (simp add: json_string_def)
qed

lemma js_join_code:
  assumes "prefix_code enc" "\<forall>a. hd (enc a) = q \<and> enc a \<noteq> []" "q \<noteq> CHR '']''"
  shows "js_join '','' (map enc xs) @ CHR '']'' # u = js_join '','' (map enc ys) @ CHR '']'' # v \<Longrightarrow>
    xs = ys \<and> u = v"
proof (induction xs arbitrary: ys)
  case Nil
  show ?case
  proof (cases ys)
    case (Cons y ys')
    then obtain r where "js_join '','' (map enc ys) @ CHR '']'' # v = enc y @ r"
      by (cases ys') auto
    with Nil have "enc y @ r = CHR '']'' # u" by simp
    then have "hd (enc y) = CHR '']''" using assms(2) [rule_format, of y] by (cases "enc y") auto
    with assms(2) [rule_format, of y] assms(3) show ?thesis by simp
  qed (use Nil in simp)
next
  case (Cons x xs)
  obtain r where r: "js_join '','' (map enc (x # xs)) @ CHR '']'' # u = enc x @ r" 
    and r': "r = (if xs = [] then CHR '']'' # u else CHR '','' # js_join '','' (map enc xs) @ CHR '']'' # u)"
    by (cases xs) auto
  show ?case
  proof (cases ys)
    case Nil
    with Cons.prems r have "enc x @ r = CHR '']'' # v" by simp
    then have "hd (enc x) = CHR '']''" using assms(2) [rule_format, of x] by (cases "enc x") auto
    with assms(2) [rule_format, of x] assms(3) show ?thesis by simp
  next
    case ys: (Cons y ys')
    obtain t where t: "js_join '','' (map enc ys) @ CHR '']'' # v = enc y @ t" 
      and t': "t = (if ys' = [] then CHR '']'' # v else CHR '','' # js_join '','' (map enc ys') @ CHR '']'' # v)"
      unfolding ys by (cases ys') auto
    from Cons.prems r t have "enc x @ r = enc y @ t" by simp
    from prefix_codeD [OF assms(1) this] have xy: "x = y" and rt: "r = t" by auto
    note tails = rt [unfolded r' t']
    show ?thesis
    proof (cases "xs = [] \<or> ys' = []")
      case True
      then show ?thesis using tails xy ys by (simp split: if_splits)
    next
      case False
      then have "js_join '','' (map enc xs) @ CHR '']'' # u = js_join '','' (map enc ys') @ CHR '']'' # v"
        using tails by simp
      from Cons.IH [OF this] xy ys show ?thesis by simp
    qed
  qed
qed

lemma json_string_hd: "hd (json_string a) = CHR 0x22 \<and> json_string a \<noteq> []"
  by (simp add: json_string_def)

lemma json_strings_code: "prefix_code json_strings"
  unfolding prefix_code_def
proof (intro allI impI)
  fix a b x y assume "json_strings a @ x = json_strings b @ y"
  then have "js_join '','' (map json_string a) @ CHR '']'' # x = js_join '','' (map json_string b) @ CHR '']'' # y"
    by (simp add: json_strings_def)
  from js_join_code [OF json_string_code _ _ this, of "CHR 0x22"] json_string_hd
  show "a = b \<and> x = y" by auto
qed

lemma actor_name_inj: "actor_name a = actor_name b \<Longrightarrow> a = b"
  by (cases a; cases b) simp_all

lemma audit_decision_name_inj: "audit_decision_name a = audit_decision_name b \<Longrightarrow> a = b"
  by (cases a; cases b) simp_all

definition key_text :: "string \<Rightarrow> string" where
  "key_text k = '','' @ json_string k @ '':''"

lemma json_opt_alt:
  "json_opt k enc v @ x = (case v of None \<Rightarrow> x | Some w \<Rightarrow> key_text k @ enc w @ x)"
  by (simp add: json_opt_def key_text_def split: option.split)

lemma opt_code:
  assumes "prefix_code enc" "json_opt k enc a @ x = json_opt k enc b @ y"
    "\<not> prefix (key_text k) x" "\<not> prefix (key_text k) y"
  shows "a = b \<and> x = y"
proof (cases a; cases b)
  fix v w assume "a = Some v" "b = Some w"
  with assms(2) have "enc v @ x = enc w @ y" by (simp add: json_opt_alt)
  from prefix_codeD [OF assms(1) this] \<open>a = Some v\<close> \<open>b = Some w\<close> show ?thesis by simp
qed (use assms in \<open>auto simp: json_opt_alt\<close>)

text \<open>The keys that may follow are told apart by their first letters.\<close>

lemma key_texts:
  "key_text ''deviceId'' = '',\"deviceId\":''" "key_text ''matchedRules'' = '',\"matchedRules\":''"
  "key_text ''policyVersion'' = '',\"policyVersion\":''"
  "key_text ''previousHash'' = '',\"previousHash\":''"
  "key_text ''sessionId'' = '',\"sessionId\":''" "key_text ''timestamp'' = '',\"timestamp\":''"
  by code_simp+

definition tail_timestamp :: "audit_entry \<Rightarrow> string" where
  "tail_timestamp e = json_opt ''timestamp'' json_string (Some (en_timestamp e)) @ ''}''"
definition tail_session :: "audit_entry \<Rightarrow> string" where
  "tail_session e = json_opt ''sessionId'' json_string (en_sessionId e) @ tail_timestamp e"
definition tail_previous :: "audit_entry \<Rightarrow> string \<Rightarrow> string" where
  "tail_previous e p = json_opt ''previousHash'' json_string (Some p) @ tail_session e"
definition tail_version :: "audit_entry \<Rightarrow> string \<Rightarrow> string" where
  "tail_version e p = json_opt ''policyVersion'' json_string (en_policyVersion e) @ tail_previous e p"
definition tail_rules :: "audit_entry \<Rightarrow> string \<Rightarrow> string" where
  "tail_rules e p = json_opt ''matchedRules'' json_strings (en_matchedRules e) @ tail_version e p"
definition tail_device :: "audit_entry \<Rightarrow> string \<Rightarrow> string" where
  "tail_device e p = json_opt ''deviceId'' json_string (en_deviceId e) @ tail_rules e p"

lemma canonicalize_tails:
  "canonicalize e p =
     (''{'' @ json_string ''action'' @ '':'') @ json_string (en_action e) @
     ('','' @ json_string ''actor'' @ '':{'' @ json_string ''type'' @ '':'') @
     json_string (actor_name (en_actorType e)) @
     ('','' @ json_string ''id'' @ '':'') @ json_string (en_actorId e) @
     (''},'' @ json_string ''decision'' @ '':'') @
     json_string (audit_decision_name (en_decision e)) @ tail_device e p"
  by (simp add: canonicalize_def tail_device_def tail_rules_def tail_version_def tail_previous_def
      tail_session_def tail_timestamp_def)

lemma tail_starts:
  "\<not> prefix (key_text ''sessionId'') (tail_timestamp e)"
  "\<not> prefix (key_text ''policyVersion'') (tail_previous e p)"
  "\<not> prefix (key_text ''matchedRules'') (tail_version e p)"
  "\<not> prefix (key_text ''deviceId'') (tail_rules e p)"
  by (simp_all add: tail_timestamp_def tail_previous_def tail_version_def tail_rules_def
      json_opt_alt key_texts split: option.split)

lemma tail_device_inj:
  assumes "tail_device e p = tail_device f q"
  shows "en_deviceId e = en_deviceId f \<and> en_matchedRules e = en_matchedRules f \<and>
    en_policyVersion e = en_policyVersion f \<and> p = q \<and> en_sessionId e = en_sessionId f \<and>
    en_timestamp e = en_timestamp f"
proof -
  have d: "en_deviceId e = en_deviceId f \<and> tail_rules e p = tail_rules f q"
    by (rule opt_code [OF json_string_code assms [unfolded tail_device_def] tail_starts(4,4)])
  have r: "en_matchedRules e = en_matchedRules f \<and> tail_version e p = tail_version f q"
    by (rule opt_code [OF json_strings_code d [THEN conjunct2, unfolded tail_rules_def] tail_starts(3,3)])
  have v: "en_policyVersion e = en_policyVersion f \<and> tail_previous e p = tail_previous f q"
    by (rule opt_code [OF json_string_code r [THEN conjunct2, unfolded tail_version_def] tail_starts(2,2)])
  have "json_string p @ tail_session e = json_string q @ tail_session f"
    using v by (simp add: tail_previous_def json_opt_alt)
  from prefix_codeD [OF json_string_code this] have p: "p = q \<and> tail_session e = tail_session f" .
  have s: "en_sessionId e = en_sessionId f \<and> tail_timestamp e = tail_timestamp f"
    by (rule opt_code [OF json_string_code p [THEN conjunct2, unfolded tail_session_def] tail_starts(1,1)])
  have "json_string (en_timestamp e) @ ''}'' = json_string (en_timestamp f) @ ''}''"
    using s by (simp add: tail_timestamp_def json_opt_alt)
  from prefix_codeD [OF json_string_code this] d r v p s show ?thesis by blast
qed

lemma canonicalize_inj:
  "canonicalize e p = canonicalize f q \<longleftrightarrow> e = f \<and> p = q"
proof
  assume "canonicalize e p = canonicalize f q"
  note eq = this [unfolded canonicalize_tails same_append_eq]
  note a = prefix_codeD [OF json_string_code eq, unfolded same_append_eq]
  note t = prefix_codeD [OF json_string_code a [THEN conjunct2], unfolded same_append_eq]
  note i = prefix_codeD [OF json_string_code t [THEN conjunct2], unfolded same_append_eq]
  note d = prefix_codeD [OF json_string_code i [THEN conjunct2]]
  note r = tail_device_inj [OF d [THEN conjunct2]]
  have "e = f"
    using a t i d r actor_name_inj audit_decision_name_inj by (intro audit_entry.equality) auto
  with r show "e = f \<and> p = q" by blast
qed simp

text \<open>
  The text that is hashed is unambiguous: two entries with their previous hashes have the same
  canonical JSON only if they agree in every field, whatever strings they hold.
\<close>

theorem canonicalize_injective:
  "canonicalize e p = canonicalize f q \<longleftrightarrow> e = f \<and> p = q"
  by (rule canonicalize_inj)

section \<open>The chain\<close>

definition broken :: "(string \<Rightarrow> string) \<Rightarrow> audit_event list \<Rightarrow> nat \<Rightarrow> bool" where
  "broken sha es i \<longleftrightarrow>
     ev_previousHash (es ! i) \<noteq> (if i = 0 then GENESIS_HASH else ev_hash (es ! (i - 1))) \<or>
     sha (canonicalize (ev_entry (es ! i)) (ev_previousHash (es ! i))) \<noteq> ev_hash (es ! i)"

lemma verify_from_snoc:
  "verify_from sha i p (es @ [e]) =
     (case verify_from sha i p es of Some j \<Rightarrow> Some j
      | None \<Rightarrow> if ev_previousHash e = (if es = [] then p else ev_hash (last es)) \<and>
                  sha (canonicalize (ev_entry e) (ev_previousHash e)) = ev_hash e
               then None else Some (i + length es))"
proof (induction es arbitrary: i p)
  case Nil
  then show ?case by simp
next
  case (Cons a es)
  show ?case
  proof (cases "verify_from sha (Suc i) (ev_hash a) es")
    case None
    then show ?thesis using Cons [of "Suc i" "ev_hash a"] by (cases "es = []") auto
  next
    case (Some j)
    then show ?thesis using Cons [of "Suc i" "ev_hash a"] by simp
  qed
qed

lemma verify_from_spec:
  "case verify_from sha 0 GENESIS_HASH es of
     None \<Rightarrow> \<forall>j < length es. \<not> broken sha es j
   | Some i \<Rightarrow> i < length es \<and> broken sha es i \<and> (\<forall>j < i. \<not> broken sha es j)"
proof (induction es rule: rev_induct)
  case Nil
  then show ?case by simp
next
  case (snoc e es)
  have old: "broken sha (es @ [e]) j = broken sha es j" if "j < length es" for j
    using that by (auto simp: broken_def nth_append)
  have new: "broken sha (es @ [e]) (length es) \<longleftrightarrow>
      \<not> (ev_previousHash e = (if es = [] then GENESIS_HASH else ev_hash (last es)) \<and>
         sha (canonicalize (ev_entry e) (ev_previousHash e)) = ev_hash e)"
    by (auto simp: broken_def nth_append last_conv_nth)
  show ?case
  proof (cases "verify_from sha 0 GENESIS_HASH es")
    case None
    with snoc old new show ?thesis by (auto simp: verify_from_snoc less_Suc_eq)
  next
    case (Some i)
    with snoc old show ?thesis by (auto simp: verify_from_snoc)
  qed
qed

text \<open>
  The verifier reports the first event whose previous hash or own hash is not what the chain
  prescribes, and reports a valid chain only if there is none.
\<close>

theorem verifyChain_first_broken:
  "verifyChain sha es = (True, None) \<and> (\<forall>j < length es. \<not> broken sha es j) \<or>
   (\<exists>i < length es. verifyChain sha es = (False, Some i) \<and> broken sha es i \<and>
      (\<forall>j < i. \<not> broken sha es j))"
  using verify_from_spec [of es sha] by (auto simp: verifyChain_def split: option.splits)

definition broken_log :: "audit_event list" where
  "broken_log = [\<lparr>ev_id = [], ev_sequence = 1,
     ev_entry = \<lparr>en_timestamp = [], en_actorType = Actor_System, en_actorId = [], en_sessionId = None,
       en_deviceId = None, en_action = [], en_decision = Aud_Allow, en_policyVersion = None,
       en_matchedRules = None\<rparr>,
     ev_previousHash = [], ev_hash = []\<rparr>]"

theorem verifyChain_first_broken_witness: "verifyChain (\<lambda>x. x) broken_log = (False, Some 0)"
proof -
  have "broken (\<lambda>x. x) broken_log 0" "length broken_log = 1"
    by (simp_all add: broken_def broken_log_def GENESIS_HASH_def numeral_eq_Suc)
  with verifyChain_first_broken [of "\<lambda>x. x" broken_log] show ?thesis by auto
qed

definition intact :: "(string \<Rightarrow> string) \<Rightarrow> audit_event list \<Rightarrow> bool" where
  "intact sha es \<longleftrightarrow> verify_from sha 0 GENESIS_HASH es = None"

lemma intact_snoc:
  "intact sha (es @ [e]) \<longleftrightarrow> intact sha es \<and> ev_previousHash e = last_hash es \<and>
     sha (canonicalize (ev_entry e) (ev_previousHash e)) = ev_hash e"
  by (auto simp: intact_def verify_from_snoc last_hash_def split: option.split)

definition audit_inv :: "(string \<Rightarrow> string) \<Rightarrow> audit_store \<Rightarrow> bool" where
  "audit_inv sha s \<longleftrightarrow> intact sha (au_events s) \<and>
     map ev_sequence (au_events s) = [1..<Suc (length (au_events s))] \<and>
     au_nextSequence s = Suc (length (au_events s))"

definition audit_before :: "audit_store \<Rightarrow> audit_store \<Rightarrow> bool" where
  "audit_before s t \<longleftrightarrow> prefix (au_events s) (au_events t)"

definition audit_step ::
  "(string \<Rightarrow> string) \<Rightarrow> audit_store \<Rightarrow> string \<times> string \<times> audit_entry \<Rightarrow> audit_store" where
  "audit_step sha s c = (case c of (uuid, now, e) \<Rightarrow> snd (record_audit sha uuid now e s))"

lemma append_event_inv: "audit_inv sha s \<Longrightarrow> audit_inv sha (snd (append_event sha uuid e s))"
  by (simp add: audit_inv_def append_event_def Let_def intact_snoc)

interpretation audit: progress_system "audit_step sha" "audit_inv sha" audit_before for sha
proof unfold_locales
  fix s t u and e :: "string \<times> string \<times> audit_entry"
  show "audit_inv sha s \<Longrightarrow> audit_inv sha (audit_step sha s e)"
    by (simp add: audit_step_def record_audit_def append_event_inv split: prod.split)
  show "audit_before s s" by (simp add: audit_before_def)
  show "audit_before s t \<Longrightarrow> audit_before t u \<Longrightarrow> audit_before s u"
    unfolding audit_before_def by (rule prefix_order.trans)
  show "audit_before s (audit_step sha s e)"
    by (simp add: audit_before_def audit_step_def record_audit_def append_event_def Let_def
        split: prod.split)
qed

text \<open>
  C9: The log is append-only and its chain stays intact: after any sequence of records the earlier
  events are still there, verification succeeds, and the sequence numbers are 1, 2, 3 and so on.
\<close>

theorem audit_log_append_only:
  assumes "audit_inv sha s"
  shows "prefix (au_events s) (au_events (foldl (audit_step sha) s cs)) \<and>
    verifyChain sha (au_events (foldl (audit_step sha) s cs)) = (True, None) \<and>
    (let es = au_events (foldl (audit_step sha) s cs)
     in map ev_sequence es = [1..<Suc (length es)])"
  using audit.run_inv [OF assms, of cs] audit.run_before [OF assms, of cs]
  by (simp add: audit_inv_def audit_before_def intact_def verifyChain_def Let_def)

lemma audit_inv_empty: "audit_inv sha empty_audit"
  by (simp add: audit_inv_def empty_audit_def intact_def)

definition sample_entry :: audit_entry where
  "sample_entry = \<lparr>en_timestamp = ''2026-01-01'', en_actorType = Actor_User, en_actorId = ''u1'',
     en_sessionId = None, en_deviceId = Some [], en_action = ''policy.version_created'',
     en_decision = Aud_Allow, en_policyVersion = Some ''p_1'', en_matchedRules = None\<rparr>"

theorem audit_log_append_only_witness:
  "verifyChain (\<lambda>x. x) (au_events (foldl (audit_step (\<lambda>x. x)) empty_audit
     [(''1'', ''t1'', sample_entry), (''2'', ''t2'', sample_entry)])) = (True, None)"
  using audit_log_append_only [OF audit_inv_empty] by blast

lemma verify_from_renumber:
  "verify_from sha i p (map (\<lambda>e. e\<lparr>ev_id := f e, ev_sequence := g e\<rparr>) es) = verify_from sha i p es"
  by (induction es arbitrary: i p) simp_all

lemma verify_from_take: "verify_from sha i p es = None \<Longrightarrow> verify_from sha i p (take n es) = None"
  by (induction es arbitrary: i p n) (auto split: if_splits simp: take_Cons')

definition hashed_texts :: "audit_event list \<Rightarrow> string set" where
  "hashed_texts es = (\<lambda>e. canonicalize (ev_entry e) (ev_previousHash e)) ` set es"

lemma same_chain:
  assumes "intact sha es" "intact sha fs" "last_hash es = last_hash fs"
    "inj_on sha (hashed_texts es \<union> hashed_texts fs)"
    "GENESIS_HASH \<notin> sha ` (hashed_texts es \<union> hashed_texts fs)"
  shows "map ev_entry es = map ev_entry fs \<and> map ev_hash es = map ev_hash fs"
  using assms
proof (induction es arbitrary: fs rule: rev_induct)
  case Nil
  show ?case
  proof (cases fs rule: rev_cases)
    case (snoc gs g)
    with Nil show ?thesis by (auto simp: intact_snoc last_hash_def hashed_texts_def)
  qed simp
next
  case (snoc e es)
  show ?case
  proof (cases fs rule: rev_cases)
    case Nil
    with snoc.prems show ?thesis by (auto simp: intact_snoc last_hash_def hashed_texts_def)
  next
    case fs: (snoc gs g)
    let ?T = "hashed_texts (es @ [e]) \<union> hashed_texts fs"
    have e: "intact sha es" "ev_previousHash e = last_hash es"
      "sha (canonicalize (ev_entry e) (ev_previousHash e)) = ev_hash e"
      using snoc.prems(1) unfolding intact_snoc by blast+
    have g: "intact sha gs" "ev_previousHash g = last_hash gs"
      "sha (canonicalize (ev_entry g) (ev_previousHash g)) = ev_hash g"
      using snoc.prems(2) unfolding fs intact_snoc by blast+
    have h: "ev_hash e = ev_hash g" using snoc.prems(3) fs by (simp add: last_hash_def)
    have "canonicalize (ev_entry e) (ev_previousHash e) = canonicalize (ev_entry g) (ev_previousHash g)"
    proof (rule inj_onD [OF snoc.prems(4)])
      show "sha (canonicalize (ev_entry e) (ev_previousHash e)) =
          sha (canonicalize (ev_entry g) (ev_previousHash g))" unfolding e(3) g(3) by (rule h)
    qed (simp_all add: fs hashed_texts_def)
    then have eg: "ev_entry e = ev_entry g \<and> ev_previousHash e = ev_previousHash g"
      unfolding canonicalize_inj .
    then have same: "ev_entry e = ev_entry g" "last_hash es = last_hash gs"
      unfolding e(2) g(2) by blast+
    have sub: "hashed_texts es \<union> hashed_texts gs \<subseteq> ?T" using fs by (auto simp: hashed_texts_def)
    have "map ev_entry es = map ev_entry gs \<and> map ev_hash es = map ev_hash gs"
      using snoc.IH [OF e(1) g(1) same(2) inj_on_subset [OF snoc.prems(4) sub]]
        snoc.prems(5) sub by blast
    with same h fs show ?thesis by simp
  qed
qed

text \<open>
  C8: Tampering is detected: given the hash of the last event, no other list of entries verifies,
  as long as SHA-256 does not collide, and does not hit the genesis value, on the texts hashed.
\<close>

theorem tampering_is_detected:
  assumes "verifyChain sha es = (True, None)" "verifyChain sha fs = (True, None)"
    and "last_hash es = last_hash fs"
    and "inj_on sha (hashed_texts es \<union> hashed_texts fs)"
    and "GENESIS_HASH \<notin> sha ` (hashed_texts es \<union> hashed_texts fs)"
  shows "map ev_entry es = map ev_entry fs \<and> map ev_hash es = map ev_hash fs"
  using same_chain [OF _ _ assms(3-5)] assms(1,2)
  by (simp add: intact_def verifyChain_def split: option.splits)

definition sample_log :: "audit_event list" where
  "sample_log = au_events (foldl (audit_step (\<lambda>x. CHR ''h'' # x)) empty_audit
     [(''1'', ''t1'', sample_entry), (''2'', ''t2'', sample_entry)])"

definition renumbered_log :: "audit_event list" where
  "renumbered_log = map (\<lambda>e. e\<lparr>ev_id := ''forged'', ev_sequence := 7\<rparr>) sample_log"

lemma sample_log_intact: "verify_from (\<lambda>x. CHR ''h'' # x) 0 GENESIS_HASH sample_log = None"
  using audit.run_inv [OF audit_inv_empty] unfolding sample_log_def audit_inv_def intact_def by blast

theorem tampering_is_detected_witness:
  "map ev_entry sample_log = map ev_entry renumbered_log"
proof -
  have "inj_on (\<lambda>x. CHR ''h'' # x) A" for A by (simp add: inj_on_def)
  moreover have "GENESIS_HASH \<notin> (\<lambda>x. CHR ''h'' # x) ` A" for A
    by (auto simp: GENESIS_HASH_def numeral_eq_Suc)
  moreover have "verifyChain (\<lambda>x. CHR ''h'' # x) sample_log = (True, None)"
    by (simp add: verifyChain_def sample_log_intact)
  moreover have "verifyChain (\<lambda>x. CHR ''h'' # x) renumbered_log = (True, None)"
    by (simp add: verifyChain_def renumbered_log_def verify_from_renumber sample_log_intact)
  moreover have "last_hash sample_log = last_hash renumbered_log"
    by (simp add: renumbered_log_def last_hash_def last_map)
  ultimately show ?thesis
    using tampering_is_detected [of "\<lambda>x. CHR ''h'' # x" sample_log renumbered_log] by blast
qed

section \<open>What verification does not see\<close>

text \<open>
  Verification alone does not see a changed event id or sequence number, nor that the latest
  events were cut off: all of these leave an intact chain intact.
\<close>

theorem verification_blind_spots:
  assumes "verifyChain sha es = (True, None)"
  shows "verifyChain sha (take n (map (\<lambda>e. e\<lparr>ev_id := f e, ev_sequence := g e\<rparr>) es)) = (True, None)"
proof -
  have "verify_from sha 0 GENESIS_HASH es = None"
    using assms by (simp add: verifyChain_def split: option.splits)
  then have "verify_from sha 0 GENESIS_HASH
      (take n (map (\<lambda>e. e\<lparr>ev_id := f e, ev_sequence := g e\<rparr>) es)) = None"
    by (intro verify_from_take) (simp only: verify_from_renumber)
  then show ?thesis by (simp add: verifyChain_def)
qed

theorem verification_blind_spots_witness:
  "verifyChain (\<lambda>x. CHR ''h'' # x) (take 1 (map (\<lambda>e. e\<lparr>ev_id := ''forged'', ev_sequence := 9\<rparr>)
     sample_log)) = (True, None)"
  by (rule verification_blind_spots) (simp add: verifyChain_def sample_log_intact)

end
