(* ===== verification/Remembered.thy ===== *)
theory Remembered
  imports PolicyEngine Approvals
begin

text \<open>
  "Approve and remember" (\<open>control-plane/src/policy/remembered-approvals.ts\<close>): standing rules made
  from granted approvals, kept in the document store, and matched before a person is asked.  Times
  are integers (milliseconds) where the code keeps ISO strings; the ellipsis of a shortened command
  is its UTF-8 bytes.  The clock is an argument; a random identifier too.
\<close>

section \<open>Data\<close>

datatype remember_scope = Scope_Session | Scope_Project

record remembered =
  rm_id :: string
  rm_userId :: string
  rm_capability :: string
  rm_command :: "string option"
  rm_resource :: "string option"
  rm_agentId :: "string option"
  rm_projectId :: "string option"
  rm_sessionId :: "string option"
  rm_scope :: remember_scope
  rm_maxRiskLevel :: risk_class
  rm_description :: string
  rm_createdAt :: int
  rm_createdFromApprovalId :: string
  rm_expiresAt :: "int option"
  rm_uses :: nat
  rm_lastUsedAt :: "int option"

record remember_input =
  in_userId :: string
  in_capability :: string
  in_riskClass :: risk_class
  in_command :: "string option"
  in_resource :: "string option"
  in_agentId :: "string option"
  in_projectId :: "string option"
  in_sessionId :: "string option"

text \<open>What the code reads of a session.\<close>

record session_ref =
  se_id :: string
  se_agentId :: "string option"
  se_projectId :: "string option"

datatype remember_error =
    Not_Granted | Risk_Unknown | Is_Critical | Not_A_Capability | Nothing_Exact

text \<open>The documents of the collection, in insertion order: owner and rule by identifier.\<close>

type_synonym remember_store = "(string, string \<times> remembered) jmap"

section \<open>Helpers\<close>

definition PROJECT_RULE_DAYS :: int where "PROJECT_RULE_DAYS = 30"

definition DAY_MS :: int where "DAY_MS = 86400000"

fun isRiskClass :: "js_value \<Rightarrow> risk_class option" where
  "isRiskClass (JS_Str s) =
     (if s = ''low'' then Some Low else if s = ''medium'' then Some Medium
      else if s = ''high'' then Some High else if s = ''critical'' then Some Critical else None)"
| "isRiskClass _ = None"

definition all_capabilities :: "capability list" where
  "all_capabilities =
     [Filesystem_Read, Filesystem_Write, Filesystem_Delete, Process_Exec, Network_Access,
      Package_Install, Git_Commit, Git_Push, Git_Branch_Create, Git_Pull_Request_Create,
      Deployment_Execute, Secret_Read]"

fun isCapability :: "js_value \<Rightarrow> bool" where
  "isCapability (JS_Str s) = (s \<in> set (map capability_name all_capabilities))"
| "isCapability _ = False"

fun js_string :: "js_value \<Rightarrow> string option" where
  "js_string (JS_Str s) = Some s"
| "js_string _ = None"

fun js_member :: "js_value \<Rightarrow> string \<Rightarrow> js_value" where
  "js_member (JS_Object kvs) k = js_field (Some kvs) k"
| "js_member _ k = JS_Undefined"

fun collapseSpace :: "string \<Rightarrow> string" where
  "collapseSpace [] = []"
| "collapseSpace (c # s) =
     (if js_ws c
      then (if (case s of [] \<Rightarrow> False | d # _ \<Rightarrow> js_ws d) then collapseSpace s
            else CHR '' '' # collapseSpace s)
      else c # collapseSpace s)"

definition normaliseCommand :: "string \<Rightarrow> string" where
  "normaliseCommand c = collapseSpace (js_trim c)"

definition VERBS :: "(string \<times> string) list" where
  "VERBS = [(''filesystem.read'', ''read''), (''filesystem.write'', ''write''),
     (''filesystem.delete'', ''delete''), (''network.access'', ''connect to''),
     (''package.install'', ''install''), (''git.commit'', ''commit to''),
     (''git.push'', ''push to''), (''git.branch_create'', ''create branch''),
     (''git.pull_request_create'', ''open pull request''), (''secret.read'', ''read secret''),
     (''deployment.execute'', ''deploy to'')]"

definition describe ::
  "string option \<Rightarrow> string \<Rightarrow> string option \<Rightarrow> string option \<Rightarrow> remember_scope \<Rightarrow> string" where
  "describe agent cap command resource scope =
     (let who = (case agent of None \<Rightarrow> ''This agent'' | Some a \<Rightarrow> a);
          what = (if truthy command
            then ''run `'' @ (if length (the command) > 60
                then take 59 (the command) @ [CHR 0xE2, CHR 0x80, CHR 0xA6] else the command) @ ''`''
            else (case resource of
                None \<Rightarrow> (case map_of VERBS cap of None \<Rightarrow> cap | Some v \<Rightarrow> v) @ '' undefined''
              | Some r \<Rightarrow> if prefix ''orchestration:'' r
                  then ''start '' @ drop (length ''orchestration:'') r @ '' steps''
                  else (case map_of VERBS cap of None \<Rightarrow> cap | Some v \<Rightarrow> v) @ '' '' @ r));
          place = (if scope = Scope_Project then ''in this project for 30 days'' else ''in this session'')
      in who @ '' may '' @ what @ '' '' @ place)"

section \<open>Operations\<close>

definition remember_level :: "approval \<Rightarrow> risk_class option" where
  "remember_level ap =
     (case isRiskClass (js_member (js_field (ap_details ap) ''risk'') ''level'') of
        Some l \<Rightarrow> Some l
      | None \<Rightarrow> isRiskClass (js_field (ap_details ap) ''riskClass''))"

definition remember_capability :: "approval \<Rightarrow> string option" where
  "remember_capability ap =
     (if isCapability (js_field (ap_details ap) ''capability'')
      then js_string (js_field (ap_details ap) ''capability'')
      else if isCapability (JS_Str (ap_actionType ap)) then Some (ap_actionType ap)
      else None)"

definition make_rule ::
  "int \<Rightarrow> string \<Rightarrow> approval \<Rightarrow> session_ref \<Rightarrow> remember_scope \<Rightarrow> risk_class \<Rightarrow> string
     \<Rightarrow> string option \<Rightarrow> string option \<Rightarrow> remembered" where
  "make_rule now uuid ap se scope l c command resource =
     (let project = (scope = Scope_Project \<and> truthy (se_projectId se));
          scope' = (if project then Scope_Project else Scope_Session) in
      \<lparr>rm_id = ''rem_'' @ uuid, rm_userId = ap_userId ap, rm_capability = c,
       rm_command = (if truthy command then command else None),
       rm_resource = (if truthy command then None else resource),
       rm_agentId = (if truthy (se_agentId se) then se_agentId se else None),
       rm_projectId = (if project then se_projectId se else None),
       rm_sessionId = (if project then None else Some (se_id se)),
       rm_scope = scope', rm_maxRiskLevel = l,
       rm_description = describe (se_agentId se) c command resource scope',
       rm_createdAt = now, rm_createdFromApprovalId = ap_id ap,
       rm_expiresAt = (if project then Some (now + PROJECT_RULE_DAYS * DAY_MS) else None),
       rm_uses = 0, rm_lastUsedAt = None\<rparr>)"

definition remember ::
  "int \<Rightarrow> string \<Rightarrow> approval \<Rightarrow> session_ref \<Rightarrow> remember_scope \<Rightarrow> remember_store
     \<Rightarrow> (remember_error + remembered) \<times> remember_store" where
  "remember now uuid ap se scope st =
     (if ap_status ap \<noteq> Granted then (Inl Not_Granted, st)
      else case remember_level ap of
        None \<Rightarrow> (Inl Risk_Unknown, st)
      | Some l \<Rightarrow>
          if l = Critical then (Inl Is_Critical, st)
          else (case remember_capability ap of
              None \<Rightarrow> (Inl Not_A_Capability, st)
            | Some c \<Rightarrow>
                (let command = map_option normaliseCommand
                       (js_string (js_field (ap_details ap) ''command''));
                     resource = js_string (js_field (ap_details ap) ''resource'')
                 in if \<not> truthy command \<and> \<not> truthy resource then (Inl Nothing_Exact, st)
                    else
                      (let rule = make_rule now uuid ap se scope l c command resource in
                       (Inr rule, AList.update (rm_id rule) (rm_userId rule, rule) st)))))"

definition list_rules :: "int \<Rightarrow> string \<Rightarrow> remember_store \<Rightarrow> remembered list" where
  "list_rules now user st =
     js_sort (\<lambda>a b. rm_createdAt b - rm_createdAt a)
       (filter (\<lambda>r. case rm_expiresAt r of None \<Rightarrow> True | Some e \<Rightarrow> e > now)
         (map (snd \<circ> snd) (filter (\<lambda>(i, u, r). u = user) st)))"

definition revoke_rule ::
  "string \<Rightarrow> string \<Rightarrow> remember_store \<Rightarrow> remembered option \<times> remember_store" where
  "revoke_rule user i st =
     (case map_of st i of
        None \<Rightarrow> (None, st)
      | Some (u, r) \<Rightarrow> if u \<noteq> user then (None, st) else (Some r, AList.delete i st))"

text \<open>The checks of the matching loop, in the order of its \<open>continue\<close> statements.\<close>

definition rule_applies :: "remember_input \<Rightarrow> remembered \<Rightarrow> bool" where
  "rule_applies inp r =
     (let command = (if truthy (in_command inp) then Some (normaliseCommand (the (in_command inp)))
                     else None) in
      if rm_capability r \<noteq> in_capability inp then False
      else if RISK_ORDER (in_riskClass inp) > RISK_ORDER (rm_maxRiskLevel r) then False
      else if (if rm_command r \<noteq> None then rm_command r \<noteq> command
               else rm_resource r \<noteq> in_resource inp) then False
      else if truthy (rm_agentId r) \<and> rm_agentId r \<noteq> in_agentId inp then False
      else if truthy (rm_projectId r) \<and> rm_projectId r \<noteq> in_projectId inp then False
      else if truthy (rm_sessionId r) \<and> rm_sessionId r \<noteq> in_sessionId inp then False
      else True)"

definition match_rule ::
  "int \<Rightarrow> remember_input \<Rightarrow> remember_store \<Rightarrow> remembered option \<times> remember_store" where
  "match_rule now inp st =
     (if \<not> truthy (in_command inp) \<and> \<not> truthy (in_resource inp) then (None, st)
      else case List.find (rule_applies inp) (list_rules now (in_userId inp) st) of
        None \<Rightarrow> (None, st)
      | Some r \<Rightarrow>
          (let used = r\<lparr>rm_uses := Suc (rm_uses r), rm_lastUsedAt := Some now\<rparr> in
           (Some used, AList.update (rm_id r) (rm_userId r, used) st)))"

datatype remember_op =
    Rm_Remember int string approval session_ref remember_scope
  | Rm_Revoke string string
  | Rm_Match int remember_input

fun remember_step :: "remember_store \<Rightarrow> remember_op \<Rightarrow> remember_store" where
  "remember_step st (Rm_Remember now uuid ap se sc) = snd (remember now uuid ap se sc st)"
| "remember_step st (Rm_Revoke u i) = snd (revoke_rule u i st)"
| "remember_step st (Rm_Match now inp) = snd (match_rule now inp st)"

section \<open>What every stored rule satisfies\<close>

definition narrow :: "remembered \<Rightarrow> bool" where
  "narrow r \<longleftrightarrow>
     rm_maxRiskLevel r \<noteq> Critical \<and>
     rm_capability r \<in> set (map capability_name all_capabilities) \<and>
     (truthy (rm_command r) \<and> rm_resource r = None \<or> rm_command r = None \<and> truthy (rm_resource r)) \<and>
     (case rm_scope r of
        Scope_Session \<Rightarrow> rm_sessionId r \<noteq> None \<and> rm_projectId r = None
      | Scope_Project \<Rightarrow> truthy (rm_projectId r) \<and> rm_sessionId r = None \<and>
          rm_expiresAt r = Some (rm_createdAt r + PROJECT_RULE_DAYS * DAY_MS))"

definition remember_inv :: "remember_store \<Rightarrow> bool" where
  "remember_inv st \<longleftrightarrow> jmap_ok st \<and>
     (\<forall>(i, u, r) \<in> set st. rm_id r = i \<and> rm_userId r = u \<and> narrow r)"

lemma remember_inv_update:
  assumes "remember_inv st" "rm_id r = i" "rm_userId r = u" "narrow r"
  shows "remember_inv (AList.update i (u, r) st)"
  unfolding remember_inv_def
proof (rule conjI [OF distinct_update jmap_update_ball])
  show "jmap_ok st" "jmap_ok st" "\<forall>(i, u, r) \<in> set st. rm_id r = i \<and> rm_userId r = u \<and> narrow r"
    using assms(1) by (simp_all add: remember_inv_def)
qed (use assms in simp)

lemma isCapability_name: "isCapability v \<Longrightarrow> js_string v = Some c \<Longrightarrow>
    c \<in> set (map capability_name all_capabilities)"
  by (cases v) auto

section \<open>Every operation keeps it\<close>

lemma remember_capability_known:
  "remember_capability ap = Some c \<Longrightarrow> c \<in> set (map capability_name all_capabilities)"
  by (auto simp: remember_capability_def dest: isCapability_name split: if_splits)

lemma make_rule_narrow:
  assumes "l \<noteq> Critical" "c \<in> set (map capability_name all_capabilities)"
    "truthy command \<or> truthy resource"
  shows "narrow (make_rule now uuid ap se scope l c command resource)"
  using assms unfolding narrow_def make_rule_def Let_def
  by (cases "scope = Scope_Project \<and> truthy (se_projectId se)") auto

lemma remember_ok:
  assumes "fst (remember now uuid ap se scope st) = Inr r"
  shows "ap_status ap = Granted \<and> narrow r \<and> rm_userId r = ap_userId ap \<and>
    snd (remember now uuid ap se scope st) = AList.update (rm_id r) (rm_userId r, r) st"
proof -
  let ?cmd = "map_option normaliseCommand (js_string (js_field (ap_details ap) ''command''))"
  let ?res = "js_string (js_field (ap_details ap) ''resource'')"
  from assms obtain l c where g: "ap_status ap = Granted" and l: "remember_level ap = Some l" "l \<noteq> Critical"
    and c: "remember_capability ap = Some c" and t: "truthy ?cmd \<or> truthy ?res"
    by (auto simp: remember_def Let_def split: if_splits option.splits)
  then have m: "remember now uuid ap se scope st =
      (let rule = make_rule now uuid ap se scope l c ?cmd ?res in
       (Inr rule, AList.update (rm_id rule) (rm_userId rule, rule) st))"
    unfolding remember_def by (simp only: Let_def if_False if_True option.case simp_thms split: if_split) blast
  with assms have "r = make_rule now uuid ap se scope l c ?cmd ?res" by (simp only: Let_def fst_conv sum.inject)
  moreover have "narrow (make_rule now uuid ap se scope l c ?cmd ?res)"
    by (rule make_rule_narrow [OF l(2) remember_capability_known [OF c] t])
  moreover have "rm_userId (make_rule now uuid ap se scope l c ?cmd ?res) = ap_userId ap"
    by (simp add: make_rule_def Let_def)
  ultimately show ?thesis using g m by (simp only: Let_def snd_conv simp_thms)
qed

lemma remember_error:
  "fst (remember now uuid ap se scope st) = Inl e \<Longrightarrow> snd (remember now uuid ap se scope st) = st"
  by (auto simp: remember_def Let_def split: if_splits option.splits)

lemma list_rules_stored:
  "r \<in> set (list_rules now u st) \<longleftrightarrow>
     (\<exists>i. (i, u, r) \<in> set st) \<and> (case rm_expiresAt r of None \<Rightarrow> True | Some e \<Rightarrow> e > now)"
  by (force simp: list_rules_def)

lemma match_rule_cases:
  obtains "match_rule now inp st = (None, st)"
  | r where "r \<in> set (list_rules now (in_userId inp) st)" "rule_applies inp r"
      "truthy (in_command inp) \<or> truthy (in_resource inp)"
      "match_rule now inp st = (Some (r\<lparr>rm_uses := Suc (rm_uses r), rm_lastUsedAt := Some now\<rparr>),
         AList.update (rm_id r)
           (rm_userId r, r\<lparr>rm_uses := Suc (rm_uses r), rm_lastUsedAt := Some now\<rparr>) st)"
proof (cases "List.find (rule_applies inp) (list_rules now (in_userId inp) st)")
  case None
  then show ?thesis using that(1) by (simp add: match_rule_def)
next
  case (Some r)
  then have "r \<in> set (list_rules now (in_userId inp) st)" "rule_applies inp r"
    by (auto simp: find_Some_iff)
  with Some that show ?thesis
    by (cases "\<not> truthy (in_command inp) \<and> \<not> truthy (in_resource inp)")
      (simp_all add: match_rule_def Let_def)
qed

lemma narrow_used: "narrow (r\<lparr>rm_uses := n, rm_lastUsedAt := t\<rparr>) = narrow r"
  by (simp add: narrow_def split: remember_scope.split)

lemma remember_step_inv:
  assumes inv: "remember_inv st" shows "remember_inv (remember_step st e)"
proof (cases e)
  case (Rm_Remember now uuid ap se sc)
  show ?thesis
  proof (cases "fst (remember now uuid ap se sc st)")
    case (Inl x)
    then show ?thesis using inv Rm_Remember remember_error by simp
  next
    case (Inr r)
    from remember_ok [OF this] have r: "narrow r"
      "snd (remember now uuid ap se sc st) = AList.update (rm_id r) (rm_userId r, r) st" by blast+
    show ?thesis unfolding Rm_Remember remember_step.simps r(2)
      by (rule remember_inv_update [OF inv refl refl r(1)])
  qed
next
  case (Rm_Revoke u i)
  have "remember_inv (AList.delete i st)"
    unfolding remember_inv_def
    by (rule conjI [OF distinct_delete jmap_delete_ball]) (use inv in \<open>simp_all add: remember_inv_def\<close>)
  then show ?thesis using inv Rm_Revoke by (simp add: revoke_rule_def split: option.split)
next
  case (Rm_Match now inp)
  show ?thesis
  proof (cases rule: match_rule_cases [of now inp st])
    case 1
    then show ?thesis using inv Rm_Match by simp
  next
    case (2 r)
    then obtain i where "(i, in_userId inp, r) \<in> set st" unfolding list_rules_stored by blast
    then have "narrow r" using inv unfolding remember_inv_def by auto
    then have "remember_inv (AList.update (rm_id r)
        (rm_userId r, r\<lparr>rm_uses := Suc (rm_uses r), rm_lastUsedAt := Some now\<rparr>) st)"
      by (intro remember_inv_update [OF inv]) (simp_all add: narrow_used)
    then show ?thesis using 2 Rm_Match by simp
  qed
qed

interpretation remembering: transition_system remember_step remember_inv
  by unfold_locales (rule remember_step_inv)

lemma remember_inv_Nil: "remember_inv []"
  by (simp add: remember_inv_def)

lemma RISK_ORDER_le: "RISK_ORDER a \<le> RISK_ORDER Critical"
  by (cases a) simp_all

text \<open>What a match guarantees, for a store that satisfies the invariant.\<close>

lemma match_rule_narrow:
  assumes inv: "remember_inv st" and m: "match_rule now inp st = (Some r, st')"
  shows "rm_userId r = in_userId inp \<and> rm_capability r = in_capability inp \<and>
    RISK_ORDER (in_riskClass inp) \<le> RISK_ORDER (rm_maxRiskLevel r) \<and> in_riskClass inp \<noteq> Critical \<and>
    (rm_command r \<noteq> None \<and> rm_command r = map_option normaliseCommand (in_command inp) \<or>
     rm_command r = None \<and> rm_resource r \<noteq> None \<and> rm_resource r = in_resource inp) \<and>
    (rm_sessionId r = in_sessionId inp \<or> rm_sessionId r = Some [] \<or>
     truthy (rm_projectId r) \<and> rm_projectId r = in_projectId inp) \<and>
    (case rm_expiresAt r of None \<Rightarrow> True | Some e \<Rightarrow> e > now)"
proof (cases rule: match_rule_cases [of now inp st])
  case 1
  with m show ?thesis by simp
next
  case (2 q)
  then have r: "r = q\<lparr>rm_uses := Suc (rm_uses q), rm_lastUsedAt := Some now\<rparr>" using m by simp
  from 2(1) obtain i where i: "(i, in_userId inp, q) \<in> set st"
    and exp: "case rm_expiresAt q of None \<Rightarrow> True | Some e \<Rightarrow> e > now"
    unfolding list_rules_stored by blast
  from i inv have q: "rm_userId q = in_userId inp" "narrow q" unfolding remember_inv_def by auto
  have cap: "rm_capability q = in_capability inp" 
    and risk: "RISK_ORDER (in_riskClass inp) \<le> RISK_ORDER (rm_maxRiskLevel q)"
    using 2(2) by (auto simp: rule_applies_def Let_def split: if_splits)
  have crit: "in_riskClass inp \<noteq> Critical"
    using risk q(2) by (cases "rm_maxRiskLevel q") (auto simp: narrow_def)
  have exact: "rm_command q \<noteq> None \<and> rm_command q = map_option normaliseCommand (in_command inp) \<or>
      rm_command q = None \<and> rm_resource q \<noteq> None \<and> rm_resource q = in_resource inp"
  proof (cases "rm_command q")
    case None
    then have "truthy (rm_resource q)" using q(2) unfolding narrow_def by auto
    moreover have "rm_resource q = in_resource inp"
      using 2(2) None by (auto simp: rule_applies_def Let_def split: if_splits)
    ultimately show ?thesis using None by (metis truthy_simps(1))
  next
    case (Some c)
    then have "rm_command q = (if truthy (in_command inp)
        then Some (normaliseCommand (the (in_command inp))) else None)"
      using 2(2) by (simp add: rule_applies_def Let_def split: if_splits)
    then show ?thesis using Some by (cases "in_command inp") (auto split: if_splits)
  qed
  have place: "rm_sessionId q = in_sessionId inp \<or> rm_sessionId q = Some [] \<or>
      truthy (rm_projectId q) \<and> rm_projectId q = in_projectId inp"
    using 2(2) q(2) by (cases "rm_scope q"; cases "rm_sessionId q")
      (auto simp: rule_applies_def Let_def narrow_def split: if_splits)
  show ?thesis using r q(1) cap risk crit exact place exp by simp
qed

text \<open>
  C10: Remembered approvals stay narrow.  After any sequence of remembering, revoking and matching,
  a match belongs to the same user, capability and exact command or resource, approves no more risk
  than was granted and nothing critical, holds in its session or project only, and has not expired.
\<close>

theorem remembered_match_is_narrow:
  assumes "match_rule now inp (foldl remember_step [] es) = (Some r, st')"
  shows "rm_userId r = in_userId inp \<and> rm_capability r = in_capability inp \<and>
    RISK_ORDER (in_riskClass inp) \<le> RISK_ORDER (rm_maxRiskLevel r) \<and> in_riskClass inp \<noteq> Critical \<and>
    (rm_command r \<noteq> None \<and> rm_command r = map_option normaliseCommand (in_command inp) \<or>
     rm_command r = None \<and> rm_resource r \<noteq> None \<and> rm_resource r = in_resource inp) \<and>
    (rm_sessionId r = in_sessionId inp \<or> rm_sessionId r = Some [] \<or>
     truthy (rm_projectId r) \<and> rm_projectId r = in_projectId inp) \<and>
    (case rm_expiresAt r of None \<Rightarrow> True | Some e \<Rightarrow> e > now)"
  using match_rule_narrow [OF remembering.run_inv [OF remember_inv_Nil] assms] .

definition granted_push :: approval where
  "granted_push = \<lparr>ap_id = ''appr_1'', ap_sessionId = ''s1'', ap_deviceId = ''d1'', ap_userId = ''u1'',
     ap_actionType = ''git.push'', ap_description = [],
     ap_details = Some [(''risk'', JS_Object [(''level'', JS_Str ''medium'')]),
       (''command'', JS_Str ''git  push origin x '')],
     ap_status = Granted, ap_requestedAt = 0, ap_decidedAt = Some 1, ap_decidedBy = Some ''u1'',
     ap_reason = None, ap_policyVersion = None, ap_matchedRules = None, ap_requiredRole = None,
     ap_expiresAt = None, ap_reminderSentAt = None, ap_fallbackTriggeredAt = None\<rparr>"

definition push_again :: remember_input where
  "push_again = \<lparr>in_userId = ''u1'', in_capability = ''git.push'', in_riskClass = Medium,
     in_command = Some ''git push  origin x'', in_resource = None, in_agentId = Some ''claude'',
     in_projectId = None, in_sessionId = Some ''s1''\<rparr>"

definition push_history :: "remember_op list" where
  "push_history = [Rm_Remember 5 ''1'' granted_push
     \<lparr>se_id = ''s1'', se_agentId = Some ''claude'', se_projectId = Some ''p''\<rparr> Scope_Session]"

theorem remembered_match_is_narrow_witness:
  "rm_sessionId (the (fst (match_rule 9 push_again (foldl remember_step [] push_history)))) = Some ''s1''"
proof -
  let ?m = "match_rule 9 push_again (foldl remember_step [] push_history)"
  have "fst ?m \<noteq> None" by code_simp
  then have m: "?m = (Some (the (fst ?m)), snd ?m)" by (simp add: prod_eq_iff)
  have "rm_sessionId (the (fst ?m)) \<noteq> Some []" "\<not> truthy (rm_projectId (the (fst ?m)))" by code_simp+
  with remembered_match_is_narrow [OF m] show ?thesis by (simp add: push_again_def)
qed

text \<open>
  Only a granted approval becomes a rule; a rule never covers a critical action, holds exactly
  one command or resource, and is bound to one session, or to one project for thirty days.
\<close>

theorem remember_makes_narrow_rule:
  assumes "fst (remember now uuid ap se scope st) = Inr r"
  shows "ap_status ap = Granted \<and> rm_maxRiskLevel r \<noteq> Critical \<and> rm_userId r = ap_userId ap \<and>
    (truthy (rm_command r) \<and> rm_resource r = None \<or> rm_command r = None \<and> truthy (rm_resource r)) \<and>
    (rm_sessionId r \<noteq> None \<and> rm_projectId r = None \<or>
     rm_sessionId r = None \<and> truthy (rm_projectId r) \<and>
     rm_expiresAt r = Some (rm_createdAt r + PROJECT_RULE_DAYS * DAY_MS))"
  using remember_ok [OF assms] by (cases "rm_scope r") (auto simp: narrow_def)

theorem remember_makes_narrow_rule_witness:
  "case remember 5 ''1'' granted_push
      \<lparr>se_id = ''s1'', se_agentId = None, se_projectId = Some ''p''\<rparr> Scope_Project []
   of (Inr r, _) \<Rightarrow> rm_maxRiskLevel r \<noteq> Critical | _ \<Rightarrow> False"
proof -
  let ?m = "remember 5 ''1'' granted_push
      \<lparr>se_id = ''s1'', se_agentId = None, se_projectId = Some ''p''\<rparr> Scope_Project []"
  have "case fst ?m of Inr _ \<Rightarrow> True | _ \<Rightarrow> False" by code_simp
  then obtain r where r: "fst ?m = Inr r" by (cases "fst ?m") auto
  from remember_makes_narrow_rule [OF r] r show ?thesis by (cases ?m) auto
qed

end
