(* ===== verification/PolicyService.thy ===== *)
theory PolicyService
  imports Remembered AuditTrail
begin

text \<open>
  The policy service (\<open>control-plane/src/policy/policy-engine-service.ts\<close>) and the policy store
  (\<open>control-plane/src/policy/policy-store.ts\<close>): loading the active version, evaluating a request with
  the device and session at hand, asking the remembered approvals, and recording the outcome.
  Policy versions live in the metadata of entries of the user table; a user record here holds the
  fields this code reads.  The two random identifiers of a new version are arguments.
\<close>

section \<open>Data\<close>

record policy_user =
  us_id :: string
  us_email :: string
  us_name :: string
  us_role :: string
  us_policy :: "policy_version option"

record device_ref =
  dv_status :: string
  dv_trustProfile :: "trust_profile option"

record session_info =
  sn_agentId :: "string option"
  sn_projectId :: "string option"
  sn_trustProfile :: "trust_profile option"

record service =
  sv_users :: "(string, policy_user) jmap"
  sv_devices :: "(string, device_ref) jmap"
  sv_sessions :: "(string, session_info) jmap"
  sv_remembered :: remember_store
  sv_audit :: audit_store

record request =
  rc_resource :: "string option"
  rc_projectId :: "string option"
  rc_deviceId :: string
  rc_sessionId :: "string option"
  rc_userId :: string
  rc_force :: "bool option"
  rc_command :: "string option"

section \<open>The user table\<close>

definition findUserByEmail :: "string \<Rightarrow> service \<Rightarrow> policy_user option" where
  "findUserByEmail email s =
     List.find (\<lambda>u. js_trim (js_lower (us_email u)) = js_trim (js_lower email)) (map snd (sv_users s))"

definition updateUser :: "string \<Rightarrow> (policy_user \<Rightarrow> policy_user) \<Rightarrow> service \<Rightarrow> service" where
  "updateUser i f s =
     (case map_of (sv_users s) i of
        None \<Rightarrow> s
      | Some u \<Rightarrow> s\<lparr>sv_users := AList.update i (f u) (sv_users s)\<rparr>)"

section \<open>Policy versions\<close>

definition policies :: "service \<Rightarrow> policy_version list" where
  "policies s = List.map_filter us_policy (map snd (sv_users s))"

definition default_policy :: "int \<Rightarrow> policy_version" where
  "default_policy now =
     \<lparr>v_id = ''p_default'', v_version = ''p_default'',
      v_description = ''Default policy (no custom rules '' @ [CHR 0xE2, CHR 0x80, CHR 0x94] @ '' uses risk class defaults)'',
      v_rules = [], v_createdAt = now, v_createdBy = ''system'', v_isActive = True\<rparr>"

definition getActivePolicyVersion :: "service \<Rightarrow> policy_version option" where
  "getActivePolicyVersion s = List.find v_isActive (policies s)"

definition loadCurrentPolicyVersion :: "int \<Rightarrow> service \<Rightarrow> policy_version" where
  "loadCurrentPolicyVersion now s =
     (case getActivePolicyVersion s of Some v \<Rightarrow> v | None \<Rightarrow> default_policy now)"

definition getPolicyVersionById :: "string \<Rightarrow> service \<Rightarrow> policy_version option" where
  "getPolicyVersionById i s = List.find (\<lambda>v. v_id v = i) (policies s)"

definition policy_email :: "string \<Rightarrow> string" where
  "policy_email i = ''__policy_'' @ i @ ''__''"

definition no_entry :: audit_entry where
  "no_entry = \<lparr>en_timestamp = [], en_actorType = Actor_User, en_actorId = [], en_sessionId = None,
     en_deviceId = None, en_action = [], en_decision = Aud_Allow, en_policyVersion = None,
     en_matchedRules = None\<rparr>"

definition audit :: "(string \<Rightarrow> string) \<Rightarrow> string \<Rightarrow> string \<Rightarrow> audit_entry \<Rightarrow> service \<Rightarrow> service" where
  "audit sha uuid ts e s = s\<lparr>sv_audit := snd (record_audit sha uuid ts e (sv_audit s))\<rparr>"

record ids =
  id_policy :: string
  id_user :: string
  id_audit :: string

definition createPolicyVersion ::
  "(string \<Rightarrow> string) \<Rightarrow> ids \<Rightarrow> string \<Rightarrow> int \<Rightarrow> string \<Rightarrow> string \<Rightarrow> policy_rule list \<Rightarrow> service
     \<Rightarrow> policy_version \<times> service" where
  "createPolicyVersion sha i ts now createdBy description rules s =
     (let pid = ''p_'' @ id_policy i;
          n = length (policies s) + 1;
          v = \<lparr>v_id = pid, v_version = ''p_'' @ show_nat n, v_description = description,
               v_rules = rules, v_createdAt = now, v_createdBy = createdBy, v_isActive = False\<rparr>;
          u = \<lparr>us_id = ''usr_'' @ id_user i, us_email = policy_email pid,
               us_name = ''Policy Version '' @ show_nat n, us_role = ''admin'', us_policy = Some v\<rparr>
      in (v, audit sha (id_audit i) ts (no_entry\<lparr>en_actorId := createdBy,
               en_action := ''policy.version_created'', en_policyVersion := Some (v_version v)\<rparr>)
             (s\<lparr>sv_users := AList.update (us_id u) u (sv_users s)\<rparr>)))"

text \<open>
  The loop goes over the users that hold a version when it starts; users are shared objects, so each
  iteration reads the user's current version.
\<close>

definition activate_entry :: "string \<Rightarrow> service \<Rightarrow> string \<Rightarrow> service" where
  "activate_entry versionId s uid =
     (case map_of (sv_users s) uid of
        None \<Rightarrow> s
      | Some entry \<Rightarrow>
          (case us_policy entry of
             None \<Rightarrow> s
           | Some pv \<Rightarrow>
               (case findUserByEmail (policy_email (v_id pv)) s of
                  None \<Rightarrow> s
                | Some u \<Rightarrow> updateUser (us_id u)
                    (\<lambda>u. u\<lparr>us_policy := Some (pv\<lparr>v_isActive := (v_id pv = versionId)\<rparr>)\<rparr>) s)))"

definition policy_keys :: "service \<Rightarrow> string list" where
  "policy_keys s = map fst (filter (\<lambda>(i, u). us_policy u \<noteq> None) (sv_users s))"

definition activatePolicyVersion ::
  "(string \<Rightarrow> string) \<Rightarrow> string \<Rightarrow> string \<Rightarrow> string \<Rightarrow> string \<Rightarrow> service
     \<Rightarrow> policy_version option \<times> service" where
  "activatePolicyVersion sha uuid ts versionId activatedBy s =
     (let ks = policy_keys s;
          s' = foldl (activate_entry versionId) s ks;
          current = (\<lambda>k. case map_of (sv_users s') k of None \<Rightarrow> None | Some u \<Rightarrow> us_policy u)
      in case List.find (\<lambda>v. v_id v = versionId) (List.map_filter current ks) of
        None \<Rightarrow> (None, s')
      | Some v \<Rightarrow>
          (Some (v\<lparr>v_isActive := True\<rparr>),
           audit sha uuid ts (no_entry\<lparr>en_actorId := activatedBy,
             en_action := ''policy.version_activated'', en_policyVersion := Some (v_version v)\<rparr>) s'))"

text \<open>The same in \<open>PolicyStore\<close>, where an unknown version is refused first.\<close>

definition listVersions :: "service \<Rightarrow> policy_version list" where
  "listVersions s = js_sort (\<lambda>a b. v_createdAt b - v_createdAt a) (policies s)"

definition getActiveVersion :: "service \<Rightarrow> policy_version option" where
  "getActiveVersion s = List.find v_isActive (listVersions s)"

definition getVersionById :: "string \<Rightarrow> service \<Rightarrow> policy_version option" where
  "getVersionById i s = List.find (\<lambda>v. v_id v = i) (listVersions s)"

definition activateVersion :: "string \<Rightarrow> service \<Rightarrow> policy_version option \<times> service" where
  "activateVersion versionId s =
     (let vs = listVersions s in
      if List.find (\<lambda>v. v_id v = versionId) vs = None then (None, s)
      else
        (let s' = foldl (\<lambda>s v. case findUserByEmail (policy_email (v_id v)) s of
               None \<Rightarrow> s
             | Some u \<Rightarrow> updateUser (us_id u)
                 (\<lambda>u. u\<lparr>us_policy := Some (v\<lparr>v_isActive := (v_id v = versionId)\<rparr>)\<rparr>) s) s vs
         in (getVersionById versionId s', s')))"

definition canManagePolicy :: "string \<Rightarrow> service \<Rightarrow> bool" where
  "canManagePolicy uid s =
     (case map_of (sv_users s) uid of
        None \<Rightarrow> False
      | Some u \<Rightarrow> us_role u = ''admin'' \<or> us_role u = ''owner'')"

section \<open>Evaluation\<close>

definition service_device_status :: "device_ref option \<Rightarrow> device_status" where
  "service_device_status d =
     (case d of
        None \<Rightarrow> Dev_Trusted
      | Some x \<Rightarrow>
          if dv_status x = ''trusted'' \<or> dv_status x = ''pairing'' then Dev_Trusted
          else if dv_status x = ''revoked'' then Dev_Revoked
          else if dv_status x = ''suspended'' then Dev_Suspended
          else Dev_Trusted)"

definition or_else :: "'a option \<Rightarrow> 'a option \<Rightarrow> 'a option" where
  "or_else a b = (case a of None \<Rightarrow> b | Some _ \<Rightarrow> a)"

definition request_session :: "request \<Rightarrow> service \<Rightarrow> session_info option" where
  "request_session rc s =
     (if truthy (rc_sessionId rc) then map_of (sv_sessions s) (the (rc_sessionId rc)) else None)"

definition request_context :: "capability \<Rightarrow> risk_class \<Rightarrow> request \<Rightarrow> service \<Rightarrow> eval_context" where
  "request_context cap risk rc s =
     (let device = map_of (sv_devices s) (rc_deviceId rc); session = request_session rc s in
      \<lparr>c_capability = cap, c_riskClass = risk, c_resource = non_empty (rc_resource rc),
       c_projectId = non_empty (rc_projectId rc),
       c_trustProfile =
         (case or_else (Option.bind session sn_trustProfile) (Option.bind device dv_trustProfile) of
            None \<Rightarrow> Default_Profile | Some t \<Rightarrow> t),
       c_deviceStatus = service_device_status device, c_userId = rc_userId rc,
       c_force = rc_force rc, c_command = non_empty (rc_command rc)\<rparr>)"

definition remember_query :: "capability \<Rightarrow> risk_class \<Rightarrow> request \<Rightarrow> service \<Rightarrow> remember_input" where
  "remember_query cap risk rc s =
     (let session = request_session rc s in
      \<lparr>in_userId = rc_userId rc, in_capability = capability_name cap, in_riskClass = risk,
       in_command = rc_command rc, in_resource = rc_resource rc,
       in_agentId = Option.bind session sn_agentId,
       in_projectId = or_else (rc_projectId rc) (Option.bind session sn_projectId),
       in_sessionId = rc_sessionId rc\<rparr>)"

fun decision_kind :: "decision \<Rightarrow> audit_decision" where
  "decision_kind (Allow _ _ _) = Aud_Allow"
| "decision_kind (Deny _ _ _) = Aud_Deny"
| "decision_kind (Require_Approval _ _ _ _ _) = Aud_Require_Approval"

fun decision_version :: "decision \<Rightarrow> string" where
  "decision_version (Allow v _ _) = v"
| "decision_version (Deny v _ _) = v"
| "decision_version (Require_Approval v _ _ _ _) = v"

fun decision_rules :: "decision \<Rightarrow> string list option" where
  "decision_rules (Allow _ _ r) = r"
| "decision_rules (Deny _ _ r) = r"
| "decision_rules (Require_Approval _ _ _ r _) = Some r"

text \<open>A remembered rule answers only a question the risk-class defaults put to a person.\<close>

definition consult_remembered ::
  "int \<Rightarrow> remember_input \<Rightarrow> decision \<Rightarrow> service \<Rightarrow> decision \<times> service" where
  "consult_remembered now inp d s =
     (case d of
        Require_Approval ver role expiry rules reason \<Rightarrow>
          if rules \<noteq> [] then (d, s)
          else
            (let (found, st) = match_rule now inp (sv_remembered s); s' = s\<lparr>sv_remembered := st\<rparr> in
             case found of
               None \<Rightarrow> (d, s')
             | Some r \<Rightarrow> (Allow ver (Some (''Remembered approval: '' @ rm_description r))
                           (Some [''remembered:'' @ rm_id r]), s'))
      | _ \<Rightarrow> (d, s))"

text \<open>The pure evaluation of a request under the active policy.\<close>

definition policy_answer :: "int \<Rightarrow> capability \<Rightarrow> risk_class \<Rightarrow> request \<Rightarrow> service \<Rightarrow> decision" where
  "policy_answer now cap risk rc s =
     evaluate now (request_context cap risk rc s) (Some (loadCurrentPolicyVersion now s))"

definition service_evaluate ::
  "(string \<Rightarrow> string) \<Rightarrow> string \<Rightarrow> string \<Rightarrow> int \<Rightarrow> capability \<Rightarrow> risk_class \<Rightarrow> request \<Rightarrow> service
     \<Rightarrow> decision \<times> service" where
  "service_evaluate sha uuid ts now cap risk rc s =
     (let (d, s') = consult_remembered now (remember_query cap risk rc s)
            (policy_answer now cap risk rc s) s
      in (d, audit sha uuid ts (no_entry\<lparr>en_actorType := Actor_Device, en_actorId := rc_deviceId rc,
                en_sessionId := rc_sessionId rc, en_deviceId := Some (rc_deviceId rc),
                en_action := capability_name cap, en_decision := decision_kind d,
                en_policyVersion := Some (decision_version d),
                en_matchedRules := decision_rules d\<rparr>) s'))"

definition evaluateWithVersion ::
  "int \<Rightarrow> capability \<Rightarrow> risk_class \<Rightarrow> policy_version option \<Rightarrow> trust_profile \<Rightarrow> device_status
     \<Rightarrow> request \<Rightarrow> decision" where
  "evaluateWithVersion now cap risk pv trust status rc =
     evaluate now \<lparr>c_capability = cap, c_riskClass = risk, c_resource = non_empty (rc_resource rc),
       c_projectId = non_empty (rc_projectId rc), c_trustProfile = trust, c_deviceStatus = status,
       c_userId = rc_userId rc, c_force = rc_force rc, c_command = None\<rparr> pv"

section \<open>Remembered approvals only relax an unruled question\<close>

lemma consult_cases:
  "fst (consult_remembered now inp d s) = d \<or>
   (\<exists>ver role expiry reason r. d = Require_Approval ver role expiry [] reason \<and>
      fst (match_rule now inp (sv_remembered s)) = Some r \<and>
      fst (consult_remembered now inp d s) =
        Allow ver (Some (''Remembered approval: '' @ rm_description r)) (Some [''remembered:'' @ rm_id r]))"
proof (cases d)
  case (Require_Approval ver role expiry rules reason)
  show ?thesis
  proof (cases "fst (match_rule now inp (sv_remembered s))")
    case None
    then show ?thesis using Require_Approval
      by (simp add: consult_remembered_def Let_def split_beta)
  next
    case (Some r)
    then show ?thesis using Require_Approval
      by (cases rules) (simp_all add: consult_remembered_def Let_def split_beta)
  qed
qed (simp_all add: consult_remembered_def)

text \<open>
  C11: What the service answers is what the pure evaluation under the active policy says, except
  that a remembered approval of the same user and capability may turn a question put by the
  risk-class defaults into allow; a denial, a question an admin's rule asks and anything critical
  stay as they are.
\<close>

theorem service_answer:
  assumes "remember_inv (sv_remembered s)"
  shows "fst (service_evaluate sha uuid ts now cap risk rc s) = policy_answer now cap risk rc s \<or>
    is_allow (fst (service_evaluate sha uuid ts now cap risk rc s)) \<and> risk \<noteq> Critical \<and>
    (\<exists>ver role expiry reason. policy_answer now cap risk rc s = Require_Approval ver role expiry [] reason) \<and>
    (\<exists>r st. match_rule now (remember_query cap risk rc s) (sv_remembered s) = (Some r, st) \<and>
       rm_userId r = rc_userId rc \<and> rm_capability r = capability_name cap)"
proof -
  have f: "fst (service_evaluate sha uuid ts now cap risk rc s) =
      fst (consult_remembered now (remember_query cap risk rc s) (policy_answer now cap risk rc s) s)"
    by (simp add: service_evaluate_def Let_def split_beta)
  from consult_cases [of now "remember_query cap risk rc s" "policy_answer now cap risk rc s" s]
  show ?thesis
  proof
    assume "fst (consult_remembered now (remember_query cap risk rc s) (policy_answer now cap risk rc s) s) = policy_answer now cap risk rc s"
    with f show ?thesis by simp
  next
    assume "\<exists>ver role expiry reason r. policy_answer now cap risk rc s = Require_Approval ver role expiry [] reason \<and>
      fst (match_rule now (remember_query cap risk rc s) (sv_remembered s)) = Some r \<and>
      fst (consult_remembered now (remember_query cap risk rc s) (policy_answer now cap risk rc s) s) =
        Allow ver (Some (''Remembered approval: '' @ rm_description r)) (Some [''remembered:'' @ rm_id r])"
    then obtain ver role expiry reason r where
      p: "policy_answer now cap risk rc s = Require_Approval ver role expiry [] reason" and
      m: "fst (match_rule now (remember_query cap risk rc s) (sv_remembered s)) = Some r" and
      a: "is_allow (fst (consult_remembered now (remember_query cap risk rc s) (policy_answer now cap risk rc s) s))" by auto
    from m obtain st where
      m': "match_rule now (remember_query cap risk rc s) (sv_remembered s) = (Some r, st)"
      by (metis prod.collapse)
    from match_rule_narrow [OF assms(1) this] have "rm_userId r = rc_userId rc"
      "rm_capability r = capability_name cap" "risk \<noteq> Critical"
      by (simp_all add: remember_query_def Let_def)
    with p m' a f show ?thesis by metis
  qed
qed

text \<open>A service with one device, and a user's remembered push.\<close>

definition sample_service :: service where
  "sample_service = \<lparr>sv_users = [], sv_devices = [(''d1'', \<lparr>dv_status = ''trusted'', dv_trustProfile = Some Supervised\<rparr>)],
     sv_sessions = [(''s1'', \<lparr>sn_agentId = Some ''claude'', sn_projectId = None, sn_trustProfile = None\<rparr>)],
     sv_remembered = foldl remember_step [] push_history, sv_audit = empty_audit\<rparr>"

definition push_request :: request where
  "push_request = \<lparr>rc_resource = None, rc_projectId = None, rc_deviceId = ''d1'', rc_sessionId = Some ''s1'',
     rc_userId = ''u1'', rc_force = None, rc_command = Some ''git push origin x''\<rparr>"

theorem service_answer_witness:
  "let d = fst (service_evaluate (\<lambda>x. x) ''a'' ''t'' 9 Git_Push Medium push_request sample_service)
   in d = policy_answer 9 Git_Push Medium push_request sample_service \<or> is_allow d"
proof -
  have "remember_inv (sv_remembered sample_service)"
    unfolding sample_service_def service.simps by (rule remembering.run_inv [OF remember_inv_Nil])
  from service_answer [OF this, of "\<lambda>x. x" "''a''" "''t''" 9 Git_Push Medium push_request]
  show ?thesis unfolding Let_def by blast
qed

text \<open>
  Every evaluation is on record: it appends exactly one audit event, by the device, with the
  capability as its action and the decision that was returned.
\<close>

theorem service_evaluate_recorded:
  "\<exists>ev. au_events (sv_audit (snd (service_evaluate sha uuid ts now cap risk rc s))) =
       au_events (sv_audit s) @ [ev] \<and>
     en_actorType (ev_entry ev) = Actor_Device \<and> en_actorId (ev_entry ev) = rc_deviceId rc \<and>
     en_action (ev_entry ev) = capability_name cap \<and>
     en_decision (ev_entry ev) = decision_kind (fst (service_evaluate sha uuid ts now cap risk rc s))"
proof -
  have "sv_audit (snd (consult_remembered now inp d s)) = sv_audit s" for inp d
    by (cases d) (simp_all add: consult_remembered_def Let_def split_beta split: option.split)
  then show ?thesis
    by (simp add: service_evaluate_def audit_def record_audit_def append_event_def Let_def split_beta)
qed

section \<open>Activating a version\<close>

definition policy_inv :: "service \<Rightarrow> bool" where
  "policy_inv s \<longleftrightarrow> jmap_ok (sv_users s) \<and> (\<forall>(i, u) \<in> set (sv_users s). us_id u = i) \<and>
     (\<forall>(i, u) \<in> set (sv_users s). \<forall>pv. us_policy u = Some pv \<longrightarrow>
        findUserByEmail (policy_email (v_id pv)) s = Some u)"

definition map_users :: "(policy_user \<Rightarrow> policy_user) \<Rightarrow> service \<Rightarrow> service" where
  "map_users g s = s\<lparr>sv_users := map (\<lambda>(i, u). (i, g u)) (sv_users s)\<rparr>"

definition set_active :: "string \<Rightarrow> policy_user \<Rightarrow> policy_user" where
  "set_active vid u = u\<lparr>us_policy := map_option (\<lambda>pv. pv\<lparr>v_isActive := (v_id pv = vid)\<rparr>) (us_policy u)\<rparr>"

text \<open>A change of users that keeps who they are and which version they hold.\<close>

definition quiet :: "(policy_user \<Rightarrow> policy_user) \<Rightarrow> bool" where
  "quiet g \<longleftrightarrow> (\<forall>u. us_id (g u) = us_id u \<and> us_email (g u) = us_email u \<and>
     map_option v_id (us_policy (g u)) = map_option v_id (us_policy u))"

lemma quiet_set_active: "quiet (\<lambda>u. if P (us_id u) then set_active vid u else u)"
  by (simp add: quiet_def set_active_def option.map_comp comp_def)

lemma find_map: "(\<And>x. P (g x) = P x) \<Longrightarrow> List.find P (map g xs) = map_option g (List.find P xs)"
  by (induction xs) auto

lemma find_user_map:
  assumes "quiet g"
  shows "findUserByEmail e (map_users g s) = map_option g (findUserByEmail e s)"
proof -
  have e: "map snd (sv_users (map_users g s)) = map g (map snd (sv_users s))"
    by (auto simp: map_users_def)
  show ?thesis unfolding findUserByEmail_def e
    by (rule find_map) (use assms in \<open>simp add: quiet_def\<close>)
qed

lemma policy_inv_map:
  assumes inv: "policy_inv s" and g: "quiet g" shows "policy_inv (map_users g s)"
proof -
  have keys: "map fst (map (\<lambda>(i, u). (i, g u)) (sv_users s)) = map fst (sv_users s)" by auto
  have "findUserByEmail (policy_email (v_id pv)) (map_users g s) = Some (g u)"
    if "(i, u) \<in> set (sv_users s)" "us_policy (g u) = Some pv" for i u pv
  proof -
    have "map_option v_id (us_policy u) = Some (v_id pv)" using g that(2) unfolding quiet_def by (metis option.simps(9))
    then obtain pv' where "us_policy u = Some pv'" "v_id pv' = v_id pv" by auto
    then have "findUserByEmail (policy_email (v_id pv)) s = Some u"
      using inv that(1) unfolding policy_inv_def by fastforce
    then show ?thesis by (simp add: find_user_map [OF g])
  qed
  moreover have "us_id (g u) = i" if "(i, u) \<in> set (sv_users s)" for i u
    using that inv g unfolding policy_inv_def quiet_def by fastforce
  ultimately show ?thesis
    using inv keys unfolding policy_inv_def by (auto simp: map_users_def simp del: map_map)
qed

lemma update_as_map:
  "jmap_ok m \<Longrightarrow> map_of m k = Some w \<Longrightarrow>
     AList.update k v m = map (\<lambda>(j, x). (j, if j = k then v else x)) m"
proof (induction m)
  case (Cons p m)
  obtain j x where p: "p = (j, x)" by force
  show ?case
  proof (cases "j = k")
    case True
    with Cons.prems p have "k \<notin> fst ` set m" by simp
    then have "map (\<lambda>(j, x). (j, if j = k then v else x)) m = m"
      by (intro map_idI) (auto simp: image_iff)
    with True p show ?thesis by simp
  next
    case False
    with Cons p show ?thesis by simp
  qed
qed simp

lemma activate_entry_map:
  assumes inv: "policy_inv s" and k: "k \<in> set (policy_keys s)"
  shows "activate_entry vid s k = map_users (\<lambda>u. if us_id u = k then set_active vid u else u) s"
proof -
  from k obtain u pv where u: "(k, u) \<in> set (sv_users s)" "us_policy u = Some pv"
    by (auto simp: policy_keys_def)
  have m: "map_of (sv_users s) k = Some u" using u(1) inv unfolding policy_inv_def by simp
  have f: "findUserByEmail (policy_email (v_id pv)) s = Some u" and i: "us_id u = k"
    using u inv unfolding policy_inv_def by fastforce+
  have "activate_entry vid s k = s\<lparr>sv_users := AList.update k (set_active vid u) (sv_users s)\<rparr>"
    using m f i u(2) by (simp add: activate_entry_def updateUser_def set_active_def)
  also have "AList.update k (set_active vid u) (sv_users s) =
      map (\<lambda>(j, x). (j, if j = k then set_active vid u else x)) (sv_users s)"
    using inv m unfolding policy_inv_def by (intro update_as_map) auto
  also have "\<dots> = map (\<lambda>(i, x). (i, if us_id x = k then set_active vid x else x)) (sv_users s)"
  proof (rule map_cong [OF refl])
    fix p assume p: "p \<in> set (sv_users s)"
    obtain j x where jx: "p = (j, x)" by force
    have "us_id x = j" using p jx inv unfolding policy_inv_def by fastforce
    moreover have "x = u" if "j = k"
    proof -
      have "map_of (sv_users s) k = Some x"
        using p jx that inv unfolding policy_inv_def by (intro jmap_find) auto
      with m show ?thesis by simp
    qed
    ultimately show "(case p of (j, x) \<Rightarrow> (j, if j = k then set_active vid u else x)) =
        (case p of (i, x) \<Rightarrow> (i, if us_id x = k then set_active vid x else x))" using jx by auto
  qed
  finally show ?thesis by (simp add: map_users_def)
qed

lemma policy_keys_map: "quiet g \<Longrightarrow> policy_keys (map_users g s) = policy_keys s"
proof -
  assume g: "quiet g"
  have "us_policy (g u) \<noteq> None \<longleftrightarrow> us_policy u \<noteq> None" for u
    using g unfolding quiet_def by (metis option.map_disc_iff)
  then show ?thesis
    by (simp add: policy_keys_def map_users_def filter_map comp_def case_prod_unfold)
qed

lemma map_users_comp: "map_users h (map_users g s) = map_users (\<lambda>u. h (g u)) s"
  by (simp add: map_users_def comp_def case_prod_unfold)

lemma activate_all:
  assumes "policy_inv s" "set ks \<subseteq> set (policy_keys s)" "distinct ks"
  shows "foldl (activate_entry vid) s ks =
    map_users (\<lambda>u. if us_id u \<in> set ks then set_active vid u else u) s"
  using assms
proof (induction ks rule: rev_induct)
  case Nil
  then show ?case by (simp add: map_users_def case_prod_unfold)
next
  case (snoc k ks)
  let ?g = "\<lambda>u. if us_id u \<in> set ks then set_active vid u else u"
  have q: "quiet ?g" by (rule quiet_set_active)
  have "foldl (activate_entry vid) s (ks @ [k]) = activate_entry vid (map_users ?g s) k"
    using snoc by simp
  also have "\<dots> = map_users (\<lambda>u. if us_id u = k then set_active vid u else u) (map_users ?g s)"
    using snoc.prems by (intro activate_entry_map policy_inv_map [OF _ q]) (simp_all add: policy_keys_map [OF q])
  also have "\<dots> = map_users (\<lambda>u. if us_id u \<in> set (ks @ [k]) then set_active vid u else u) s"
    unfolding map_users_comp using snoc.prems(3)
    by (intro arg_cong2 [where f = map_users] ext refl) (auto simp: set_active_def)
  finally show ?case .
qed

lemma map_filter_lookup:
  "\<forall>x \<in> set xs. f (fst x) = us_policy (snd x) \<Longrightarrow>
     List.map_filter f (map fst (filter (\<lambda>(i, u). us_policy u \<noteq> None) xs)) =
     List.map_filter us_policy (map snd xs)"
  by (induction xs) (auto simp: List.map_filter_simps split: option.split)

lemma policies_set_active:
  "policies (map_users (set_active vid) s) = map (\<lambda>v. v\<lparr>v_isActive := (v_id v = vid)\<rparr>) (policies s)"
proof -
  have "List.map_filter us_policy (map snd (map (\<lambda>(i, u). (i, set_active vid u)) us)) =
      map (\<lambda>v. v\<lparr>v_isActive := (v_id v = vid)\<rparr>) (List.map_filter us_policy (map snd us))" for us
    by (induction us) (auto simp: List.map_filter_simps set_active_def split: option.split)
  from this [of "sv_users s"] show ?thesis unfolding policies_def by (simp add: map_users_def)
qed

lemma activation:
  assumes inv: "policy_inv s"
  shows "policies (snd (activatePolicyVersion sha uuid ts vid who s)) =
       map (\<lambda>v. v\<lparr>v_isActive := (v_id v = vid)\<rparr>) (policies s)"
    and "fst (activatePolicyVersion sha uuid ts vid who s) =
       map_option (\<lambda>v. v\<lparr>v_isActive := True\<rparr>) (getPolicyVersionById vid s)"
proof -
  let ?ks = "policy_keys s" and ?t = "map_users (set_active vid) s"
  let ?g = "\<lambda>u. if us_id u \<in> set ?ks then set_active vid u else u"
  have "distinct ?ks" using inv unfolding policy_inv_def policy_keys_def by (simp add: distinct_map_filter)
  from activate_all [OF inv subset_refl this]
  have "foldl (activate_entry vid) s ?ks = map_users ?g s" .
  also have "map_users ?g s = ?t"
  proof -
    have "set_active vid u = u" if "(i, u) \<in> set (sv_users s)" "us_id u \<notin> set ?ks" for i u
    proof -
      have "us_id u = i" using that(1) inv unfolding policy_inv_def by fastforce
      with that have "us_policy u = None" by (force simp: policy_keys_def)
      then show ?thesis by (simp add: set_active_def)
    qed
    then show ?thesis unfolding map_users_def
      by (intro arg_cong2 [where f = "\<lambda>us s. s\<lparr>sv_users := us\<rparr>"] map_cong refl) auto
  qed
  finally have t: "foldl (activate_entry vid) s ?ks = ?t" .
  have q: "quiet (set_active vid)" using quiet_set_active [of "\<lambda>_. True"] by simp
  have invt: "policy_inv ?t" by (rule policy_inv_map [OF inv q])
  have "List.map_filter (\<lambda>k. case map_of (sv_users ?t) k of None \<Rightarrow> None | Some u \<Rightarrow> us_policy u)
      (map fst (filter (\<lambda>(i, u). us_policy u \<noteq> None) (sv_users ?t))) = policies ?t"
    unfolding policies_def
    using invt unfolding policy_inv_def by (intro map_filter_lookup) auto
  then have c: "List.map_filter (\<lambda>k. case map_of (sv_users ?t) k of None \<Rightarrow> None | Some u \<Rightarrow> us_policy u) ?ks =
      map (\<lambda>v. v\<lparr>v_isActive := (v_id v = vid)\<rparr>) (policies s)"
    using policy_keys_map [OF q, of s] policies_set_active [of vid s] by (simp add: policy_keys_def)
  have f: "List.find (\<lambda>v. v_id v = vid) (map (\<lambda>v. v\<lparr>v_isActive := (v_id v = vid)\<rparr>) (policies s)) =
      map_option (\<lambda>v. v\<lparr>v_isActive := (v_id v = vid)\<rparr>) (getPolicyVersionById vid s)"
    unfolding getPolicyVersionById_def by (rule find_map) simp
  have a: "sv_users (audit sha' u' i' e' s') = sv_users s'" for sha' u' i' e' s'
    by (simp add: audit_def)
  show "policies (snd (activatePolicyVersion sha uuid ts vid who s)) =
       map (\<lambda>v. v\<lparr>v_isActive := (v_id v = vid)\<rparr>) (policies s)"
    using policies_set_active [of vid s]
    by (simp add: activatePolicyVersion_def Let_def t policies_def a split: option.split)
  show "fst (activatePolicyVersion sha uuid ts vid who s) =
       map_option (\<lambda>v. v\<lparr>v_isActive := True\<rparr>) (getPolicyVersionById vid s)"
    by (cases "getPolicyVersionById vid s") (simp_all add: activatePolicyVersion_def Let_def t c f)
qed

lemma active_after:
  assumes "policy_inv s"
  shows "getActivePolicyVersion (snd (activatePolicyVersion sha uuid ts vid who s)) =
    fst (activatePolicyVersion sha uuid ts vid who s)"
proof -
  have "List.find v_isActive (map (\<lambda>v. v\<lparr>v_isActive := (v_id v = vid)\<rparr>) vs) =
      map_option (\<lambda>v. v\<lparr>v_isActive := True\<rparr>) (List.find (\<lambda>v. v_id v = vid) vs)" for vs
    by (induction vs) auto
  then show ?thesis
    unfolding activation(2) [OF assms] getActivePolicyVersion_def activation(1) [OF assms]
      getPolicyVersionById_def .
qed

text \<open>
  Activating a version makes it the active one: afterwards the versions are the same but for
  their flag, which is set on the given id alone, and the active version is the one returned.
\<close>

theorem activation_selects:
  assumes "policy_inv s"
  shows "let (r, t) = activatePolicyVersion sha uuid ts vid who s
    in policies t = map (\<lambda>v. v\<lparr>v_isActive := (v_id v = vid)\<rparr>) (policies s) \<and>
       r = map_option (\<lambda>v. v\<lparr>v_isActive := True\<rparr>) (getPolicyVersionById vid s) \<and>
       getActivePolicyVersion t = r"
  using activation [OF assms] active_after [OF assms] by (simp add: split_beta Let_def)

definition two_versions :: service where
  "two_versions =
     snd (createPolicyVersion (\<lambda>x. x) \<lparr>id_policy = ''b'', id_user = ''2'', id_audit = ''2''\<rparr> ''t'' 2 ''u1'' [] []
       (snd (createPolicyVersion (\<lambda>x. x) \<lparr>id_policy = ''a'', id_user = ''1'', id_audit = ''1''\<rparr> ''t'' 1 ''u1'' [] []
         (sample_service\<lparr>sv_remembered := []\<rparr>))))"

lemma two_versions_inv: "policy_inv two_versions"
proof -
  have u: "sv_users two_versions =
    [(''usr_1'', \<lparr>us_id = ''usr_1'', us_email = policy_email ''p_a'', us_name = ''Policy Version 1'',
        us_role = ''admin'', us_policy = Some \<lparr>v_id = ''p_a'', v_version = ''p_1'', v_description = [],
          v_rules = [], v_createdAt = 1, v_createdBy = ''u1'', v_isActive = False\<rparr>\<rparr>),
     (''usr_2'', \<lparr>us_id = ''usr_2'', us_email = policy_email ''p_b'', us_name = ''Policy Version 2'',
        us_role = ''admin'', us_policy = Some \<lparr>v_id = ''p_b'', v_version = ''p_2'', v_description = [],
          v_rules = [], v_createdAt = 2, v_createdBy = ''u1'', v_isActive = False\<rparr>\<rparr>)]"
    by code_simp
  have ne: "js_trim (js_lower (policy_email ''p_a'')) \<noteq> js_trim (js_lower (policy_email ''p_b''))"
    by code_simp
  then show ?thesis by (simp add: policy_inv_def u findUserByEmail_def ne)
qed

theorem activation_selects_witness:
  "map_option v_id (getActivePolicyVersion
     (snd (activatePolicyVersion (\<lambda>x. x) ''3'' ''t'' ''p_b'' ''u1'' two_versions))) = Some ''p_b''"
proof -
  have g: "map_option v_id (getPolicyVersionById ''p_b'' two_versions) = Some ''p_b''" by code_simp
  have "getActivePolicyVersion
      (snd (activatePolicyVersion (\<lambda>x. x) ''3'' ''t'' ''p_b'' ''u1'' two_versions)) =
      map_option (\<lambda>v. v\<lparr>v_isActive := True\<rparr>) (getPolicyVersionById ''p_b'' two_versions)"
    using activation_selects [OF two_versions_inv, of "\<lambda>x. x" "''3''" "''t''" "''p_b''" "''u1''"]
    by (simp add: split_beta Let_def)
  with g show ?thesis by (simp add: option.map_comp comp_def)
qed

text \<open>
  Asking to activate an unknown version leaves no version active, although the call reports
  failure; the policy store refuses the same request and changes nothing.
\<close>

theorem unknown_version_deactivates:
  assumes "policy_inv s" "getPolicyVersionById vid s = None"
  shows "fst (activatePolicyVersion sha uuid ts vid who s) = None \<and>
    getActivePolicyVersion (snd (activatePolicyVersion sha uuid ts vid who s)) = None \<and>
    activateVersion vid s = (None, s)"
proof -
  have "List.find (\<lambda>v. v_id v = vid) (listVersions s) = None"
    using assms(2) by (simp add: find_None_iff listVersions_def getPolicyVersionById_def)
  then show ?thesis
    using activation(2) [OF assms(1)] active_after [OF assms(1)] assms(2)
    by (simp add: activateVersion_def)
qed

theorem unknown_version_deactivates_witness:
  "let s = snd (activatePolicyVersion (\<lambda>x. x) ''3'' ''t'' ''p_b'' ''u1'' two_versions)
   in getActivePolicyVersion s \<noteq> None \<and>
      getActivePolicyVersion (snd (activatePolicyVersion (\<lambda>x. x) ''4'' ''t'' ''p_x'' ''u1'' two_versions)) = None"
proof -
  have "getPolicyVersionById ''p_x'' two_versions = None" by code_simp
  from unknown_version_deactivates [OF two_versions_inv this, of "\<lambda>x. x" "''4''" "''t''" "''u1''"]
  have a: "getActivePolicyVersion (snd (activatePolicyVersion (\<lambda>x. x) ''4'' ''t'' ''p_x'' ''u1'' two_versions)) = None"
    by blast
  have g: "getPolicyVersionById ''p_b'' two_versions \<noteq> None" by code_simp
  have "getActivePolicyVersion (snd (activatePolicyVersion (\<lambda>x. x) ''3'' ''t'' ''p_b'' ''u1'' two_versions)) \<noteq> None"
    unfolding active_after [OF two_versions_inv] activation(2) [OF two_versions_inv] using g by simp
  with a show ?thesis unfolding Let_def by blast
qed

end
