(* ===== verification/RateLimits.thy ===== *)
theory RateLimits
  imports Prelude
begin

text \<open>
  The attempt limiters: \<open>AuthRateLimiter\<close> (\<open>control-plane/src/auth/rate-limiter.ts\<close>) and
  \<open>PairingRateLimiter\<close> with the pairing codes (\<open>gateway/pairing/src/code-generator.ts\<close>).  Both count
  attempts per key in a window that starts with the first attempt; the locale \<open>attempt_window\<close> states
  what they share and derives the bound on accepted attempts, and each limiter interprets it.
  The clock is an argument of every operation.
\<close>

section \<open>The control plane's limiter\<close>

record limiter_config =
  lc_windowMs :: int
  lc_maxAttempts :: nat

definition DEFAULT_LOGIN_RATE_LIMIT :: limiter_config where
  "DEFAULT_LOGIN_RATE_LIMIT = \<lparr>lc_windowMs = 15 * 60 * 1000, lc_maxAttempts = 5\<rparr>"

definition DEFAULT_ACCOUNT_LOGIN_RATE_LIMIT :: limiter_config where
  "DEFAULT_ACCOUNT_LOGIN_RATE_LIMIT = \<lparr>lc_windowMs = 15 * 60 * 1000, lc_maxAttempts = 20\<rparr>"

definition DEFAULT_REGISTER_RATE_LIMIT :: limiter_config where
  "DEFAULT_REGISTER_RATE_LIMIT = \<lparr>lc_windowMs = 60 * 60 * 1000, lc_maxAttempts = 10\<rparr>"

definition DEFAULT_PAIRING_RATE_LIMIT :: limiter_config where
  "DEFAULT_PAIRING_RATE_LIMIT = \<lparr>lc_windowMs = 10 * 60 * 1000, lc_maxAttempts = 8\<rparr>"

record window_entry =
  we_count :: nat
  we_windowStartedAt :: int

type_synonym auth_limiter = "(string, window_entry) jmap"

definition isAllowed :: "limiter_config \<Rightarrow> int \<Rightarrow> string \<Rightarrow> auth_limiter \<Rightarrow> bool" where
  "isAllowed c now key s =
     (case map_of s key of
        None \<Rightarrow> True
      | Some e \<Rightarrow> if now - we_windowStartedAt e \<ge> lc_windowMs c then True
                  else we_count e < lc_maxAttempts c)"

definition recordAttempt :: "limiter_config \<Rightarrow> int \<Rightarrow> string \<Rightarrow> auth_limiter \<Rightarrow> auth_limiter" where
  "recordAttempt c now key s =
     (let fresh = AList.update key \<lparr>we_count = 1, we_windowStartedAt = now\<rparr> s in
      case map_of s key of
        None \<Rightarrow> fresh
      | Some e \<Rightarrow> if now - we_windowStartedAt e \<ge> lc_windowMs c then fresh
                  else AList.update key (e\<lparr>we_count := Suc (we_count e)\<rparr>) s)"

definition ceil_div :: "int \<Rightarrow> int \<Rightarrow> int" where
  "ceil_div a b = - ((- a) div b)"

definition retryAfterSeconds :: "limiter_config \<Rightarrow> int \<Rightarrow> string \<Rightarrow> auth_limiter \<Rightarrow> int" where
  "retryAfterSeconds c now key s =
     (case map_of s key of
        None \<Rightarrow> 0
      | Some e \<Rightarrow>
          (let remaining = lc_windowMs c - (now - we_windowStartedAt e) in
           if remaining > 0 then ceil_div remaining 1000 else 0))"

definition cleanup :: "limiter_config \<Rightarrow> int \<Rightarrow> auth_limiter \<Rightarrow> auth_limiter" where
  "cleanup c now s = filter (\<lambda>(k, e). \<not> now - we_windowStartedAt e \<ge> lc_windowMs c) s"

definition getAttemptCount :: "limiter_config \<Rightarrow> int \<Rightarrow> string \<Rightarrow> auth_limiter \<Rightarrow> nat" where
  "getAttemptCount c now key s =
     (case map_of s key of
        None \<Rightarrow> 0
      | Some e \<Rightarrow> if now - we_windowStartedAt e \<ge> lc_windowMs c then 0 else we_count e)"

text \<open>The callers' protocol: an attempt goes through, and is recorded, only when it is allowed.\<close>

definition guarded_attempt ::
  "limiter_config \<Rightarrow> int \<Rightarrow> string \<Rightarrow> auth_limiter \<Rightarrow> bool \<times> auth_limiter" where
  "guarded_attempt c now key s =
     (if isAllowed c now key s then (True, recordAttempt c now key s) else (False, s))"

section \<open>The gateway's limiter\<close>

record pairing_config =
  pg_maxAttempts :: nat
  pg_windowMs :: int
  pg_maxCodesPerWindow :: nat

definition DEFAULT_RATE_LIMITER_CONFIG :: pairing_config where
  "DEFAULT_RATE_LIMITER_CONFIG =
     \<lparr>pg_maxAttempts = 10, pg_windowMs = 5 * 60 * 1000, pg_maxCodesPerWindow = 5\<rparr>"

record attempt_entry =
  ae_count :: nat
  ae_expiresAt :: int

record pairing_limiter =
  pl_codeTimes :: "int list"
  pl_attempts :: "(string, attempt_entry) jmap"

definition canGenerateCode :: "pairing_config \<Rightarrow> int \<Rightarrow> pairing_limiter \<Rightarrow> bool \<times> pairing_limiter" where
  "canGenerateCode c now s =
     (let ts = filter (\<lambda>t. now - t < pg_windowMs c) (pl_codeTimes s) in
      (length ts < pg_maxCodesPerWindow c, s\<lparr>pl_codeTimes := ts\<rparr>))"

definition recordCodeGeneration :: "int \<Rightarrow> pairing_limiter \<Rightarrow> pairing_limiter" where
  "recordCodeGeneration now s = s\<lparr>pl_codeTimes := pl_codeTimes s @ [now]\<rparr>"

definition recordPairingAttempt ::
  "pairing_config \<Rightarrow> int \<Rightarrow> string \<Rightarrow> pairing_limiter \<Rightarrow> bool \<times> pairing_limiter" where
  "recordPairingAttempt c now code s =
     (let fresh = (True, s\<lparr>pl_attempts := AList.update code
            \<lparr>ae_count = 1, ae_expiresAt = now + pg_windowMs c\<rparr> (pl_attempts s)\<rparr>) in
      case map_of (pl_attempts s) code of
        None \<Rightarrow> fresh
      | Some e \<Rightarrow>
          if now < ae_expiresAt e then
            (Suc (ae_count e) \<le> pg_maxAttempts c,
             s\<lparr>pl_attempts := AList.update code (e\<lparr>ae_count := Suc (ae_count e)\<rparr>) (pl_attempts s)\<rparr>)
          else fresh)"

definition getAttempts :: "string \<Rightarrow> pairing_limiter \<Rightarrow> nat" where
  "getAttempts code s = (case map_of (pl_attempts s) code of None \<Rightarrow> 0 | Some e \<Rightarrow> ae_count e)"

definition cleanupPairing :: "int \<Rightarrow> pairing_limiter \<Rightarrow> pairing_limiter" where
  "cleanupPairing now s =
     s\<lparr>pl_attempts := filter (\<lambda>(k, e). \<not> now \<ge> ae_expiresAt e) (pl_attempts s)\<rparr>"

section \<open>Attempt windows\<close>

text \<open>
  The interface: an attempt at a time for a key is accepted or not; per key there is a window, its
  count and its start.  A limiter whose window is absent or over accepts and starts a new one; inside
  a window it accepts while the count is below the limit.  Cleaning drops windows that are over.
\<close>

datatype 'k limiter_event = Attempt int 'k | Sweep int

primrec run_event ::
  "(int \<Rightarrow> 'k \<Rightarrow> 's \<Rightarrow> bool \<times> 's) \<Rightarrow> (int \<Rightarrow> 's \<Rightarrow> 's) \<Rightarrow> 'k \<Rightarrow> 'k limiter_event \<Rightarrow> 's \<Rightarrow> nat \<times> 's" where
  "run_event admit sweep k (Attempt now j) s =
     (if j = k \<and> fst (admit now j s) then 1 else 0, snd (admit now j s))"
| "run_event admit sweep k (Sweep now) s = (0, sweep now s)"

text \<open>How many attempts of a key a sequence of events accepts.\<close>

fun accepted ::
  "(int \<Rightarrow> 'k \<Rightarrow> 's \<Rightarrow> bool \<times> 's) \<Rightarrow> (int \<Rightarrow> 's \<Rightarrow> 's) \<Rightarrow> 'k \<Rightarrow> 'k limiter_event list \<Rightarrow> 's \<Rightarrow> nat" where
  "accepted admit sweep k [] s = 0"
| "accepted admit sweep k (e # es) s =
     fst (run_event admit sweep k e s) + accepted admit sweep k es (snd (run_event admit sweep k e s))"

definition at_time :: "'k limiter_event \<Rightarrow> int" where
  "at_time e = (case e of Attempt now _ \<Rightarrow> now | Sweep now \<Rightarrow> now)"

locale attempt_window =
  fixes admit :: "int \<Rightarrow> 'k \<Rightarrow> 's \<Rightarrow> bool \<times> 's"
    and sweep :: "int \<Rightarrow> 's \<Rightarrow> 's"
    and win :: "'s \<Rightarrow> 'k \<Rightarrow> (nat \<times> int) option"
    and ok :: "'s \<Rightarrow> bool"
    and w :: int and limit :: nat
  assumes admit_none: "ok s \<Longrightarrow> win s k = None \<Longrightarrow> fst (admit now k s) \<and> win (snd (admit now k s)) k = Some (1, now)"
    and admit_over: "ok s \<Longrightarrow> win s k = Some (n, t) \<Longrightarrow> now - t \<ge> w \<Longrightarrow>
      fst (admit now k s) \<and> win (snd (admit now k s)) k = Some (1, now)"
    and admit_open: "ok s \<Longrightarrow> win s k = Some (n, t) \<Longrightarrow> now - t < w \<Longrightarrow>
      \<exists>m. win (snd (admit now k s)) k = Some (m, t) \<and>
        (if n < limit then fst (admit now k s) \<and> m = Suc n
         else \<not> fst (admit now k s) \<and> m \<ge> limit)"
    and admit_other: "ok s \<Longrightarrow> j \<noteq> k \<Longrightarrow> win (snd (admit now k s)) j = win s j"
    and sweep_win: "ok s \<Longrightarrow> win (sweep now s) k =
      (case win s k of None \<Rightarrow> None | Some (n, t) \<Rightarrow> if now - t \<ge> w then None else Some (n, t))"
    and admit_ok: "ok s \<Longrightarrow> ok (snd (admit now k s))"
    and sweep_ok: "ok s \<Longrightarrow> ok (sweep now s)"
begin

lemma run_event_ok: "ok s \<Longrightarrow> ok (snd (run_event admit sweep k e s))"
  by (cases e) (simp_all add: admit_ok sweep_ok)

text \<open>A window that starts inside the interval stays open to its end.\<close>

lemma accepted_inside:
  "ok s \<Longrightarrow> win s k = Some (n, t) \<Longrightarrow> t \<ge> a \<Longrightarrow> \<forall>e \<in> set es. at_time e < a + w \<Longrightarrow>
     accepted admit sweep k es s \<le> limit - n"
proof (induction es arbitrary: s n)
  case Nil
  then show ?case by simp
next
  case (Cons e es)
  let ?s = "snd (run_event admit sweep k e s)"
  have ok: "ok ?s" using Cons.prems(1) by (rule run_event_ok)
  have lt: "at_time e - t < w" using Cons.prems(3,4) by simp
  have ih: "accepted admit sweep k es ?s \<le> limit - m" if "win ?s k = Some (m, t)" for m
    using Cons.IH [OF ok that Cons.prems(3)] Cons.prems(4) by simp
  show ?case
  proof (cases e)
    case (Attempt now j)
    show ?thesis
    proof (cases "j = k")
      case True
      have "now - t < w" using lt Attempt by (simp add: at_time_def)
      from admit_open [OF Cons.prems(1,2) this] obtain m where
        m: "win (snd (admit now k s)) k = Some (m, t)"
          "if n < limit then fst (admit now k s) \<and> m = Suc n else \<not> fst (admit now k s) \<and> m \<ge> limit" by blast
      then have "accepted admit sweep k es ?s \<le> limit - m" using ih Attempt True by simp
      with m(2) Attempt True show ?thesis by (cases "n < limit") auto
    next
      case False
      then have "win ?s k = Some (n, t)" using Attempt Cons.prems(1,2) by (simp add: admit_other)
      from ih [OF this] False Attempt show ?thesis by simp
    qed
  next
    case (Sweep now)
    then have "win ?s k = Some (n, t)" using Cons.prems(1,2) lt by (simp add: sweep_win at_time_def)
    from ih [OF this] Sweep show ?thesis by simp
  qed
qed

lemma accepted_none:
  "ok s \<Longrightarrow> win s k = None \<Longrightarrow> \<forall>e \<in> set es. a \<le> at_time e \<and> at_time e < a + w \<Longrightarrow>
     accepted admit sweep k es s \<le> max 1 limit"
proof (induction es arbitrary: s)
  case Nil
  then show ?case by simp
next
  case (Cons e es)
  let ?s = "snd (run_event admit sweep k e s)"
  have ok: "ok ?s" using Cons.prems(1) by (rule run_event_ok)
  have ih: "win ?s k = None \<Longrightarrow> accepted admit sweep k es ?s \<le> max 1 limit"
    using Cons.IH [OF ok] Cons.prems(3) by simp
  show ?case
  proof (cases e)
    case (Attempt now j)
    show ?thesis
    proof (cases "j = k")
      case True
      have "win ?s k = Some (1, now)" "now \<ge> a"
        using admit_none [OF Cons.prems(1,2)] Attempt True Cons.prems(3) by (auto simp: at_time_def)
      from accepted_inside [OF ok this, of es] Cons.prems(3) have "accepted admit sweep k es ?s \<le> limit - 1" by simp
      moreover have "fst (run_event admit sweep k e s) \<le> 1" using Attempt by simp
      ultimately show ?thesis by simp
    next
      case False
      then show ?thesis using ih Attempt Cons.prems(1,2) by (simp add: admit_other)
    qed
  next
    case (Sweep now)
    then show ?thesis using ih Cons.prems(1,2) by (simp add: sweep_win)
  qed
qed

text \<open>In any interval of one window length at most twice the limit is accepted.\<close>

lemma accepted_any:
  assumes "limit > 0"
  shows "ok s \<Longrightarrow> \<forall>e \<in> set es. a \<le> at_time e \<and> at_time e < a + w \<Longrightarrow>
     accepted admit sweep k es s \<le> (case win s k of None \<Rightarrow> limit | Some (n, t) \<Rightarrow> (limit - n) + limit)"
proof (induction es arbitrary: s)
  case Nil
  then show ?case by simp
next
  case (Cons e es)
  let ?s = "snd (run_event admit sweep k e s)"
  have ok: "ok ?s" using Cons.prems(1) by (rule run_event_ok)
  have times: "\<forall>e \<in> set es. a \<le> at_time e \<and> at_time e < a + w" using Cons.prems(2) by simp
  note ih = Cons.IH [OF ok times]
  show ?case
  proof (cases "win s k")
    case None
    from accepted_none [OF Cons.prems(1) None Cons.prems(2)] assms None show ?thesis by simp
  next
    case (Some p)
    obtain n t where nt: "win s k = Some (n, t)" using Some by (cases p) auto
    show ?thesis
    proof (cases e)
      case (Attempt now j)
      consider "j \<noteq> k" | "j = k" "now - t \<ge> w" | "j = k" "now - t < w" by linarith
      then show ?thesis
      proof cases
        case 1
        then have "win ?s k = Some (n, t)" using Attempt Cons.prems(1) nt by (simp add: admit_other)
        with ih nt 1 Attempt show ?thesis by simp
      next
        case 2
        have "win ?s k = Some (1, now)" "now \<ge> a"
          using admit_over [OF Cons.prems(1) nt 2(2)] Attempt 2(1) Cons.prems(2) by (auto simp: at_time_def)
        from accepted_inside [OF ok this, of es] times have "accepted admit sweep k es ?s \<le> limit - 1" by simp
        moreover have "fst (run_event admit sweep k e s) \<le> 1" using Attempt by simp
        ultimately show ?thesis using nt assms by simp
      next
        case 3
        from admit_open [OF Cons.prems(1) nt 3(2)] obtain m where
          m: "win (snd (admit now k s)) k = Some (m, t)"
            "if n < limit then fst (admit now k s) \<and> m = Suc n else \<not> fst (admit now k s) \<and> m \<ge> limit" by blast
        with ih nt 3(1) Attempt show ?thesis by (cases "n < limit") auto
      qed
    next
      case (Sweep now)
      show ?thesis
        using ih nt Sweep Cons.prems(1) by (cases "now - t \<ge> w") (simp_all add: sweep_win)
    qed
  qed
qed

lemma accepted_twice:
  assumes "limit > 0" "ok s" "\<forall>e \<in> set es. a \<le> at_time e \<and> at_time e < a + w"
  shows "accepted admit sweep k es s \<le> 2 * limit"
  using accepted_any [OF assms, of k] by (auto split: option.splits)

end

section \<open>Both limiters are attempt windows\<close>

lemma map_of_filter_ok:
  "jmap_ok m \<Longrightarrow> map_of (filter (\<lambda>(k, e). P e) m) k =
     (case map_of m k of None \<Rightarrow> None | Some e \<Rightarrow> if P e then Some e else None)"
  by (induction m) (auto split: option.splits dest: map_of_SomeD simp: image_iff)

lemma jmap_ok_filter: "jmap_ok m \<Longrightarrow> jmap_ok (filter P m)"
  by (rule distinct_map_filter)

definition auth_window :: "auth_limiter \<Rightarrow> string \<Rightarrow> (nat \<times> int) option" where
  "auth_window s k = map_option (\<lambda>e. (we_count e, we_windowStartedAt e)) (map_of s k)"

interpretation auth: attempt_window "guarded_attempt c" "cleanup c" auth_window jmap_ok
  "lc_windowMs c" "lc_maxAttempts c" for c
proof unfold_locales
  fix s k j now n t
  show "auth_window s k = None \<Longrightarrow> fst (guarded_attempt c now k s) \<and>
      auth_window (snd (guarded_attempt c now k s)) k = Some (1, now)"
    by (simp add: auth_window_def guarded_attempt_def isAllowed_def recordAttempt_def Let_def update_conv')
  show "auth_window s k = Some (n, t) \<Longrightarrow> lc_windowMs c \<le> now - t \<Longrightarrow> fst (guarded_attempt c now k s) \<and>
      auth_window (snd (guarded_attempt c now k s)) k = Some (1, now)"
    by (auto simp: auth_window_def guarded_attempt_def isAllowed_def recordAttempt_def Let_def update_conv')
  show "auth_window s k = Some (n, t) \<Longrightarrow> now - t < lc_windowMs c \<Longrightarrow>
      \<exists>m. auth_window (snd (guarded_attempt c now k s)) k = Some (m, t) \<and>
        (if n < lc_maxAttempts c then fst (guarded_attempt c now k s) \<and> m = Suc n
         else \<not> fst (guarded_attempt c now k s) \<and> lc_maxAttempts c \<le> m)"
    by (auto simp: auth_window_def guarded_attempt_def isAllowed_def recordAttempt_def Let_def update_conv')
  show "j \<noteq> k \<Longrightarrow> auth_window (snd (guarded_attempt c now k s)) j = auth_window s j"
    by (auto simp: auth_window_def guarded_attempt_def recordAttempt_def Let_def update_conv'
        split: option.split)
  show "jmap_ok s \<Longrightarrow> auth_window (cleanup c now s) k = (case auth_window s k of None \<Rightarrow> None
      | Some (n, t) \<Rightarrow> if lc_windowMs c \<le> now - t then None else Some (n, t))"
    by (auto simp: auth_window_def cleanup_def map_of_filter_ok split: option.split)
  show "jmap_ok s \<Longrightarrow> jmap_ok (snd (guarded_attempt c now k s))"
    by (auto simp: guarded_attempt_def recordAttempt_def Let_def distinct_update split: option.split)
  show "jmap_ok s \<Longrightarrow> jmap_ok (cleanup c now s)"
    by (simp add: cleanup_def jmap_ok_filter)
qed

definition pairing_window :: "pairing_config \<Rightarrow> pairing_limiter \<Rightarrow> string \<Rightarrow> (nat \<times> int) option" where
  "pairing_window c s k =
     map_option (\<lambda>e. (ae_count e, ae_expiresAt e - pg_windowMs c)) (map_of (pl_attempts s) k)"

interpretation pairing: attempt_window "recordPairingAttempt c" cleanupPairing "pairing_window c"
  "\<lambda>s. jmap_ok (pl_attempts s)" "pg_windowMs c" "pg_maxAttempts c" for c
proof unfold_locales
  fix s k j now n t
  show "pairing_window c s k = None \<Longrightarrow> fst (recordPairingAttempt c now k s) \<and>
      pairing_window c (snd (recordPairingAttempt c now k s)) k = Some (1, now)"
    by (simp add: pairing_window_def recordPairingAttempt_def Let_def update_conv')
  show "pairing_window c s k = Some (n, t) \<Longrightarrow> pg_windowMs c \<le> now - t \<Longrightarrow>
      fst (recordPairingAttempt c now k s) \<and>
      pairing_window c (snd (recordPairingAttempt c now k s)) k = Some (1, now)"
    by (auto simp: pairing_window_def recordPairingAttempt_def Let_def update_conv')
  show "pairing_window c s k = Some (n, t) \<Longrightarrow> now - t < pg_windowMs c \<Longrightarrow>
      \<exists>m. pairing_window c (snd (recordPairingAttempt c now k s)) k = Some (m, t) \<and>
        (if n < pg_maxAttempts c then fst (recordPairingAttempt c now k s) \<and> m = Suc n
         else \<not> fst (recordPairingAttempt c now k s) \<and> pg_maxAttempts c \<le> m)"
    by (auto simp: pairing_window_def recordPairingAttempt_def Let_def update_conv')
  show "j \<noteq> k \<Longrightarrow> pairing_window c (snd (recordPairingAttempt c now k s)) j = pairing_window c s j"
    by (auto simp: pairing_window_def recordPairingAttempt_def Let_def update_conv' split: option.split)
  show "jmap_ok (pl_attempts s) \<Longrightarrow> pairing_window c (cleanupPairing now s) k =
      (case pairing_window c s k of None \<Rightarrow> None
       | Some (n, t) \<Rightarrow> if pg_windowMs c \<le> now - t then None else Some (n, t))"
    by (auto simp: pairing_window_def cleanupPairing_def map_of_filter_ok split: option.split)
  show "jmap_ok (pl_attempts s) \<Longrightarrow> jmap_ok (pl_attempts (snd (recordPairingAttempt c now k s)))"
    by (auto simp: recordPairingAttempt_def Let_def distinct_update split: option.split)
  show "jmap_ok (pl_attempts s) \<Longrightarrow> jmap_ok (pl_attempts (cleanupPairing now s))"
    by (simp add: cleanupPairing_def jmap_ok_filter)
qed

section \<open>What the limiters promise\<close>


definition burst :: "string limiter_event list" where
  "burst = replicate 5 (Attempt 899999 ''k'') @ replicate 9 (Attempt 900001 ''k'')"


text \<open>
  The same bound holds for the attempts on one pairing code at the gateway's limiter.\<close>

theorem pairing_attempts_bounded:
  assumes "pg_maxAttempts c > 0" "jmap_ok (pl_attempts s)"
    and "\<forall>e \<in> set es. a \<le> at_time e \<and> at_time e < a + pg_windowMs c"
  shows "accepted (recordPairingAttempt c) cleanupPairing k es s \<le> 2 * pg_maxAttempts c"
  using pairing.accepted_twice [OF assms] .

definition three_attempts :: "string limiter_event list" where
  "three_attempts = [Attempt 7 ''ABCD2345'', Attempt 8 ''ABCD2345'', Attempt 9 ''ABCD2345'']"

theorem pairing_attempts_bounded_witness:
  "let c = \<lparr>pg_maxAttempts = 2, pg_windowMs = 1000, pg_maxCodesPerWindow = 1\<rparr>
   in accepted (recordPairingAttempt c) cleanupPairing ''ABCD2345'' three_attempts
        \<lparr>pl_codeTimes = [], pl_attempts = []\<rparr> \<le> 2 * pg_maxAttempts c"
  unfolding Let_def
proof (rule pairing_attempts_bounded [where a = 7])
  show "\<forall>e \<in> set three_attempts. 7 \<le> at_time e \<and> at_time e < 7 +
      pg_windowMs \<lparr>pg_maxAttempts = 2, pg_windowMs = 1000, pg_maxCodesPerWindow = 1\<rparr>"
    by (simp add: three_attempts_def at_time_def)
qed simp_all

lemma ceil_div_bounds:
  assumes "(r :: int) > 0" shows "1000 * ceil_div r 1000 \<ge> r" "ceil_div r 1000 > 0"
proof -
  have "- r = 1000 * (- r div 1000) + (- r) mod 1000" by simp
  moreover have "0 \<le> (- r) mod 1000" "(- r) mod 1000 < 1000" by simp_all
  ultimately show "1000 * ceil_div r 1000 \<ge> r" "ceil_div r 1000 > 0"
    using assms unfolding ceil_div_def by linarith+
qed

text \<open>
  The advice of \<open>retryAfterSeconds\<close> is right: a refused key is told a positive number of
  seconds, and after waiting that long, with no attempt in between, it is allowed.
\<close>

theorem retry_after_suffices:
  assumes "\<not> isAllowed c now key s"
  shows "retryAfterSeconds c now key s > 0 \<and>
    isAllowed c (now + 1000 * retryAfterSeconds c now key s) key s"
proof -
  obtain e where e: "map_of s key = Some e" "now - we_windowStartedAt e < lc_windowMs c"
    using assms by (auto simp: isAllowed_def split: option.splits if_splits)
  let ?r = "lc_windowMs c - (now - we_windowStartedAt e)"
  have "1000 * ceil_div ?r 1000 \<ge> ?r" "ceil_div ?r 1000 > 0"
    using e(2) by (intro ceil_div_bounds; simp)+
  then show ?thesis using e by (simp add: retryAfterSeconds_def Let_def isAllowed_def)
qed

theorem retry_after_suffices_witness:
  "let c = \<lparr>lc_windowMs = 1500, lc_maxAttempts = 1\<rparr>; s = recordAttempt c 0 ''k'' []
   in retryAfterSeconds c 3 ''k'' s = 2 \<and> isAllowed c (3 + 1000 * 2) ''k'' s"
proof -
  let ?c = "\<lparr>lc_windowMs = 1500, lc_maxAttempts = 1\<rparr>"
  have r: "retryAfterSeconds ?c 3 ''k'' (recordAttempt ?c 0 ''k'' []) = 2" by code_simp
  have "\<not> isAllowed ?c 3 ''k'' (recordAttempt ?c 0 ''k'' [])" by code_simp
  from retry_after_suffices [OF this] r show ?thesis unfolding Let_def by simp
qed

section \<open>Pairing codes\<close>

definition PAIRING_CODE_CHARSET :: string where
  "PAIRING_CODE_CHARSET = ''ABCDEFGHJKLMNPQRSTUVWXYZ23456789''"

definition PAIRING_CODE_LENGTH :: nat where
  "PAIRING_CODE_LENGTH = 8"

text \<open>The random bytes are the argument; there is one per character.\<close>

definition generatePairingCode :: "nat list \<Rightarrow> string" where
  "generatePairingCode random =
     map (\<lambda>b. PAIRING_CODE_CHARSET ! (b mod length PAIRING_CODE_CHARSET)) random"

definition validatePairingCodeFormat :: "nat \<Rightarrow> string \<Rightarrow> bool" where
  "validatePairingCodeFormat expected code =
     (if length code \<noteq> expected then False
      else code \<noteq> [] \<and> list_all (\<lambda>c. c \<in> set PAIRING_CODE_CHARSET) code)"

definition guarded_generation :: "pairing_config \<Rightarrow> int \<Rightarrow> pairing_limiter \<Rightarrow> bool \<times> pairing_limiter" where
  "guarded_generation c now s =
     (let (b, s') = canGenerateCode c now s in
      if b then (True, recordCodeGeneration now s') else (False, s'))"

lemma map_cycle: "map (\<lambda>b. xs ! (b mod length xs)) [0..<k * length xs] = concat (replicate k xs)"
proof (induction k)
  case 0
  then show ?case by simp
next
  case (Suc k)
  have "map (\<lambda>b. xs ! (b mod length xs)) [k * length xs..<Suc k * length xs] = xs"
    by (rule nth_equalityI) (simp_all add: add.commute)
  moreover have "[0..<Suc k * length xs] = [0..<k * length xs] @ [k * length xs..<Suc k * length xs]"
    by (metis add.commute le_add1 mult_Suc upt_add_eq_append zero_le le_add_diff_inverse)
  moreover have "concat (replicate (Suc k) xs) = concat (replicate k xs) @ xs"
    by (metis append_Nil2 concat.simps concat_append replicate_Suc replicate_append_same)
  ultimately show ?case using Suc by simp
qed

lemma length_filter_map: "length (filter P (map f xs)) = length (filter (\<lambda>x. P (f x)) xs)"
  by (induction xs) auto

lemma length_filter_cycle: "length (filter P (concat (replicate k xs))) = k * length (filter P xs)"
  by (induction k) auto

lemma charset_once: "\<forall>c \<in> set PAIRING_CODE_CHARSET. length (filter (\<lambda>d. d = c) PAIRING_CODE_CHARSET) = 1"
  by code_simp

text \<open>
  Generated codes have the accepted format, and every character of the alphabet is produced
  by the same number of byte values, so no code is likelier than another.
\<close>

theorem pairing_codes_valid_and_unbiased:
  "(random \<noteq> [] \<longrightarrow> validatePairingCodeFormat (length random) (generatePairingCode random)) \<and>
   (\<forall>c \<in> set PAIRING_CODE_CHARSET. length (filter (\<lambda>b. generatePairingCode [b] = [c]) [0..<256]) = 8)"
proof
  have "PAIRING_CODE_CHARSET ! (b mod length PAIRING_CODE_CHARSET) \<in> set PAIRING_CODE_CHARSET" for b
    by (rule nth_mem) (simp add: PAIRING_CODE_CHARSET_def)
  then show "random \<noteq> [] \<longrightarrow> validatePairingCodeFormat (length random) (generatePairingCode random)"
    by (auto simp: validatePairingCodeFormat_def generatePairingCode_def list_all_iff)
  show "\<forall>c \<in> set PAIRING_CODE_CHARSET. length (filter (\<lambda>b. generatePairingCode [b] = [c]) [0..<256]) = 8"
  proof
    fix c assume c: "c \<in> set PAIRING_CODE_CHARSET"
    let ?f = "\<lambda>b. PAIRING_CODE_CHARSET ! (b mod length PAIRING_CODE_CHARSET)"
    have "length (filter (\<lambda>b. ?f b = c) [0..<8 * length PAIRING_CODE_CHARSET]) = 8"
      using c charset_once
      by (simp only: length_filter_map [of "\<lambda>d. d = c" ?f, symmetric] map_cycle length_filter_cycle)
    moreover have "8 * length PAIRING_CODE_CHARSET = 256" by (simp add: PAIRING_CODE_CHARSET_def)
    ultimately show "length (filter (\<lambda>b. generatePairingCode [b] = [c]) [0..<256]) = 8"
      by (simp only: generatePairingCode_def list.map list.inject simp_thms)
  qed
qed

theorem pairing_codes_valid_and_unbiased_witness:
  "validatePairingCodeFormat PAIRING_CODE_LENGTH (generatePairingCode [0, 31, 32, 255, 7, 8, 9, 100])"
proof -
  have "length [0, 31, 32, 255, 7, 8, 9, 100 :: nat] = PAIRING_CODE_LENGTH"
    by (simp add: PAIRING_CODE_LENGTH_def)
  with pairing_codes_valid_and_unbiased [of "[0, 31, 32, 255, 7, 8, 9, 100]"] show ?thesis
    by (metis list.distinct(1))
qed

fun generations :: "pairing_config \<Rightarrow> int list \<Rightarrow> pairing_limiter \<Rightarrow> int list" where
  "generations c [] s = []"
| "generations c (now # ts) s =
     (let (b, s') = guarded_generation c now s in (if b then [now] else []) @ generations c ts s')"

lemma length_filter_mono: "(\<And>x. P x \<Longrightarrow> Q x) \<Longrightarrow> length (filter P xs) \<le> length (filter Q xs)"
  by (induction xs) auto

lemma filter_filter_mono: "(\<And>x. P x \<Longrightarrow> Q x) \<Longrightarrow> filter P (filter Q xs) = filter P xs"
  by (induction xs) auto

lemma generations_bounded:
  assumes "\<forall>t \<ge> n. filter (\<lambda>x. t - x < pg_windowMs c) (pl_codeTimes s) = filter (\<lambda>x. t - x < pg_windowMs c) G"
    and "\<forall>T. length (filter (\<lambda>x. T - x < pg_windowMs c \<and> x \<le> T) G) \<le> pg_maxCodesPerWindow c"
    and "sorted ts" "\<forall>t \<in> set ts. n \<le> t"
  shows "\<forall>T. length (filter (\<lambda>x. T - x < pg_windowMs c \<and> x \<le> T) (G @ generations c ts s))
    \<le> pg_maxCodesPerWindow c"
  using assms
proof (induction ts arbitrary: n s G)
  case Nil
  then show ?case by simp
next
  case (Cons now ts)
  let ?w = "pg_windowMs c"
  let ?old = "filter (\<lambda>x. now - x < ?w) (pl_codeTimes s)"
  have old: "?old = filter (\<lambda>x. now - x < ?w) G" using Cons.prems(1,4) by simp
  have keep: "filter (\<lambda>x. t - x < ?w) ?old = filter (\<lambda>x. t - x < ?w) G" if "t \<ge> now" for t
    unfolding old using that by (intro filter_filter_mono) auto
  have later: "sorted ts" "\<forall>t \<in> set ts. now \<le> t" using Cons.prems(3) by auto
  show ?case
  proof (cases "length ?old < pg_maxCodesPerWindow c")
    case True
    let ?s = "s\<lparr>pl_codeTimes := ?old @ [now]\<rparr>"
    have g: "generations c (now # ts) s = now # generations c ts ?s"
      using True by (simp add: guarded_generation_def canGenerateCode_def recordCodeGeneration_def Let_def)
    have "\<forall>T. length (filter (\<lambda>x. T - x < ?w \<and> x \<le> T) (G @ [now])) \<le> pg_maxCodesPerWindow c"
    proof
      fix T
      show "length (filter (\<lambda>x. T - x < ?w \<and> x \<le> T) (G @ [now])) \<le> pg_maxCodesPerWindow c"
      proof (cases "now \<le> T")
        case False
        then show ?thesis using Cons.prems(2) by simp
      next
        case le: True
        have "length (filter (\<lambda>x. T - x < ?w \<and> x \<le> T) G) \<le> length ?old"
          unfolding old using le by (intro length_filter_mono) auto
        with True show ?thesis by simp
      qed
    qed
    moreover have "\<forall>t \<ge> now. filter (\<lambda>x. t - x < ?w) (pl_codeTimes ?s) = filter (\<lambda>x. t - x < ?w) (G @ [now])"
      using keep by simp
    ultimately have "\<forall>T. length (filter (\<lambda>x. T - x < ?w \<and> x \<le> T) ((G @ [now]) @ generations c ts ?s))
        \<le> pg_maxCodesPerWindow c"
      by (intro Cons.IH [OF _ _ later])
    then show ?thesis unfolding g by simp
  next
    case False
    let ?s = "s\<lparr>pl_codeTimes := ?old\<rparr>"
    have g: "generations c (now # ts) s = generations c ts ?s"
      using False by (simp add: guarded_generation_def canGenerateCode_def Let_def)
    have "\<forall>t \<ge> now. filter (\<lambda>x. t - x < ?w) (pl_codeTimes ?s) = filter (\<lambda>x. t - x < ?w) G"
      using keep by simp
    from Cons.IH [OF this Cons.prems(2) later] show ?thesis unfolding g .
  qed
qed

text \<open>
  Code generation is limited by a true sliding window: as long as the clock does not run
  backwards, at no time are more than the configured number of generations younger than a window.
\<close>

theorem code_generation_sliding_window:
  assumes "sorted ts"
  shows "length (filter (\<lambda>x. T - x < pg_windowMs c \<and> x \<le> T)
      (generations c ts \<lparr>pl_codeTimes = [], pl_attempts = []\<rparr>)) \<le> pg_maxCodesPerWindow c"
proof (cases ts)
  case (Cons t ts')
  from generations_bounded [of t c "\<lparr>pl_codeTimes = [], pl_attempts = []\<rparr>" "[]" ts] assms Cons
  show ?thesis by simp
qed simp

theorem code_generation_sliding_window_witness:
  "length (filter (\<lambda>x. 8 - x < 300000 \<and> x \<le> 8) (generations DEFAULT_RATE_LIMITER_CONFIG [1, 2, 3, 4, 5, 6, 7, 8]
     \<lparr>pl_codeTimes = [], pl_attempts = []\<rparr>)) \<le> 5"
proof -
  have "sorted [1, 2, 3, 4, 5, 6, 7, 8 :: int]" by simp
  from code_generation_sliding_window [OF this, of 8 DEFAULT_RATE_LIMITER_CONFIG]
  show ?thesis by (simp add: DEFAULT_RATE_LIMITER_CONFIG_def)
qed

end
