(* ===== verification/Connections.thy ===== *)
theory Connections
  imports Prelude
begin

text \<open>
  The registry of live connections (\<open>control-plane/src/tunnel/connection-registry.ts\<close>): a map of
  maps from a device to its tunnel connections, the round-robin cursors, and the web clients with
  their subscriptions.  A socket is a number; its \<open>readyState\<close> belongs to the WebSocket library and is
  the function \<open>rg_ready\<close> of the state.  Sockets the registry closes are listed in \<open>rg_closed\<close>.
\<close>

section \<open>Data\<close>

datatype admission_phase = Running | Draining | Aborting | Stopped

record gateway_connection =
  gc_deviceId :: string
  gc_gatewayId :: string
  gc_socket :: nat
  gc_connectedAt :: int
  gc_lastHeartbeatAt :: int
  gc_remoteAddress :: "string option"
  gc_capabilities :: "string list"
  gc_admissionPhase :: "admission_phase option"
  gc_connectionId :: "string option"
  gc_inFlight :: "int option"

record client_connection =
  cc_clientId :: string
  cc_userId :: string
  cc_socket :: nat
  cc_connectedAt :: int
  cc_sessions :: "string list"
  cc_devices :: "string list"

record registry =
  rg_gateways :: "(string, (string, gateway_connection) jmap) jmap"
  rg_clients :: "(string, client_connection) jmap"
  rg_cursor :: "(string, nat) jmap"
  rg_ready :: "nat \<Rightarrow> nat"
  rg_closed :: "nat list"

definition WS_OPEN :: nat where "WS_OPEN = 1"

section \<open>Gateways\<close>

definition slot :: "gateway_connection \<Rightarrow> string" where
  "slot c = (case gc_connectionId c of None \<Rightarrow> ''default'' | Some i \<Rightarrow> i)"

definition slots :: "string \<Rightarrow> registry \<Rightarrow> (string, gateway_connection) jmap" where
  "slots dev r = (case map_of (rg_gateways r) dev of None \<Rightarrow> [] | Some m \<Rightarrow> m)"

definition registerGateway :: "gateway_connection \<Rightarrow> registry \<Rightarrow> registry" where
  "registerGateway c r =
     (let key = slot c;
          existing = slots (gc_deviceId c) r;
          closed = (case map_of existing key of
              None \<Rightarrow> []
            | Some p \<Rightarrow> if gc_socket p \<noteq> gc_socket c then [gc_socket p] else []);
          stored = c\<lparr>gc_inFlight := (case gc_inFlight c of None \<Rightarrow> Some 0 | Some n \<Rightarrow> Some n)\<rparr>
      in r\<lparr>rg_gateways := AList.update (gc_deviceId c) (AList.update key stored existing) (rg_gateways r),
           rg_closed := rg_closed r @ closed\<rparr>)"

definition listGatewayConnections :: "string \<Rightarrow> registry \<Rightarrow> gateway_connection list" where
  "listGatewayConnections dev r = map snd (slots dev r)"

definition healthy :: "registry \<Rightarrow> gateway_connection \<Rightarrow> bool" where
  "healthy r c \<longleftrightarrow> rg_ready r (gc_socket c) = WS_OPEN"

definition listHealthyConnections :: "string \<Rightarrow> registry \<Rightarrow> gateway_connection list" where
  "listHealthyConnections dev r = filter (healthy r) (listGatewayConnections dev r)"

definition countConnections :: "string \<Rightarrow> registry \<Rightarrow> nat" where
  "countConnections dev r = length (listHealthyConnections dev r)"

definition load :: "gateway_connection \<Rightarrow> int" where
  "load c = (case gc_inFlight c of None \<Rightarrow> 0 | Some n \<Rightarrow> n)"

definition leastLoaded :: "gateway_connection list \<Rightarrow> gateway_connection list" where
  "leastLoaded cs = filter (\<lambda>c. load c = Min (set (map load cs))) cs"

definition pickConnection :: "string \<Rightarrow> registry \<Rightarrow> gateway_connection option \<times> registry" where
  "pickConnection dev r =
     (case listHealthyConnections dev r of
        [] \<Rightarrow> (None, r)
      | [c] \<Rightarrow> (Some c, r)
      | cs \<Rightarrow>
          (let least = leastLoaded cs;
               cursor = (case map_of (rg_cursor r) dev of None \<Rightarrow> 0 | Some n \<Rightarrow> n) mod length least
           in (Some (least ! cursor), r\<lparr>rg_cursor := AList.update dev (Suc cursor) (rg_cursor r)\<rparr>)))"

definition getGateway :: "string \<Rightarrow> registry \<Rightarrow> gateway_connection option \<times> registry" where
  "getGateway dev r =
     (let (c, r') = pickConnection dev r in
      case c of
        Some x \<Rightarrow> (Some x, r')
      | None \<Rightarrow> ((case listGatewayConnections dev r' of [] \<Rightarrow> None | x # _ \<Rightarrow> Some x), r'))"

definition removeGatewayConnection :: "string \<Rightarrow> string \<Rightarrow> registry \<Rightarrow> bool \<times> registry" where
  "removeGatewayConnection dev key r =
     (case map_of (rg_gateways r) dev of
        None \<Rightarrow> (False, r)
      | Some m \<Rightarrow>
          (let m' = AList.delete key m; removed = (map_of m key \<noteq> None) in
           if m' = [] then
             (removed, r\<lparr>rg_gateways := AList.delete dev (rg_gateways r),
                         rg_cursor := AList.delete dev (rg_cursor r)\<rparr>)
           else (removed, r\<lparr>rg_gateways := AList.update dev m' (rg_gateways r)\<rparr>)))"

definition removeGatewaySocket :: "string \<Rightarrow> nat \<Rightarrow> registry \<Rightarrow> bool \<times> registry" where
  "removeGatewaySocket dev sock r =
     (case List.find (\<lambda>(k, c). gc_socket c = sock) (slots dev r) of
        None \<Rightarrow> (False, r)
      | Some (k, _) \<Rightarrow> removeGatewayConnection dev k r)"

definition removeGateway :: "string \<Rightarrow> registry \<Rightarrow> bool \<times> registry" where
  "removeGateway dev r =
     (map_of (rg_gateways r) dev \<noteq> None,
      r\<lparr>rg_gateways := AList.delete dev (rg_gateways r), rg_cursor := AList.delete dev (rg_cursor r)\<rparr>)"

definition isDeviceOnline :: "string \<Rightarrow> registry \<Rightarrow> bool" where
  "isDeviceOnline dev r \<longleftrightarrow> listHealthyConnections dev r \<noteq> []"

definition setAdmissionPhase :: "string \<Rightarrow> admission_phase \<Rightarrow> registry \<Rightarrow> registry" where
  "setAdmissionPhase dev p r =
     (case map_of (rg_gateways r) dev of
        None \<Rightarrow> r
      | Some m \<Rightarrow> r\<lparr>rg_gateways := AList.update dev
          (map (\<lambda>(k, c). (k, c\<lparr>gc_admissionPhase := Some p\<rparr>)) m) (rg_gateways r)\<rparr>)"

definition phase_of :: "gateway_connection \<Rightarrow> admission_phase" where
  "phase_of c = (case gc_admissionPhase c of None \<Rightarrow> Running | Some p \<Rightarrow> p)"

definition getAdmissionPhase :: "string \<Rightarrow> registry \<Rightarrow> admission_phase" where
  "getAdmissionPhase dev r =
     (case List.find (\<lambda>p. p \<noteq> Running) (map phase_of (listGatewayConnections dev r)) of
        None \<Rightarrow> Running | Some p \<Rightarrow> p)"

definition isDeviceAcceptingSessions :: "string \<Rightarrow> registry \<Rightarrow> bool" where
  "isDeviceAcceptingSessions dev r \<longleftrightarrow> isDeviceOnline dev r \<and> getAdmissionPhase dev r = Running"

definition listConnectedDevices :: "registry \<Rightarrow> string list" where
  "listConnectedDevices r = map fst (rg_gateways r)"

section \<open>Web clients\<close>

definition set_add :: "string \<Rightarrow> string list \<Rightarrow> string list" where
  "set_add x xs = (if x \<in> set xs then xs else xs @ [x])"

definition registerClient :: "client_connection \<Rightarrow> registry \<Rightarrow> registry" where
  "registerClient c r = r\<lparr>rg_clients := AList.update (cc_clientId c) c (rg_clients r)\<rparr>"

definition getClient :: "string \<Rightarrow> registry \<Rightarrow> client_connection option" where
  "getClient i r = map_of (rg_clients r) i"

definition removeClient :: "string \<Rightarrow> registry \<Rightarrow> bool \<times> registry" where
  "removeClient i r =
     (map_of (rg_clients r) i \<noteq> None, r\<lparr>rg_clients := AList.delete i (rg_clients r)\<rparr>)"

definition updateClient ::
  "string \<Rightarrow> (client_connection \<Rightarrow> client_connection) \<Rightarrow> registry \<Rightarrow> registry" where
  "updateClient i f r =
     (case map_of (rg_clients r) i of
        None \<Rightarrow> r | Some c \<Rightarrow> r\<lparr>rg_clients := AList.update i (f c) (rg_clients r)\<rparr>)"

definition subscribeClientToSession :: "string \<Rightarrow> string \<Rightarrow> registry \<Rightarrow> registry" where
  "subscribeClientToSession i sid =
     updateClient i (\<lambda>c. c\<lparr>cc_sessions := set_add sid (cc_sessions c)\<rparr>)"

definition unsubscribeClientFromSession :: "string \<Rightarrow> string \<Rightarrow> registry \<Rightarrow> registry" where
  "unsubscribeClientFromSession i sid =
     updateClient i (\<lambda>c. c\<lparr>cc_sessions := filter (\<lambda>x. x \<noteq> sid) (cc_sessions c)\<rparr>)"

definition getClientsSubscribedToSession :: "string \<Rightarrow> registry \<Rightarrow> client_connection list" where
  "getClientsSubscribedToSession sid r =
     filter (\<lambda>c. sid \<in> set (cc_sessions c)) (map snd (rg_clients r))"

definition getClientsForUser :: "string \<Rightarrow> registry \<Rightarrow> client_connection list" where
  "getClientsForUser u r = filter (\<lambda>c. cc_userId c = u) (map snd (rg_clients r))"

definition getClientsSubscribedToDevice :: "string \<Rightarrow> registry \<Rightarrow> client_connection list" where
  "getClientsSubscribedToDevice dev r =
     filter (\<lambda>c. dev \<in> set (cc_devices c)) (map snd (rg_clients r))"

definition getClientsSubscribedToUser :: "registry \<Rightarrow> client_connection list" where
  "getClientsSubscribedToUser r = []"

section \<open>Runs\<close>

datatype registry_op =
    Rg_Register gateway_connection
  | Rg_Pick string
  | Rg_Remove string string
  | Rg_Remove_Socket string nat
  | Rg_Remove_Device string
  | Rg_Phase string admission_phase
  | Rg_Register_Client client_connection
  | Rg_Remove_Client string
  | Rg_Subscribe string string
  | Rg_Unsubscribe string string
  | Rg_Socket nat nat

text \<open>The last operation is the environment: a socket changes its state.\<close>

fun registry_step :: "registry \<Rightarrow> registry_op \<Rightarrow> registry" where
  "registry_step r (Rg_Register c) = registerGateway c r"
| "registry_step r (Rg_Pick dev) = snd (getGateway dev r)"
| "registry_step r (Rg_Remove dev key) = snd (removeGatewayConnection dev key r)"
| "registry_step r (Rg_Remove_Socket dev sock) = snd (removeGatewaySocket dev sock r)"
| "registry_step r (Rg_Remove_Device dev) = snd (removeGateway dev r)"
| "registry_step r (Rg_Phase dev p) = setAdmissionPhase dev p r"
| "registry_step r (Rg_Register_Client c) = registerClient c r"
| "registry_step r (Rg_Remove_Client i) = snd (removeClient i r)"
| "registry_step r (Rg_Subscribe i sid) = subscribeClientToSession i sid r"
| "registry_step r (Rg_Unsubscribe i sid) = unsubscribeClientFromSession i sid r"
| "registry_step r (Rg_Socket sock st) = r\<lparr>rg_ready := (rg_ready r)(sock := st)\<rparr>"

definition device_ok :: "string \<times> (string, gateway_connection) jmap \<Rightarrow> bool" where
  "device_ok p \<longleftrightarrow> (case p of (dev, m) \<Rightarrow> m \<noteq> [] \<and> jmap_ok m \<and>
     (\<forall>(k, c) \<in> set m. gc_deviceId c = dev \<and> slot c = k))"

definition registry_inv :: "registry \<Rightarrow> bool" where
  "registry_inv r \<longleftrightarrow>
     jmap_ok (rg_gateways r) \<and> (\<forall>p \<in> set (rg_gateways r). device_ok p) \<and>
     jmap_ok (rg_clients r) \<and> (\<forall>(i, c) \<in> set (rg_clients r). cc_clientId c = i) \<and>
     dom (map_of (rg_cursor r)) \<subseteq> dom (map_of (rg_gateways r))"

lemma inv_slots:
  assumes "registry_inv r" "map_of (rg_gateways r) dev = Some m"
  shows "device_ok (dev, m)" "slots dev r = m"
  using assms map_of_SomeD [OF assms(2)] by (auto simp: registry_inv_def slots_def)

lemma inv_parts:
  assumes "registry_inv r"
  shows "jmap_ok (rg_gateways r)" "\<forall>p \<in> set (rg_gateways r). device_ok p" "jmap_ok (rg_clients r)"
    "\<forall>(i, c) \<in> set (rg_clients r). cc_clientId c = i"
    "dom (map_of (rg_cursor r)) \<subseteq> dom (map_of (rg_gateways r))"
  using assms unfolding registry_inv_def by blast+

lemma registry_invI:
  assumes "jmap_ok (rg_gateways r)" "\<forall>p \<in> set (rg_gateways r). device_ok p" "jmap_ok (rg_clients r)"
    "\<forall>(i, c) \<in> set (rg_clients r). cc_clientId c = i"
    "dom (map_of (rg_cursor r)) \<subseteq> dom (map_of (rg_gateways r))"
  shows "registry_inv r"
  using assms unfolding registry_inv_def by blast

lemma registry_inv_put:
  assumes inv: "registry_inv r" and ok: "device_ok (dev, m)"
  shows "registry_inv (r\<lparr>rg_gateways := AList.update dev m (rg_gateways r), rg_closed := cl\<rparr>)"
proof (rule registry_invI)
  let ?r = "r\<lparr>rg_gateways := AList.update dev m (rg_gateways r), rg_closed := cl\<rparr>"
  note i = inv_parts [OF inv]
  show "jmap_ok (rg_gateways ?r)" using i(1) by (simp add: distinct_update)
  show "\<forall>p \<in> set (rg_gateways ?r). device_ok p" using jmap_update_ball [OF i(1,2) ok] by simp
  show "jmap_ok (rg_clients ?r)" using i(3) by simp
  show "\<forall>(j, c) \<in> set (rg_clients ?r). cc_clientId c = j" using i(4) by simp
  have "dom (map_of (rg_gateways ?r)) = insert dev (dom (map_of (rg_gateways r)))"
    by (simp add: update_conv')
  then show "dom (map_of (rg_cursor ?r)) \<subseteq> dom (map_of (rg_gateways ?r))" using i(5) by auto
qed

lemma registry_inv_drop:
  assumes inv: "registry_inv r"
  shows "registry_inv (r\<lparr>rg_gateways := AList.delete dev (rg_gateways r),
    rg_cursor := AList.delete dev (rg_cursor r)\<rparr>)"
proof (rule registry_invI)
  let ?r = "r\<lparr>rg_gateways := AList.delete dev (rg_gateways r), rg_cursor := AList.delete dev (rg_cursor r)\<rparr>"
  note i = inv_parts [OF inv]
  show "jmap_ok (rg_gateways ?r)" using i(1) by (simp add: distinct_delete)
  show "\<forall>p \<in> set (rg_gateways ?r). device_ok p" using jmap_delete_ball [OF i(2)] by simp
  show "jmap_ok (rg_clients ?r)" using i(3) by simp
  show "\<forall>(j, c) \<in> set (rg_clients ?r). cc_clientId c = j" using i(4) by simp
  show "dom (map_of (rg_cursor ?r)) \<subseteq> dom (map_of (rg_gateways ?r))"
    using i(5) by (auto simp: delete_conv')
qed

lemma device_ok_update:
  assumes "m = [] \<or> device_ok (dev, m)" "gc_deviceId c = dev" "slot c = k"
  shows "device_ok (dev, AList.update k c m)"
proof -
  have m: "jmap_ok m" "\<forall>(j, c) \<in> set m. gc_deviceId c = dev \<and> slot c = j"
    using assms(1) by (auto simp: device_ok_def)
  have "\<forall>(j, c) \<in> set (AList.update k c m). gc_deviceId c = dev \<and> slot c = j"
    by (rule jmap_update_ball [OF m]) (use assms in simp)
  moreover have "AList.update k c m \<noteq> []" by (cases m) auto
  ultimately show ?thesis using m(1) by (simp add: device_ok_def distinct_update)
qed

lemma registry_inv_clients:
  assumes inv: "registry_inv r" and "jmap_ok m" "\<forall>(i, c) \<in> set m. cc_clientId c = i"
  shows "registry_inv (r\<lparr>rg_clients := m\<rparr>)"
  by (rule registry_invI) (use inv_parts [OF inv] assms(2,3) in simp_all)

lemma updateClient_inv:
  assumes inv: "registry_inv r" and f: "\<And>c. cc_clientId (f c) = cc_clientId c"
  shows "registry_inv (updateClient i f r)"
proof (cases "map_of (rg_clients r) i")
  case None
  then show ?thesis using inv by (simp add: updateClient_def)
next
  case (Some c)
  note p = inv_parts [OF inv]
  have "cc_clientId (f c) = i" using p(4) map_of_SomeD [OF Some] f by auto
  then have "registry_inv (r\<lparr>rg_clients := AList.update i (f c) (rg_clients r)\<rparr>)"
    by (intro registry_inv_clients [OF inv] jmap_update_ball p) (simp_all add: p distinct_update)
  then show ?thesis using Some by (simp add: updateClient_def)
qed

lemma leastLoaded_nonempty: "cs \<noteq> [] \<Longrightarrow> leastLoaded cs \<noteq> []"
proof -
  assume "cs \<noteq> []"
  then have "Min (set (map load cs)) \<in> set (map load cs)" by (intro Min_in) simp_all
  then obtain x where "x \<in> set cs" "Min (set (map load cs)) = load x" unfolding set_map by (rule imageE)
  then have "x \<in> set (leastLoaded cs)" by (simp add: leastLoaded_def)
  then show ?thesis by (metis empty_iff empty_set)
qed

lemma leastLoaded_least: "c \<in> set (leastLoaded cs) \<longleftrightarrow> c \<in> set cs \<and> (\<forall>d \<in> set cs. load c \<le> load d)"
proof
  assume "c \<in> set (leastLoaded cs)"
  then have "c \<in> set cs" "load c = Min (load ` set cs)" by (simp_all add: leastLoaded_def)
  then show "c \<in> set cs \<and> (\<forall>d \<in> set cs. load c \<le> load d)" by simp
next
  assume c: "c \<in> set cs \<and> (\<forall>d \<in> set cs. load c \<le> load d)"
  then have "Min (load ` set cs) = load c" by (intro Min_eqI) auto
  with c show "c \<in> set (leastLoaded cs)" by (simp add: leastLoaded_def)
qed

lemma pick_cases:
  obtains "listHealthyConnections dev r = []" "pickConnection dev r = (None, r)"
  | c where "listHealthyConnections dev r = [c]" "pickConnection dev r = (Some c, r)"
  | c d cs n where "listHealthyConnections dev r = c # d # cs"
      "n < length (leastLoaded (c # d # cs))"
      "n = (case map_of (rg_cursor r) dev of None \<Rightarrow> 0 | Some k \<Rightarrow> k) mod length (leastLoaded (c # d # cs))"
      "pickConnection dev r = (Some (leastLoaded (c # d # cs) ! n),
         r\<lparr>rg_cursor := AList.update dev (Suc n) (rg_cursor r)\<rparr>)"
proof (cases "listHealthyConnections dev r")
  case Nil
  then show ?thesis using that(1) by (simp add: pickConnection_def)
next
  case (Cons c ds)
  show ?thesis
  proof (cases ds)
    case Nil
    then show ?thesis using that(2) Cons by (simp add: pickConnection_def)
  next
    case ds: (Cons d cs)
    let ?L = "leastLoaded (c # d # cs)"
    have "?L \<noteq> []" by (rule leastLoaded_nonempty) simp
    then have "length ?L > 0" by simp
    then show ?thesis
      using that(3) [of c d cs "(case map_of (rg_cursor r) dev of None \<Rightarrow> 0 | Some k \<Rightarrow> k) mod length ?L"] Cons ds
      by (simp add: pickConnection_def Let_def)
  qed
qed

lemma healthy_registered: "listHealthyConnections dev r \<noteq> [] \<Longrightarrow> dev \<in> dom (map_of (rg_gateways r))"
  by (auto simp: listHealthyConnections_def listGatewayConnections_def slots_def split: option.splits)

lemma pick_inv:
  assumes inv: "registry_inv r" shows "registry_inv (snd (pickConnection dev r))"
proof (cases rule: pick_cases [of dev r])
  case (3 c d cs n)
  have "registry_inv (r\<lparr>rg_cursor := AList.update dev (Suc n) (rg_cursor r)\<rparr>)"
  proof (rule registry_invI)
    show "dom (map_of (rg_cursor (r\<lparr>rg_cursor := AList.update dev (Suc n) (rg_cursor r)\<rparr>)))
        \<subseteq> dom (map_of (rg_gateways (r\<lparr>rg_cursor := AList.update dev (Suc n) (rg_cursor r)\<rparr>)))"
      using inv_parts(5) [OF inv] healthy_registered [of dev r] 3(1) by (simp add: update_conv')
  qed (use inv_parts [OF inv] in simp_all)
  then show ?thesis using 3 by simp
qed (use inv in simp_all)

lemma getGateway_state: "snd (getGateway dev r) = snd (pickConnection dev r)"
  by (simp add: getGateway_def Let_def split_beta split: option.split)

lemma removeGatewayConnection_inv:
  assumes inv: "registry_inv r" shows "registry_inv (snd (removeGatewayConnection dev key r))"
proof (cases "map_of (rg_gateways r) dev")
  case None
  then show ?thesis using inv by (simp add: removeGatewayConnection_def)
next
  case (Some m)
  note m = inv_slots [OF inv Some]
  show ?thesis
  proof (cases "AList.delete key m = []")
    case True
    then show ?thesis using Some registry_inv_drop [OF inv] by (simp add: removeGatewayConnection_def Let_def)
  next
    case False
    then have "device_ok (dev, AList.delete key m)"
      using m(1) jmap_delete_ball [of m "\<lambda>(k, c). gc_deviceId c = dev \<and> slot c = k" key]
      by (simp add: device_ok_def distinct_delete)
    from registry_inv_put [OF inv this, of "rg_closed r"] False Some show ?thesis
      by (simp add: removeGatewayConnection_def Let_def)
  qed
qed

lemma setAdmissionPhase_inv:
  assumes inv: "registry_inv r" shows "registry_inv (setAdmissionPhase dev p r)"
proof (cases "map_of (rg_gateways r) dev")
  case None
  then show ?thesis using inv by (simp add: setAdmissionPhase_def)
next
  case (Some m)
  let ?m = "map (\<lambda>(k, c). (k, c\<lparr>gc_admissionPhase := Some p\<rparr>)) m"
  have "map fst ?m = map fst m" by auto
  then have "device_ok (dev, ?m)"
    using inv_slots(1) [OF inv Some] unfolding device_ok_def by (auto simp: slot_def simp del: map_map)
  from registry_inv_put [OF inv this, of "rg_closed r"] Some show ?thesis
    by (simp add: setAdmissionPhase_def)
qed

lemma registerGateway_inv:
  assumes inv: "registry_inv r" shows "registry_inv (registerGateway c r)"
proof -
  let ?s = "c\<lparr>gc_inFlight := (case gc_inFlight c of None \<Rightarrow> Some 0 | Some n \<Rightarrow> Some n)\<rparr>"
  have "slots (gc_deviceId c) r = [] \<or> device_ok (gc_deviceId c, slots (gc_deviceId c) r)"
    using inv_slots [OF inv] by (cases "map_of (rg_gateways r) (gc_deviceId c)") (auto simp: slots_def)
  then have "device_ok (gc_deviceId c, AList.update (slot c) ?s (slots (gc_deviceId c) r))"
    by (rule device_ok_update) (simp_all add: slot_def)
  from registry_inv_put [OF inv this] show ?thesis by (simp add: registerGateway_def Let_def)
qed

lemma registry_step_inv:
  assumes inv: "registry_inv r" shows "registry_inv (registry_step r e)"
proof (cases e)
  case (Rg_Remove_Socket dev sock)
  then show ?thesis using inv removeGatewayConnection_inv [OF inv]
    by (simp add: removeGatewaySocket_def split: option.split prod.split)
next
  case (Rg_Register_Client c)
  note p = inv_parts [OF inv]
  have "registry_inv (r\<lparr>rg_clients := AList.update (cc_clientId c) c (rg_clients r)\<rparr>)"
    by (intro registry_inv_clients [OF inv] jmap_update_ball p) (simp_all add: p distinct_update)
  then show ?thesis using Rg_Register_Client by (simp add: registerClient_def)
next
  case (Rg_Remove_Client i)
  note p = inv_parts [OF inv]
  have "registry_inv (r\<lparr>rg_clients := AList.delete i (rg_clients r)\<rparr>)"
    by (intro registry_inv_clients [OF inv] jmap_delete_ball p) (simp add: p distinct_delete)
  then show ?thesis using Rg_Remove_Client by (simp add: removeClient_def)
next
  case (Rg_Socket sock st)
  have "registry_inv (r\<lparr>rg_ready := (rg_ready r)(sock := st)\<rparr>)"
    by (rule registry_invI) (use inv_parts [OF inv] in simp_all)
  then show ?thesis using Rg_Socket by simp
qed (simp_all add: inv registerGateway_inv getGateway_state pick_inv removeGatewayConnection_inv
    removeGateway_def registry_inv_drop setAdmissionPhase_inv subscribeClientToSession_def
    unsubscribeClientFromSession_def updateClient_inv)

interpretation registry: transition_system registry_step registry_inv
  by unfold_locales (rule registry_step_inv)

definition empty_registry :: "(nat \<Rightarrow> nat) \<Rightarrow> registry" where
  "empty_registry ready = \<lparr>rg_gateways = [], rg_clients = [], rg_cursor = [], rg_ready = ready, rg_closed = []\<rparr>"

lemma registry_inv_empty: "registry_inv (empty_registry ready)"
  by (rule registry_invI) (simp_all add: empty_registry_def)

section \<open>What the registry promises\<close>

lemma device_entry:
  assumes inv: "registry_inv r" and dev: "dev \<in> set (listConnectedDevices r)"
  shows "listGatewayConnections dev r \<noteq> []"
    and "c \<in> set (listGatewayConnections dev r) \<Longrightarrow>
      gc_deviceId c = dev \<and> map_of (slots dev r) (slot c) = Some c"
proof -
  have "map_of (rg_gateways r) dev \<noteq> None"
    using dev unfolding listConnectedDevices_def map_of_eq_None_iff by simp
  then obtain m where m: "map_of (rg_gateways r) dev = Some m" by blast
  note s = inv_slots [OF inv m]
  have d: "m \<noteq> []" "jmap_ok m" "\<forall>(k, c) \<in> set m. gc_deviceId c = dev \<and> slot c = k"
    using s(1) unfolding device_ok_def case_prod_conv by blast+
  show "listGatewayConnections dev r \<noteq> []" using d(1) s(2) by (simp add: listGatewayConnections_def)
  assume "c \<in> set (listGatewayConnections dev r)"
  then obtain k where k: "(k, c) \<in> set m" using s(2) by (auto simp: listGatewayConnections_def)
  then have "gc_deviceId c = dev" "slot c = k" using d(3) by auto
  with k d(2) s(2) show "gc_deviceId c = dev \<and> map_of (slots dev r) (slot c) = Some c"
    by (simp only: jmap_find simp_thms)
qed

lemma cursor_entry: "registry_inv r \<Longrightarrow> set (map fst (rg_cursor r)) \<subseteq> set (listConnectedDevices r)"
  using inv_parts(5) [of r] by (simp add: listConnectedDevices_def dom_map_of_conv_image_fst)

text \<open>
  The maps stay consistent over any sequence of operations from an empty registry: every device
  listed has a connection, each connection is in its own device's entry under its own slot, and
  dispatch cursors exist only for listed devices.
\<close>

theorem registry_consistent:
  "let r = foldl registry_step (empty_registry ready) es
   in (\<forall>dev \<in> set (listConnectedDevices r). listGatewayConnections dev r \<noteq> [] \<and>
         (\<forall>c \<in> set (listGatewayConnections dev r). gc_deviceId c = dev \<and>
            map_of (slots dev r) (slot c) = Some c)) \<and>
      set (map fst (rg_cursor r)) \<subseteq> set (listConnectedDevices r)"
proof -
  note inv = registry.run_inv [OF registry_inv_empty, of ready es]
  show ?thesis unfolding Let_def
    by (intro conjI ballI device_entry(1) [OF inv] device_entry(2) [OF inv, THEN conjunct1]
        device_entry(2) [OF inv, THEN conjunct2] cursor_entry [OF inv])
qed

definition two_tunnels :: registry where
  "two_tunnels = foldl registry_step (empty_registry (\<lambda>_. 1))
     (map (\<lambda>(s, i). Rg_Register \<lparr>gc_deviceId = ''d1'', gc_gatewayId = ''g1'', gc_socket = s,
        gc_connectedAt = 0, gc_lastHeartbeatAt = 0, gc_remoteAddress = None, gc_capabilities = [],
        gc_admissionPhase = None, gc_connectionId = Some i, gc_inFlight = None\<rparr>)
      [(1, ''a''), (2, ''b'')])"

theorem registry_consistent_witness:
  "listGatewayConnections ''d1'' two_tunnels \<noteq> []"
proof -
  have "''d1'' \<in> set (listConnectedDevices two_tunnels)" by code_simp
  with registry_consistent [of "\<lambda>_. 1" "map (\<lambda>(s, i). Rg_Register \<lparr>gc_deviceId = ''d1'',
      gc_gatewayId = ''g1'', gc_socket = s, gc_connectedAt = 0, gc_lastHeartbeatAt = 0,
      gc_remoteAddress = None, gc_capabilities = [], gc_admissionPhase = None,
      gc_connectionId = Some i, gc_inFlight = None\<rparr>) [(1, ''a''), (2, ''b'')]",
      folded two_tunnels_def]
  show ?thesis unfolding Let_def by blast
qed

text \<open>
  C13: Dispatch picks a healthy connection of the device with the least commands in flight, and
  finds one exactly when the device is online.
\<close>

theorem pick_least_loaded:
  "case fst (pickConnection dev r) of
     None \<Rightarrow> \<not> isDeviceOnline dev r
   | Some c \<Rightarrow> isDeviceOnline dev r \<and> c \<in> set (listGatewayConnections dev r) \<and> healthy r c \<and>
       list_all (\<lambda>d. load c \<le> load d) (listHealthyConnections dev r)"
proof (cases rule: pick_cases [of dev r])
  case 1
  then show ?thesis by (simp add: isDeviceOnline_def)
next
  case (2 c)
  then have "c \<in> set (listHealthyConnections dev r)" by simp
  then have "c \<in> set (listGatewayConnections dev r)" "healthy r c" by (simp_all add: listHealthyConnections_def)
  with 2 show ?thesis by (simp add: isDeviceOnline_def)
next
  case (3 c d cs n)
  let ?x = "leastLoaded (c # d # cs) ! n"
  have x: "?x \<in> set (leastLoaded (c # d # cs))" using 3(2) by (rule nth_mem)
  then have "?x \<in> set (listHealthyConnections dev r)"
    and l: "\<forall>y \<in> set (listHealthyConnections dev r). load ?x \<le> load y"
    unfolding leastLoaded_least 3(1) by blast+
  then have "?x \<in> set (listGatewayConnections dev r)" "healthy r ?x" by (simp_all add: listHealthyConnections_def)
  with l 3(1,4) show ?thesis by (simp add: isDeviceOnline_def list_all_iff)
qed

fun picks :: "nat \<Rightarrow> string \<Rightarrow> registry \<Rightarrow> gateway_connection option list" where
  "picks 0 dev r = []"
| "picks (Suc n) dev r = (let (c, r') = pickConnection dev r in c # picks n dev r')"

definition cursor_of :: "string \<Rightarrow> registry \<Rightarrow> nat" where
  "cursor_of dev r = (case map_of (rg_cursor r) dev of None \<Rightarrow> 0 | Some k \<Rightarrow> k)"

lemma healthy_cursor: "listHealthyConnections dev (r\<lparr>rg_cursor := m\<rparr>) = listHealthyConnections dev r"
proof -
  have "healthy (r\<lparr>rg_cursor := m\<rparr>) = healthy r" by (rule ext) (simp add: healthy_def)
  then show ?thesis by (simp add: listHealthyConnections_def listGatewayConnections_def slots_def)
qed

lemma next_cursor: "(Suc (v mod l) + i) mod l = (v + Suc i) mod (l :: nat)"
  by (metis add_Suc_shift mod_add_left_eq)

lemma picks_cycle:
  assumes "listHealthyConnections dev r = c # d # cs"
  shows "picks n dev r = map (\<lambda>i. Some (leastLoaded (c # d # cs) !
    ((cursor_of dev r + i) mod length (leastLoaded (c # d # cs))))) [0..<n]"
  using assms
proof (induction n arbitrary: r)
  case 0
  then show ?case by simp
next
  case (Suc n)
  let ?L = "leastLoaded (c # d # cs)" and ?v = "cursor_of dev r"
  let ?r = "r\<lparr>rg_cursor := AList.update dev (Suc (?v mod length ?L)) (rg_cursor r)\<rparr>"
  have p: "pickConnection dev r = (Some (?L ! (?v mod length ?L)), ?r)"
    using Suc.prems by (simp add: pickConnection_def cursor_of_def Let_def)
  have v: "cursor_of dev ?r = Suc (?v mod length ?L)" by (simp add: cursor_of_def update_conv')
  have "picks n dev ?r = map (\<lambda>i. Some (?L ! ((cursor_of dev ?r + i) mod length ?L))) [0..<n]"
    using Suc.prems by (intro Suc.IH) (simp add: healthy_cursor)
  also have "\<dots> = map (\<lambda>i. Some (?L ! ((?v + Suc i) mod length ?L))) [0..<n]"
    unfolding v next_cursor ..
  also have "\<dots> = map (\<lambda>i. Some (?L ! ((?v + i) mod length ?L))) [1..<Suc n]"
    unfolding One_nat_def map_Suc_upt [symmetric] map_map comp_def ..
  finally have "picks (Suc n) dev r = Some (?L ! (?v mod length ?L)) #
      map (\<lambda>i. Some (?L ! ((?v + i) mod length ?L))) [1..<Suc n]"
    by (simp add: p)
  also have "\<dots> = map (\<lambda>i. Some (?L ! ((?v + i) mod length ?L))) [0..<Suc n]"
    by (subst (2) upt_conv_Cons) simp_all
  finally show ?case .
qed

text \<open>
  Ties are broken fairly: with at least two healthy connections and unchanged loads, as many
  picks as there are least-loaded connections choose each of them exactly once, in rotation.
\<close>

theorem dispatch_is_fair:
  assumes "length (listHealthyConnections dev r) \<ge> 2"
  shows "picks (length (leastLoaded (listHealthyConnections dev r))) dev r =
    map Some (rotate (cursor_of dev r) (leastLoaded (listHealthyConnections dev r)))"
proof -
  let ?L = "leastLoaded (listHealthyConnections dev r)"
  obtain c d cs where h: "listHealthyConnections dev r = c # d # cs"
    using assms(1) by (cases "listHealthyConnections dev r" rule: list.exhaust [case_names Nil Cons])
      (auto simp: Suc_le_length_iff numeral_2_eq_2)
  have "map Some (rotate (cursor_of dev r) ?L) =
      map (\<lambda>i. Some (?L ! ((cursor_of dev r + i) mod length ?L))) [0..<length ?L]"
    by (rule nth_equalityI) (simp_all add: nth_rotate)
  then show ?thesis using picks_cycle [OF h] h by simp
qed

theorem dispatch_is_fair_witness:
  "map (map_option gc_connectionId) (picks 2 ''d1'' two_tunnels) = [Some (Some ''a''), Some (Some ''b'')]"
proof -
  have l: "length (listHealthyConnections ''d1'' two_tunnels) \<ge> 2"
    "length (leastLoaded (listHealthyConnections ''d1'' two_tunnels)) = 2"
    "cursor_of ''d1'' two_tunnels = 0"
    "map gc_connectionId (leastLoaded (listHealthyConnections ''d1'' two_tunnels)) = [Some ''a'', Some ''b'']"
    by code_simp+
  let ?L = "leastLoaded (listHealthyConnections ''d1'' two_tunnels)"
  have "picks 2 ''d1'' two_tunnels = map Some ?L"
    using dispatch_is_fair [OF l(1)] unfolding l(2,3) rotate0 id_apply .
  then have "map (map_option gc_connectionId) (picks 2 ''d1'' two_tunnels) = map Some (map gc_connectionId ?L)"
    by simp
  also have "\<dots> = [Some (Some ''a''), Some (Some ''b'')]" unfolding l(4) by simp
  finally show ?thesis .
qed

text \<open>
  Losing one connection does not take a device offline: after removing one slot, the device is
  still online if a healthy connection is in another.
\<close>

theorem losing_one_connection:
  assumes "map_of (slots dev r) k = Some c" "healthy r c" "j \<noteq> k"
  shows "isDeviceOnline dev (snd (removeGatewayConnection dev j r))"
proof -
  obtain m where m: "map_of (rg_gateways r) dev = Some m" "map_of m k = Some c"
    using assms(1) by (auto simp: slots_def split: option.splits)
  then have d: "map_of (AList.delete j m) k = Some c" using assms(3) by (simp add: delete_conv')
  then have ne: "AList.delete j m \<noteq> []" by auto
  let ?r = "r\<lparr>rg_gateways := AList.update dev (AList.delete j m) (rg_gateways r)\<rparr>"
  have r: "snd (removeGatewayConnection dev j r) = ?r"
    using m(1) ne by (simp add: removeGatewayConnection_def Let_def)
  have "slots dev ?r = AList.delete j m" by (simp add: slots_def update_conv')
  then have "c \<in> set (listGatewayConnections dev ?r)"
    using map_of_SomeD [OF d] by (force simp: listGatewayConnections_def)
  then have "c \<in> set (listHealthyConnections dev ?r)"
    using assms(2) by (simp add: listHealthyConnections_def healthy_def)
  then show ?thesis unfolding r isDeviceOnline_def by (metis empty_iff empty_set)
qed

theorem losing_one_connection_witness:
  "isDeviceOnline ''d1'' (snd (removeGatewayConnection ''d1'' ''a'' two_tunnels))"
proof -
  let ?c = "the (map_of (slots ''d1'' two_tunnels) ''b'')"
  have c: "map_of (slots ''d1'' two_tunnels) ''b'' = Some ?c" by code_simp
  have h: "healthy two_tunnels ?c" by code_simp
  show ?thesis by (rule losing_one_connection [OF c h]) simp
qed

text \<open>
  New sessions go to a device only while it has an open connection and none of its connections
  reports a phase other than running; recording another phase stops them.
\<close>

theorem accepting_sessions:
  "(isDeviceAcceptingSessions dev r \<longleftrightarrow>
      isDeviceOnline dev r \<and> list_all (\<lambda>c. phase_of c = Running) (listGatewayConnections dev r)) \<and>
   (p = Running \<or> \<not> isDeviceAcceptingSessions dev (setAdmissionPhase dev p r))"
proof -
  have acc: "isDeviceAcceptingSessions dev r \<longleftrightarrow>
      isDeviceOnline dev r \<and> list_all (\<lambda>c. phase_of c = Running) (listGatewayConnections dev r)" for r
  proof (cases "List.find (\<lambda>p. p \<noteq> Running) (map phase_of (listGatewayConnections dev r))")
    case None
    then have "list_all (\<lambda>c. phase_of c = Running) (listGatewayConnections dev r)"
      by (simp add: find_None_iff list_all_iff)
    with None show ?thesis by (simp add: isDeviceAcceptingSessions_def getAdmissionPhase_def)
  next
    case (Some q)
    then have "q \<in> set (map phase_of (listGatewayConnections dev r))" "q \<noteq> Running"
      by (metis (mono_tags, lifting) find_Some_iff nth_mem)+
    with Some show ?thesis
      by (auto simp: isDeviceAcceptingSessions_def getAdmissionPhase_def list_all_iff)
  qed
  moreover have "\<not> isDeviceAcceptingSessions dev (setAdmissionPhase dev p r)" if "p \<noteq> Running"
  proof (cases "map_of (rg_gateways r) dev")
    case None
    then show ?thesis
      by (simp add: setAdmissionPhase_def isDeviceAcceptingSessions_def isDeviceOnline_def
          listHealthyConnections_def listGatewayConnections_def slots_def)
  next
    case (Some m)
    then have "slots dev (setAdmissionPhase dev p r) = map (\<lambda>(k, c). (k, c\<lparr>gc_admissionPhase := Some p\<rparr>)) m"
      by (simp add: setAdmissionPhase_def slots_def update_conv')
    then have "\<forall>c \<in> set (listGatewayConnections dev (setAdmissionPhase dev p r)). phase_of c = p"
      by (auto simp: listGatewayConnections_def phase_of_def)
    moreover have "isDeviceOnline dev r' \<Longrightarrow> listGatewayConnections dev r' \<noteq> []" for r'
      by (auto simp: isDeviceOnline_def listHealthyConnections_def)
    ultimately show ?thesis using that unfolding acc list_all_iff by (metis list.set_sel(1))
  qed
  ultimately show ?thesis by blast
qed

theorem accepting_sessions_witness:
  "\<not> isDeviceAcceptingSessions ''d1'' (setAdmissionPhase ''d1'' Draining two_tunnels)"
  using accepting_sessions [of "''d1''" two_tunnels Draining] by blast

end
