(* ===== verification/Checkpoints.thy ===== *)
theory Checkpoints
  imports Prelude
begin

text \<open>
  The gateway's checkpoint store (\<open>gateway/checkpoint/src/checkpoint-store.ts\<close>, \<open>types.ts\<close>): one
  checkpoint per session, kept in memory in insertion order and, when a directory is configured, in
  one file per session.  A file holds a checkpoint, or nothing readable (\<open>None\<close>); JSON is lossless on
  the fields modelled.  The clock is an argument; which file operations fail is an argument too.
\<close>

section \<open>Data\<close>

datatype reconnect_state = Rc_Idle | Rc_Connected | Rc_Disconnected | Rc_Reconnecting | Rc_Reconciling | Rc_Degraded

record checkpoint_error =
  ce_code :: string
  ce_message :: string
  ce_fatal :: bool

record checkpoint =
  ck_sessionId :: string
  ck_gatewayId :: string
  ck_adapterId :: string
  ck_projectId :: string
  ck_sessionState :: string
  ck_lastReceived :: int
  ck_lastSent :: int
  ck_eventCount :: nat
  ck_offsets :: "(string, int) jmap"
  ck_createdAt :: int
  ck_lastPersistedAt :: int
  ck_endedAt :: "int option"
  ck_reconnectState :: reconnect_state
  ck_reconnectCount :: nat
  ck_failedAttempts :: nat
  ck_needsReconciliation :: bool
  ck_pendingAck :: "int list"
  ck_error :: "checkpoint_error option"
  ck_metadata :: "(string, js_value) jmap"

record checkpoint_options =
  co_persistDir :: string
  co_maxCheckpoints :: nat
  co_autoPersistMs :: int
  co_maxAgeMs :: int

definition DEFAULT_CHECKPOINT_OPTIONS :: checkpoint_options where
  "DEFAULT_CHECKPOINT_OPTIONS = \<lparr>co_persistDir = [], co_maxCheckpoints = 1000, co_autoPersistMs = 30000,
     co_maxAgeMs = 24 * 60 * 60 * 1000\<rparr>"

record checkpoint_store =
  st_checkpoints :: "(string, checkpoint) jmap"
  st_files :: "(string, checkpoint option) jmap"
  st_timer :: bool
  st_shuttingDown :: bool

datatype checkpoint_result = Checkpoint_Not_Found string | Checkpoint checkpoint

definition terminal_state :: "string \<Rightarrow> bool" where
  "terminal_state s \<longleftrightarrow> s \<in> {''completed'', ''failed'', ''cancelled'', ''crashed''}"

definition is_terminal :: "checkpoint \<Rightarrow> bool" where
  "is_terminal c \<longleftrightarrow> terminal_state (ck_sessionState c)"

section \<open>In memory\<close>

definition list_checkpoints :: "checkpoint_store \<Rightarrow> checkpoint list" where
  "list_checkpoints s = map snd (st_checkpoints s)"

definition get_checkpoint :: "string \<Rightarrow> checkpoint_store \<Rightarrow> checkpoint option" where
  "get_checkpoint sid s = map_of (st_checkpoints s) sid"

text \<open>The loop of \<open>enforceMaxCheckpoints\<close>: the sorted terminal checkpoints go one by one.\<close>

fun evict :: "nat \<Rightarrow> checkpoint list \<Rightarrow> (string, checkpoint) jmap \<Rightarrow> (string, checkpoint) jmap" where
  "evict limit [] m = m"
| "evict limit (c # cs) m =
     (if length m > limit then evict limit cs (AList.delete (ck_sessionId c) m) else m)"

definition ended :: "checkpoint \<Rightarrow> int" where
  "ended c = (case ck_endedAt c of None \<Rightarrow> 0 | Some t \<Rightarrow> t)"

definition enforceMaxCheckpoints :: "checkpoint_options \<Rightarrow> checkpoint_store \<Rightarrow> checkpoint_store" where
  "enforceMaxCheckpoints opt s =
     (if length (st_checkpoints s) \<le> co_maxCheckpoints opt then s
      else s\<lparr>st_checkpoints := evict (co_maxCheckpoints opt)
               (js_sort (\<lambda>a b. ended a - ended b) (filter is_terminal (list_checkpoints s)))
               (st_checkpoints s)\<rparr>)"

definition create_checkpoint ::
  "checkpoint_options \<Rightarrow> int \<Rightarrow> string \<Rightarrow> string \<Rightarrow> string \<Rightarrow> string \<Rightarrow> checkpoint_store
     \<Rightarrow> checkpoint \<times> checkpoint_store" where
  "create_checkpoint opt now sid gid aid pid s =
     (let c = \<lparr>ck_sessionId = sid, ck_gatewayId = gid, ck_adapterId = aid, ck_projectId = pid,
            ck_sessionState = ''initializing'', ck_lastReceived = -1, ck_lastSent = -1,
            ck_eventCount = 0, ck_offsets = [], ck_createdAt = now, ck_lastPersistedAt = now,
            ck_endedAt = None, ck_reconnectState = Rc_Idle, ck_reconnectCount = 0,
            ck_failedAttempts = 0, ck_needsReconciliation = False, ck_pendingAck = [],
            ck_error = None, ck_metadata = []\<rparr>
      in (c, enforceMaxCheckpoints opt
               (s\<lparr>st_checkpoints := AList.update sid c (st_checkpoints s)\<rparr>)))"

text \<open>\<open>getOrThrow\<close>, the change, and the time stamp every update ends with.\<close>

definition update_checkpoint ::
  "int \<Rightarrow> string \<Rightarrow> (checkpoint \<Rightarrow> checkpoint) \<Rightarrow> checkpoint_store
     \<Rightarrow> checkpoint_result \<times> checkpoint_store" where
  "update_checkpoint now sid f s =
     (case get_checkpoint sid s of
        None \<Rightarrow> (Checkpoint_Not_Found sid, s)
      | Some c \<Rightarrow>
          (let c' = (f c)\<lparr>ck_lastPersistedAt := now\<rparr> in
           (Checkpoint c', s\<lparr>st_checkpoints := AList.update sid c' (st_checkpoints s)\<rparr>)))"

definition received :: "int \<Rightarrow> checkpoint \<Rightarrow> checkpoint" where
  "received n c = c\<lparr>ck_lastReceived := max (ck_lastReceived c) n, ck_eventCount := Suc (ck_eventCount c)\<rparr>"

definition sent :: "int \<Rightarrow> checkpoint \<Rightarrow> checkpoint" where
  "sent n c = c\<lparr>ck_lastSent := max (ck_lastSent c) n\<rparr>"

definition offset_of :: "string \<Rightarrow> checkpoint \<Rightarrow> int" where
  "offset_of ty c = (case map_of (ck_offsets c) ty of None \<Rightarrow> -1 | Some n \<Rightarrow> n)"

definition saw_type :: "string \<Rightarrow> int \<Rightarrow> checkpoint \<Rightarrow> checkpoint" where
  "saw_type ty n c = c\<lparr>ck_offsets := AList.update ty (max (offset_of ty c) n) (ck_offsets c)\<rparr>"

definition reconnect_to :: "reconnect_state \<Rightarrow> checkpoint \<Rightarrow> checkpoint" where
  "reconnect_to st c =
     (let c' = c\<lparr>ck_reconnectState := st\<rparr> in
      if st = Rc_Reconnecting then c'\<lparr>ck_reconnectCount := Suc (ck_reconnectCount c')\<rparr>
      else if st = Rc_Degraded then c'\<lparr>ck_failedAttempts := Suc (ck_failedAttempts c')\<rparr>
      else if st = Rc_Connected then c'\<lparr>ck_failedAttempts := 0, ck_needsReconciliation := False\<rparr>
      else c')"

definition add_ack :: "int \<Rightarrow> checkpoint \<Rightarrow> checkpoint" where
  "add_ack n c =
     (if n \<in> set (ck_pendingAck c) then c
      else c\<lparr>ck_pendingAck := js_sort (\<lambda>a b. a - b) (ck_pendingAck c @ [n])\<rparr>)"

definition ack_to :: "int \<Rightarrow> checkpoint \<Rightarrow> checkpoint" where
  "ack_to n c = c\<lparr>ck_pendingAck := filter (\<lambda>s. s > n) (ck_pendingAck c)\<rparr>"

definition session_to :: "string \<Rightarrow> checkpoint \<Rightarrow> checkpoint" where
  "session_to st c = c\<lparr>ck_sessionState := st\<rparr>"

definition needs_reconciliation :: "checkpoint \<Rightarrow> checkpoint" where
  "needs_reconciliation c = c\<lparr>ck_needsReconciliation := True\<rparr>"

definition terminal_at :: "int \<Rightarrow> string \<Rightarrow> checkpoint \<Rightarrow> checkpoint" where
  "terminal_at now st c = c\<lparr>ck_sessionState := st, ck_endedAt := Some now, ck_reconnectState := Rc_Idle\<rparr>"

definition error_is :: "checkpoint_error \<Rightarrow> checkpoint \<Rightarrow> checkpoint" where
  "error_is e c = c\<lparr>ck_error := Some e\<rparr>"

definition metadata_to :: "string \<Rightarrow> js_value \<Rightarrow> checkpoint \<Rightarrow> checkpoint" where
  "metadata_to k v c = c\<lparr>ck_metadata := AList.update k v (ck_metadata c)\<rparr>"

text \<open>The updates, one constructor per method, and what each does to the checkpoint.\<close>

datatype checkpoint_update =
    UpdateReceivedSequence int
  | UpdateSentSequence int
  | UpdateEventTypeOffset string int
  | UpdateSessionState string
  | UpdateReconnectState reconnect_state
  | MarkNeedsReconciliation
  | AddPendingAck int
  | AckEvents int
  | MarkTerminal string
  | SetError checkpoint_error
  | SetMetadata string js_value

primrec apply_update :: "int \<Rightarrow> checkpoint_update \<Rightarrow> checkpoint \<Rightarrow> checkpoint" where
  "apply_update now (UpdateReceivedSequence n) = received n"
| "apply_update now (UpdateSentSequence n) = sent n"
| "apply_update now (UpdateEventTypeOffset ty n) = saw_type ty n"
| "apply_update now (UpdateSessionState st) = session_to st"
| "apply_update now (UpdateReconnectState st) = reconnect_to st"
| "apply_update now MarkNeedsReconciliation = needs_reconciliation"
| "apply_update now (AddPendingAck n) = add_ack n"
| "apply_update now (AckEvents n) = ack_to n"
| "apply_update now (MarkTerminal st) = terminal_at now st"
| "apply_update now (SetError e) = error_is e"
| "apply_update now (SetMetadata k v) = metadata_to k v"

record event_gap =
  eg_lastReceived :: int
  eg_lastSent :: int
  eg_gap :: int
  eg_pendingAcks :: "int list"

definition getEventGap :: "string \<Rightarrow> checkpoint_store \<Rightarrow> event_gap option" where
  "getEventGap sid s =
     map_option (\<lambda>c. \<lparr>eg_lastReceived = ck_lastReceived c, eg_lastSent = ck_lastSent c,
       eg_gap = ck_lastReceived c - ck_lastSent c, eg_pendingAcks = ck_pendingAck c\<rparr>)
       (get_checkpoint sid s)"

definition delete_checkpoint :: "string \<Rightarrow> checkpoint_store \<Rightarrow> bool \<times> checkpoint_store" where
  "delete_checkpoint sid s =
     (get_checkpoint sid s \<noteq> None, s\<lparr>st_checkpoints := AList.delete sid (st_checkpoints s)\<rparr>)"

definition listNeedingReconciliation :: "checkpoint_store \<Rightarrow> checkpoint list" where
  "listNeedingReconciliation s = filter ck_needsReconciliation (list_checkpoints s)"

definition listActive :: "checkpoint_store \<Rightarrow> checkpoint list" where
  "listActive s = filter (\<lambda>c. \<not> is_terminal c) (list_checkpoints s)"

record checkpoint_stats =
  cs_total :: nat
  cs_active :: nat
  cs_terminal :: nat
  cs_lastPersistedAt :: "int option"
  cs_storageSizeBytes :: nat

definition getStats :: "checkpoint_store \<Rightarrow> checkpoint_stats" where
  "getStats s =
     (let all = list_checkpoints s in
      \<lparr>cs_total = length all, cs_active = length (filter (\<lambda>c. \<not> is_terminal c) all),
       cs_terminal = length (filter is_terminal all),
       cs_lastPersistedAt = foldl (\<lambda>latest c. case latest of
           None \<Rightarrow> Some (ck_lastPersistedAt c)
         | Some t \<Rightarrow> if ck_lastPersistedAt c > t then Some (ck_lastPersistedAt c) else Some t) None all,
       cs_storageSizeBytes = 0\<rparr>)"

section \<open>On disk\<close>

definition CHECKPOINT_SUFFIX :: string where
  "CHECKPOINT_SUFFIX = ''.checkpoint.json''"

definition file_name :: "string \<Rightarrow> string" where
  "file_name sid = sid @ CHECKPOINT_SUFFIX"

text \<open>\<open>String.replace\<close> with a string drops the first occurrence.\<close>

definition replace_first :: "string \<Rightarrow> string \<Rightarrow> string" where
  "replace_first p s =
     (case index_of p s of None \<Rightarrow> s | Some i \<Rightarrow> take i s @ drop (i + length p) s)"

definition load_file :: "(string, checkpoint) jmap \<Rightarrow> string \<times> checkpoint option \<Rightarrow> (string, checkpoint) jmap" where
  "load_file m f = (case f of (name, content) \<Rightarrow>
     if \<not> suffix CHECKPOINT_SUFFIX name then m
     else (case content of None \<Rightarrow> m | Some c \<Rightarrow> AList.update (ck_sessionId c) c m))"

definition initialize :: "checkpoint_options \<Rightarrow> checkpoint_store \<Rightarrow> checkpoint_store" where
  "initialize opt s =
     (if co_persistDir opt = [] then s
      else s\<lparr>st_checkpoints := foldl load_file (st_checkpoints s) (st_files s),
             st_timer := (st_timer s \<or> co_autoPersistMs opt > 0)\<rparr>)"

definition persistOne ::
  "checkpoint_options \<Rightarrow> int \<Rightarrow> string set \<Rightarrow> string \<Rightarrow> checkpoint_store \<Rightarrow> bool \<times> checkpoint_store" where
  "persistOne opt now failing sid s =
     (if co_persistDir opt = [] then (True, s)
      else case get_checkpoint sid s of
        None \<Rightarrow> (True, s)
      | Some c \<Rightarrow>
          (let c' = c\<lparr>ck_lastPersistedAt := now\<rparr>;
               s' = s\<lparr>st_checkpoints := AList.update sid c' (st_checkpoints s)\<rparr>
           in if file_name sid \<in> failing then (False, s')
              else (True, s'\<lparr>st_files := AList.update (file_name sid) (Some c') (st_files s')\<rparr>)))"

definition stale_file :: "(string, checkpoint) jmap \<Rightarrow> string \<Rightarrow> bool" where
  "stale_file m name \<longleftrightarrow>
     suffix CHECKPOINT_SUFFIX name \<and> map_of m (replace_first CHECKPOINT_SUFFIX name) = None"

definition persist_tick ::
  "checkpoint_options \<Rightarrow> int \<Rightarrow> string set \<Rightarrow> nat \<times> checkpoint_store \<Rightarrow> string \<Rightarrow> nat \<times> checkpoint_store" where
  "persist_tick opt now failing r sid =
     (let (ok, s) = persistOne opt now failing sid (snd r) in (if ok then Suc (fst r) else fst r, s))"

definition persistAll ::
  "checkpoint_options \<Rightarrow> int \<Rightarrow> string set \<Rightarrow> checkpoint_store \<Rightarrow> nat \<times> checkpoint_store" where
  "persistAll opt now failing s =
     (if co_persistDir opt = [] then (0, s)
      else
        (let (n, s') = foldl (persist_tick opt now failing) (0, s) (map ck_sessionId (list_checkpoints s))
         in (n, s'\<lparr>st_files := filter (\<lambda>(name, _).
              \<not> (stale_file (st_checkpoints s') name \<and> name \<notin> failing)) (st_files s')\<rparr>)))"

definition expired_checkpoint :: "int \<Rightarrow> int \<Rightarrow> checkpoint \<Rightarrow> bool" where
  "expired_checkpoint now maxAge c \<longleftrightarrow>
     is_terminal c \<and> (case ck_endedAt c of None \<Rightarrow> False | Some t \<Rightarrow> now - t > maxAge)"

definition cleanup_checkpoints ::
  "checkpoint_options \<Rightarrow> int \<Rightarrow> string set \<Rightarrow> int option \<Rightarrow> checkpoint_store \<Rightarrow> nat \<times> checkpoint_store" where
  "cleanup_checkpoints opt now failing maxAge s =
     (let age = (case maxAge of None \<Rightarrow> co_maxAgeMs opt | Some a \<Rightarrow> a);
          gone = filter (\<lambda>(_, c). expired_checkpoint now age c) (st_checkpoints s);
          s' = s\<lparr>st_checkpoints := filter (\<lambda>(_, c). \<not> expired_checkpoint now age c) (st_checkpoints s)\<rparr>
      in (length gone,
          if co_persistDir opt = [] then s'
          else s'\<lparr>st_files := filter (\<lambda>(name, _). \<not> (name \<in> file_name ` set (map fst gone) \<and> name \<notin> failing))
                 (st_files s')\<rparr>))"

definition clear_checkpoints :: "checkpoint_store \<Rightarrow> checkpoint_store" where
  "clear_checkpoints s = s\<lparr>st_checkpoints := []\<rparr>"

definition shutdown :: "checkpoint_options \<Rightarrow> int \<Rightarrow> string set \<Rightarrow> checkpoint_store \<Rightarrow> checkpoint_store" where
  "shutdown opt now failing s =
     (if st_shuttingDown s then s
      else clear_checkpoints (snd (persistAll opt now failing (s\<lparr>st_shuttingDown := True, st_timer := False\<rparr>))))"

lemmas update_effects = received_def sent_def saw_type_def reconnect_to_def Let_def add_ack_def
  ack_to_def session_to_def needs_reconciliation_def terminal_at_def error_is_def metadata_to_def

section \<open>Runs\<close>

datatype checkpoint_op =
    Ck_Create int string string string string
  | Ck_Update int string checkpoint_update
  | Ck_Delete string
  | Ck_Persist int "string set"
  | Ck_Cleanup int "string set" "int option"
  | Ck_Clear

fun checkpoint_step :: "checkpoint_options \<Rightarrow> checkpoint_store \<Rightarrow> checkpoint_op \<Rightarrow> checkpoint_store" where
  "checkpoint_step opt s (Ck_Create now sid gid aid pid) = snd (create_checkpoint opt now sid gid aid pid s)"
| "checkpoint_step opt s (Ck_Update now sid u) = snd (update_checkpoint now sid (apply_update now u) s)"
| "checkpoint_step opt s (Ck_Delete sid) = snd (delete_checkpoint sid s)"
| "checkpoint_step opt s (Ck_Persist now failing) = snd (persistAll opt now failing s)"
| "checkpoint_step opt s (Ck_Cleanup now failing age) = snd (cleanup_checkpoints opt now failing age s)"
| "checkpoint_step opt s Ck_Clear = clear_checkpoints s"

definition checkpoint_ok :: "string \<times> checkpoint \<Rightarrow> bool" where
  "checkpoint_ok p \<longleftrightarrow> (case p of (sid, c) \<Rightarrow>
     ck_sessionId c = sid \<and> sorted (ck_pendingAck c) \<and> distinct (ck_pendingAck c) \<and>
     ck_lastReceived c \<ge> -1 \<and> ck_lastSent c \<ge> -1)"

lemma apply_update_ok: "checkpoint_ok (sid, c) \<Longrightarrow> checkpoint_ok (sid, (apply_update now u c)\<lparr>ck_lastPersistedAt := t\<rparr>)"
  by (cases u) (auto simp: checkpoint_ok_def update_effects sorted_numbers intro: sorted_filter [where f = id, simplified])

lemma evict_ok: "entries_ok checkpoint_ok m \<Longrightarrow> entries_ok checkpoint_ok (evict n cs m)"
  by (induction n cs m rule: evict.induct) (simp_all add: entries_ok_delete)

lemma enforce_ok:
  "entries_ok checkpoint_ok (st_checkpoints s) \<Longrightarrow> entries_ok checkpoint_ok (st_checkpoints (enforceMaxCheckpoints opt s))"
  by (simp add: enforceMaxCheckpoints_def evict_ok)

lemma persistOne_ok:
  assumes "entries_ok checkpoint_ok (st_checkpoints s)"
  shows "entries_ok checkpoint_ok (st_checkpoints (snd (persistOne opt now failing sid s)))"
proof (cases "get_checkpoint sid s")
  case (Some c)
  have "checkpoint_ok (sid, c\<lparr>ck_lastPersistedAt := now\<rparr>)"
    using entries_ok_get [OF assms Some [unfolded get_checkpoint_def]] by (simp add: checkpoint_ok_def)
  with assms Some show ?thesis by (simp add: persistOne_def Let_def entries_ok_put)
qed (use assms in \<open>simp add: persistOne_def\<close>)

lemma persist_loop_ok:
  "entries_ok checkpoint_ok (st_checkpoints (snd r)) \<Longrightarrow>
   entries_ok checkpoint_ok (st_checkpoints (snd (foldl (persist_tick opt now failing) r ks)))"
  by (induction ks arbitrary: r) (simp_all add: persist_tick_def Let_def split_beta persistOne_ok)

lemma checkpoint_step_ok:
  assumes ok: "entries_ok checkpoint_ok (st_checkpoints s)"
  shows "entries_ok checkpoint_ok (st_checkpoints (checkpoint_step opt s e))"
proof (cases e)
  case (Ck_Create now sid gid aid pid)
  then show ?thesis
    by (simp add: create_checkpoint_def Let_def enforce_ok entries_ok_put ok checkpoint_ok_def)
next
  case (Ck_Update now sid u)
  show ?thesis
  proof (cases "get_checkpoint sid s")
    case (Some c)
    from apply_update_ok [OF entries_ok_get [OF ok Some [unfolded get_checkpoint_def]]] Some show ?thesis
      unfolding Ck_Update by (simp add: update_checkpoint_def Let_def entries_ok_put ok)
  qed (use ok Ck_Update in \<open>simp add: update_checkpoint_def\<close>)
next
  case (Ck_Persist now failing)
  then show ?thesis
    using ok persist_loop_ok [of "(0, s)"] by (simp add: persistAll_def Let_def split_beta)
qed (simp_all add: ok delete_checkpoint_def entries_ok_delete cleanup_checkpoints_def Let_def
    entries_ok_filter clear_checkpoints_def)

interpretation checkpoints: transition_system "checkpoint_step opt" "\<lambda>s. entries_ok checkpoint_ok (st_checkpoints s)" for opt
  by unfold_locales (rule checkpoint_step_ok)

section \<open>Progress under updates\<close>

definition checkpoint_le :: "checkpoint \<Rightarrow> checkpoint \<Rightarrow> bool" where
  "checkpoint_le a b \<longleftrightarrow> ck_lastReceived a \<le> ck_lastReceived b \<and> ck_lastSent a \<le> ck_lastSent b \<and>
     ck_eventCount a \<le> ck_eventCount b \<and> ck_reconnectCount a \<le> ck_reconnectCount b \<and>
     (\<forall>ty. offset_of ty a \<le> offset_of ty b)"

definition store_le :: "checkpoint_store \<Rightarrow> checkpoint_store \<Rightarrow> bool" where
  "store_le s t \<longleftrightarrow> (\<forall>sid c. get_checkpoint sid s = Some c \<longrightarrow>
     (\<exists>d. get_checkpoint sid t = Some d \<and> checkpoint_le c d))"

definition update_step :: "checkpoint_store \<Rightarrow> int \<times> string \<times> checkpoint_update \<Rightarrow> checkpoint_store" where
  "update_step s e = (case e of (now, sid, u) \<Rightarrow> snd (update_checkpoint now sid (apply_update now u) s))"

lemma checkpoint_le_refl: "checkpoint_le c c"
  by (simp add: checkpoint_le_def)

lemma checkpoint_le_trans: "checkpoint_le a b \<Longrightarrow> checkpoint_le b c \<Longrightarrow> checkpoint_le a c"
  unfolding checkpoint_le_def by (meson order_trans)

lemma apply_update_le: "checkpoint_le c ((apply_update now u c)\<lparr>ck_lastPersistedAt := t\<rparr>)"
  by (cases u) (simp_all add: checkpoint_le_def update_effects offset_of_def update_conv')

lemma update_step_le: "store_le s (update_step s e)"
proof -
  obtain now sid u where e: "e = (now, sid, u)" by (cases e) auto
  show ?thesis
  proof (cases "get_checkpoint sid s")
    case None
    then show ?thesis unfolding e store_le_def
      by (auto simp: update_step_def update_checkpoint_def checkpoint_le_refl)
  next
    case (Some c)
    have "get_checkpoint j (update_step s e) = (if j = sid
        then Some ((apply_update now u c)\<lparr>ck_lastPersistedAt := now\<rparr>) else get_checkpoint j s)" for j
      using Some unfolding e
      by (simp add: update_step_def update_checkpoint_def Let_def get_checkpoint_def update_conv')
    then show ?thesis unfolding store_le_def using Some apply_update_le
      by (auto simp: checkpoint_le_refl)
  qed
qed

interpretation updates: progress_system update_step "\<lambda>s. entries_ok checkpoint_ok (st_checkpoints s)" store_le
proof unfold_locales
  fix s t u and e :: "int \<times> string \<times> checkpoint_update"
  show "entries_ok checkpoint_ok (st_checkpoints s) \<Longrightarrow> entries_ok checkpoint_ok (st_checkpoints (update_step s e))"
    using checkpoint_step_ok [of s undefined "Ck_Update (fst e) (fst (snd e)) (snd (snd e))"]
    by (simp add: update_step_def split_beta)
  show "store_le s s" by (auto simp: store_le_def checkpoint_le_refl)
  show "store_le s t \<Longrightarrow> store_le t u \<Longrightarrow> store_le s u"
    unfolding store_le_def by (meson checkpoint_le_trans)
  show "store_le s (update_step s e)" by (rule update_step_le)
qed

definition empty_store :: "(string, checkpoint option) jmap \<Rightarrow> checkpoint_store" where
  "empty_store files = \<lparr>st_checkpoints = [], st_files = files, st_timer = False, st_shuttingDown = False\<rparr>"

text \<open>
  C14: Recovery positions only move forward.  From any store reached by any operations, a sequence
  of updates never lowers a session's received or sent sequence, its event count or the offset of
  an event type, and its list of unacknowledged events stays strictly ascending.
\<close>

theorem checkpoint_positions_monotone:
  assumes "get_checkpoint sid (foldl (checkpoint_step opt) (empty_store files) es) = Some c"
  shows "\<exists>d. get_checkpoint sid (foldl update_step (foldl (checkpoint_step opt) (empty_store files) es) us) = Some d \<and>
    checkpoint_le c d \<and> sorted (ck_pendingAck d) \<and> distinct (ck_pendingAck d)"
proof -
  let ?s = "foldl (checkpoint_step opt) (empty_store files) es"
  have "entries_ok checkpoint_ok (st_checkpoints (empty_store files))" by (simp add: empty_store_def)
  then have ok: "entries_ok checkpoint_ok (st_checkpoints ?s)" by (rule checkpoints.run_inv)
  obtain d where d: "get_checkpoint sid (foldl update_step ?s us) = Some d" "checkpoint_le c d"
    using updates.run_before [OF ok, of us] assms unfolding store_le_def by blast
  have "checkpoint_ok (sid, d)"
    using entries_ok_get [OF updates.run_inv [OF ok] d(1) [unfolded get_checkpoint_def]] .
  with d show ?thesis by (auto simp: checkpoint_ok_def)
qed

theorem checkpoint_positions_monotone_witness:
  "\<exists>d. get_checkpoint ''s'' (foldl update_step (foldl (checkpoint_step DEFAULT_CHECKPOINT_OPTIONS)
      (empty_store []) [Ck_Create 0 ''s'' ''g'' ''a'' ''p''])
      [(1, ''s'', UpdateReceivedSequence 7), (2, ''s'', AddPendingAck 7), (3, ''s'', AddPendingAck 5),
       (4, ''s'', UpdateReceivedSequence 3)]) = Some d \<and> sorted (ck_pendingAck d)"
proof -
  let ?s = "foldl (checkpoint_step DEFAULT_CHECKPOINT_OPTIONS) (empty_store []) [Ck_Create 0 ''s'' ''g'' ''a'' ''p'']"
  have "get_checkpoint ''s'' ?s = Some (the (get_checkpoint ''s'' ?s))" by code_simp
  from checkpoint_positions_monotone [OF this] show ?thesis by blast
qed

section \<open>Eviction\<close>

lemma evict_lookup:
  "map_of (evict n cs m) j = map_of m j \<or> map_of (evict n cs m) j = None \<and> j \<in> ck_sessionId ` set cs"
  by (induction n cs m rule: evict.induct) (auto simp: delete_conv' split: if_splits)

lemma evict_gone: "map_of m j = None \<Longrightarrow> map_of (evict n cs m) j = None"
  using evict_lookup [of n cs m j] by auto

lemma evict_enough:
  "length (evict n cs m) \<le> n \<or> (\<forall>c \<in> set cs. map_of (evict n cs m) (ck_sessionId c) = None)"
proof (induction n cs m rule: evict.induct)
  case (2 limit c cs m)
  have "map_of (evict limit cs (AList.delete (ck_sessionId c) m)) (ck_sessionId c) = None"
    by (rule evict_gone) (simp add: delete_conv')
  with 2 show ?case by auto
qed simp

definition doomed :: "checkpoint_store \<Rightarrow> checkpoint list" where
  "doomed s = js_sort (\<lambda>a b. ended a - ended b) (filter is_terminal (list_checkpoints s))"

lemma doomed_iff: "c \<in> set (doomed s) \<longleftrightarrow> (\<exists>k. (k, c) \<in> set (st_checkpoints s)) \<and> is_terminal c"
proof -
  have "c \<in> set (map snd (st_checkpoints s)) \<longleftrightarrow> (\<exists>k. (k, c) \<in> set (st_checkpoints s))" by force
  then show ?thesis unfolding doomed_def list_checkpoints_def set_js_sort by simp
qed

lemma doomed_known:
  assumes "entries_ok checkpoint_ok (st_checkpoints s)" "c \<in> set (doomed s)"
  shows "get_checkpoint (ck_sessionId c) s = Some c"
proof -
  obtain k where "(k, c) \<in> set (st_checkpoints s)" using assms(2) unfolding doomed_iff by blast
  from entries_ok_member [OF assms(1) this] show ?thesis
    unfolding get_checkpoint_def checkpoint_ok_def by simp
qed

lemma known_doomed: "get_checkpoint j s = Some c \<Longrightarrow> is_terminal c \<Longrightarrow> c \<in> set (doomed s)"
  unfolding doomed_iff get_checkpoint_def by (blast dest: map_of_SomeD)

lemma get_enforce:
  "get_checkpoint j (enforceMaxCheckpoints opt s) =
     (if length (st_checkpoints s) \<le> co_maxCheckpoints opt then get_checkpoint j s
      else map_of (evict (co_maxCheckpoints opt) (doomed s) (st_checkpoints s)) j)"
  by (simp add: get_checkpoint_def enforceMaxCheckpoints_def doomed_def)

lemma enforce_keeps:
  assumes ok: "entries_ok checkpoint_ok (st_checkpoints s)" and g: "get_checkpoint j s = Some d"
  shows "get_checkpoint j (enforceMaxCheckpoints opt s) = Some d \<or>
    get_checkpoint j (enforceMaxCheckpoints opt s) = None \<and> is_terminal d"
proof (cases "length (st_checkpoints s) \<le> co_maxCheckpoints opt")
  case False
  consider "map_of (evict (co_maxCheckpoints opt) (doomed s) (st_checkpoints s)) j = map_of (st_checkpoints s) j"
    | c where "map_of (evict (co_maxCheckpoints opt) (doomed s) (st_checkpoints s)) j = None"
      "c \<in> set (doomed s)" "j = ck_sessionId c"
    using evict_lookup [of "co_maxCheckpoints opt" "doomed s" "st_checkpoints s" j] by blast
  then show ?thesis
  proof cases
    case 1
    then show ?thesis unfolding get_enforce using False g by (simp add: get_checkpoint_def)
  next
    case 2
    have "c = d" using doomed_known [OF ok 2(2)] g unfolding 2(3) by simp
    moreover have "is_terminal c" using 2(2) unfolding doomed_iff by blast
    ultimately show ?thesis unfolding get_enforce using False 2(1) by simp
  qed
qed (simp add: get_enforce g)

lemma enforce_new:
  assumes "get_checkpoint j s = None" shows "get_checkpoint j (enforceMaxCheckpoints opt s) = None"
proof -
  have "map_of (st_checkpoints s) j = None" using assms by (simp add: get_checkpoint_def)
  from evict_gone [OF this] show ?thesis unfolding get_enforce using assms by simp
qed

lemma enforce_limit:
  assumes ok: "entries_ok checkpoint_ok (st_checkpoints s)"
  shows "length (st_checkpoints (enforceMaxCheckpoints opt s)) \<le> co_maxCheckpoints opt \<or>
      (\<forall>j c. get_checkpoint j (enforceMaxCheckpoints opt s) = Some c \<longrightarrow> \<not> is_terminal c)"
proof (cases "length (st_checkpoints s) \<le> co_maxCheckpoints opt")
  case False
  let ?e = "evict (co_maxCheckpoints opt) (doomed s) (st_checkpoints s)"
  from evict_enough [of "co_maxCheckpoints opt" "doomed s" "st_checkpoints s"] show ?thesis
  proof
    assume "length ?e \<le> co_maxCheckpoints opt"
    then show ?thesis using False by (simp add: enforceMaxCheckpoints_def doomed_def)
  next
    assume gone: "\<forall>c \<in> set (doomed s). map_of ?e (ck_sessionId c) = None"
    have "\<not> is_terminal c" if e: "get_checkpoint j (enforceMaxCheckpoints opt s) = Some c" for j c
    proof
      assume t: "is_terminal c"
      obtain d where d: "get_checkpoint j s = Some d"
        using e enforce_new [of j s opt] by (cases "get_checkpoint j s") simp_all
      have "d = c" using enforce_keeps [OF ok d, of opt] e by simp
      then have "c \<in> set (doomed s)" using known_doomed d t by blast
      moreover have "ck_sessionId c = j"
        using entries_ok_get [OF ok d [unfolded get_checkpoint_def]] \<open>d = c\<close> by (simp add: checkpoint_ok_def)
      ultimately have "map_of ?e j = None" using bspec [OF gone, of c] by simp
      with e show False unfolding get_enforce using False by simp
    qed
    then show ?thesis by blast
  qed
qed (simp add: enforceMaxCheckpoints_def)

text \<open>
  C15: Making room never loses live work: creating a checkpoint stores it, drops other sessions'
  checkpoints only if they are terminal, and ends within the limit unless none left is terminal.
\<close>

theorem create_evicts_terminal_only:
  assumes "entries_ok checkpoint_ok (st_checkpoints s)"
  shows "let (c, t) = create_checkpoint opt now sid gid aid pid s
    in get_checkpoint sid t = Some c \<and>
       (\<forall>j d. j \<noteq> sid \<longrightarrow> get_checkpoint j s = Some d \<longrightarrow>
          get_checkpoint j t = Some d \<or> get_checkpoint j t = None \<and> is_terminal d) \<and>
       (length (st_checkpoints t) \<le> co_maxCheckpoints opt \<or>
          (\<forall>j d. get_checkpoint j t = Some d \<longrightarrow> \<not> is_terminal d))"
proof -
  let ?c = "fst (create_checkpoint opt now sid gid aid pid s)"
  let ?s = "s\<lparr>st_checkpoints := AList.update sid ?c (st_checkpoints s)\<rparr>"
  have t: "snd (create_checkpoint opt now sid gid aid pid s) = enforceMaxCheckpoints opt ?s"
    by (simp add: create_checkpoint_def Let_def)
  have "\<not> is_terminal ?c" and "checkpoint_ok (sid, ?c)"
    by (simp_all add: create_checkpoint_def is_terminal_def terminal_state_def checkpoint_ok_def Let_def)
  then have ok: "entries_ok checkpoint_ok (st_checkpoints ?s)" using entries_ok_put [OF assms] by simp
  have g: "get_checkpoint j ?s = (if j = sid then Some ?c else get_checkpoint j s)" for j
    by (simp add: get_checkpoint_def update_conv')
  have "get_checkpoint sid (enforceMaxCheckpoints opt ?s) = Some ?c"
    using enforce_keeps [OF ok g [of sid, simplified], of opt] \<open>\<not> is_terminal ?c\<close> by blast
  moreover have "get_checkpoint j (enforceMaxCheckpoints opt ?s) = Some d \<or>
      get_checkpoint j (enforceMaxCheckpoints opt ?s) = None \<and> is_terminal d"
    if "j \<noteq> sid" "get_checkpoint j s = Some d" for j d
    using enforce_keeps [OF ok] g [of j] that by simp
  ultimately show ?thesis unfolding Let_def split_beta t using enforce_limit [OF ok, of opt] by blast
qed

theorem create_evicts_terminal_only_witness:
  "let opt = DEFAULT_CHECKPOINT_OPTIONS\<lparr>co_maxCheckpoints := 1\<rparr>;
       s = foldl (checkpoint_step opt) (empty_store [])
         [Ck_Create 0 ''a'' ''g'' ''x'' ''p'', Ck_Update 1 ''a'' (MarkTerminal ''failed'')]
   in get_checkpoint ''b'' (snd (create_checkpoint opt 2 ''b'' ''g'' ''x'' ''p'' s)) \<noteq> None"
proof -
  let ?opt = "DEFAULT_CHECKPOINT_OPTIONS\<lparr>co_maxCheckpoints := 1\<rparr>"
  let ?s = "foldl (checkpoint_step ?opt) (empty_store [])
         [Ck_Create 0 ''a'' ''g'' ''x'' ''p'', Ck_Update 1 ''a'' (MarkTerminal ''failed'')]"
  have "entries_ok checkpoint_ok (st_checkpoints (empty_store []))" by (simp add: empty_store_def)
  then have "entries_ok checkpoint_ok (st_checkpoints ?s)" by (rule checkpoints.run_inv)
  from create_evicts_terminal_only [OF this, of ?opt 2 "''b''" "''g''" "''x''" "''p''"]
  show ?thesis unfolding Let_def split_beta by (metis option.distinct(1))
qed

section \<open>Saving and loading\<close>

definition plain_id :: "string \<Rightarrow> bool" where
  "plain_id sid \<longleftrightarrow> index_of CHECKPOINT_SUFFIX (file_name sid) = Some (length sid)"

definition stamp :: "int \<Rightarrow> checkpoint \<Rightarrow> checkpoint" where
  "stamp now c = c\<lparr>ck_lastPersistedAt := now\<rparr>"

lemma file_name_inj [simp]: "file_name a = file_name b \<longleftrightarrow> a = b"
  by (simp add: file_name_def)

lemma replace_file_name: "plain_id sid \<Longrightarrow> replace_first CHECKPOINT_SUFFIX (file_name sid) = sid"
  by (simp add: plain_id_def replace_first_def file_name_def)

lemma suffix_file_name [simp]: "suffix CHECKPOINT_SUFFIX (file_name sid)"
  by (simp add: file_name_def suffix_def)

lemma persistOne_effect:
  assumes "co_persistDir opt \<noteq> []"
  shows "fst (persistOne opt now {} sid s)"
    "get_checkpoint j (snd (persistOne opt now {} sid s)) =
       (if j = sid then map_option (stamp now) (get_checkpoint j s) else get_checkpoint j s)"
    "map_of (st_files (snd (persistOne opt now {} sid s))) name =
       (if name = file_name sid \<and> get_checkpoint sid s \<noteq> None
        then Some (map_option (stamp now) (get_checkpoint sid s)) else map_of (st_files s) name)"
    "jmap_ok (st_files s) \<Longrightarrow> jmap_ok (st_files (snd (persistOne opt now {} sid s)))"
  using assms
  by (auto simp: persistOne_def Let_def get_checkpoint_def update_conv' stamp_def distinct_update
      split: option.split)

text \<open>What writing a list of known sessions leaves in memory and on disk.\<close>

lemma persist_tick_effect:
  assumes "co_persistDir opt \<noteq> []"
  shows "get_checkpoint j (snd (persist_tick opt now {} r sid)) =
      (if j = sid then map_option (stamp now) (get_checkpoint j (snd r)) else get_checkpoint j (snd r))"
    and "jmap_ok (st_files (snd r)) \<Longrightarrow> jmap_ok (st_files (snd (persist_tick opt now {} r sid)))"
    and "get_checkpoint sid (snd r) = Some c \<Longrightarrow>
      map_of (st_files (snd (persist_tick opt now {} r sid))) name =
      (if name = file_name sid then Some (Some (stamp now c)) else map_of (st_files (snd r)) name)"
  using persistOne_effect [where now = now and sid = sid and s = "snd r", OF assms]
  by (simp_all add: persist_tick_def Let_def split_beta)

lemma persist_loop_memory:
  assumes "co_persistDir opt \<noteq> []"
  shows "distinct ks \<Longrightarrow> get_checkpoint j (snd (foldl (persist_tick opt now {}) r ks)) =
      (if j \<in> set ks then map_option (stamp now) (get_checkpoint j (snd r)) else get_checkpoint j (snd r))"
  by (induction ks arbitrary: r) (simp_all add: persist_tick_effect(1) [OF assms])

lemma persist_loop_wf:
  assumes "co_persistDir opt \<noteq> []"
  shows "jmap_ok (st_files (snd r)) \<Longrightarrow> jmap_ok (st_files (snd (foldl (persist_tick opt now {}) r ks)))"
  by (induction ks arbitrary: r) (simp_all add: persist_tick_effect(2) [OF assms])

lemma persist_loop_other:
  assumes "co_persistDir opt \<noteq> []"
  shows "name \<notin> file_name ` set ks \<Longrightarrow>
    map_of (st_files (snd (foldl (persist_tick opt now {}) r ks))) name = map_of (st_files (snd r)) name"
proof (induction ks arbitrary: r)
  case (Cons k ks)
  have "map_of (st_files (snd (persist_tick opt now {} r k))) name = map_of (st_files (snd r)) name"
  proof (cases "get_checkpoint k (snd r)")
    case None
    then show ?thesis by (simp add: persist_tick_def Let_def split_beta persistOne_def)
  next
    case (Some c)
    from persist_tick_effect(3) [OF assms Some, of now name] Cons.prems show ?thesis by simp
  qed
  with Cons show ?case by simp
qed simp

lemma persist_loop_written:
  assumes "co_persistDir opt \<noteq> []"
  shows "distinct ks \<Longrightarrow> sid \<in> set ks \<Longrightarrow> get_checkpoint sid (snd r) = Some c \<Longrightarrow>
    map_of (st_files (snd (foldl (persist_tick opt now {}) r ks))) (file_name sid) = Some (Some (stamp now c))"
proof (induction ks arbitrary: r)
  case (Cons k ks)
  show ?case
  proof (cases "k = sid")
    case True
    then have "file_name sid \<notin> file_name ` set ks" using Cons.prems(1) by auto
    from persist_loop_other [OF assms this, of now "persist_tick opt now {} r k"]
      persist_tick_effect(3) [OF assms Cons.prems(3), of now "file_name sid"] True
    show ?thesis by simp
  next
    case False
    have "get_checkpoint sid (snd (persist_tick opt now {} r k)) = Some c"
      using persist_tick_effect(1) [OF assms, of sid now r k] False Cons.prems(3) by simp
    from Cons.IH [OF _ _ this] Cons.prems False show ?thesis by simp
  qed
qed simp

definition own_file :: "string \<times> checkpoint option \<Rightarrow> bool" where
  "own_file f \<longleftrightarrow> (\<exists>j c. f = (file_name j, Some c) \<and> ck_sessionId c = j)"

lemma load_files:
  assumes "jmap_ok fs" "\<forall>f \<in> set fs. own_file f"
  shows "map_of (foldl load_file m fs) j =
    (case map_of fs (file_name j) of Some (Some c) \<Rightarrow> Some c | _ \<Rightarrow> map_of m j)"
  using assms
proof (induction fs arbitrary: m)
  case Nil
  then show ?case by simp
next
  case (Cons f fs)
  then obtain k c where f: "f = (file_name k, Some c)" "ck_sessionId c = k" by (auto simp: own_file_def)
  have "load_file m f = AList.update k c m" using f by (simp add: load_file_def)
  moreover have "map_of fs (file_name k) = None" using Cons.prems(1) f(1) by (simp add: map_of_eq_None_iff)
  ultimately show ?case using Cons f(1) by (auto simp: update_conv' split: option.splits)
qed

text \<open>
  Round trip: after all checkpoints were written without error, a new process that loads the
  directory holds exactly the checkpoints in memory, stamped with the time of writing; files of
  sessions that no longer exist are gone.
\<close>

theorem persist_then_initialize:
  assumes "entries_ok checkpoint_ok (st_checkpoints s)" "jmap_ok (st_files s)" "co_persistDir opt \<noteq> []"
    and "\<forall>(sid, c) \<in> set (st_checkpoints s). plain_id sid"
    and "\<forall>(name, f) \<in> set (st_files s). \<exists>sid. name = file_name sid \<and> plain_id sid"
  shows "get_checkpoint sid (initialize opt (empty_store (st_files (snd (persistAll opt now {} s))))) =
    map_option (stamp now) (get_checkpoint sid s)"
proof -
  let ?ks = "map ck_sessionId (list_checkpoints s)"
  have ks: "?ks = map fst (st_checkpoints s)"
    using assms(1) unfolding list_checkpoints_def map_map entries_ok_def
    by (intro map_cong refl) (auto simp: checkpoint_ok_def)
  have known: "j \<in> set ?ks \<longleftrightarrow> (\<exists>c. get_checkpoint j s = Some c)" for j
    unfolding ks get_checkpoint_def not_None_eq [symmetric] map_of_eq_None_iff by simp
  have dist: "distinct ?ks" using assms(1) unfolding ks entries_ok_def by simp
  let ?r = "foldl (persist_tick opt now {}) (0, s) ?ks"
  let ?m = "st_checkpoints (snd ?r)" and ?F = "st_files (snd ?r)"
  let ?G = "filter (\<lambda>(name, _). \<not> stale_file ?m name) ?F"
  have files: "st_files (snd (persistAll opt now {} s)) = ?G"
    using assms(3) by (simp add: persistAll_def Let_def split_beta)
  have live: "map_of ?m j = map_option (stamp now) (get_checkpoint j s)" for j
    using persist_loop_memory [OF assms(3) dist, of j now "(0, s)"] known [of j]
    by (cases "get_checkpoint j s") (simp_all add: get_checkpoint_def)
  have ok: "jmap_ok ?F" using persist_loop_wf [OF assms(3)] assms(2) by simp
  have written: "map_of ?F (file_name j) = Some (Some (stamp now c)) \<and> plain_id j \<and> ck_sessionId c = j"
    if "get_checkpoint j s = Some c" for j c
  proof -
    have "j \<in> set ?ks" using known that by blast
    then have "plain_id j" using assms(4) unfolding ks by auto
    moreover have "ck_sessionId c = j"
      using entries_ok_get [OF assms(1) that [unfolded get_checkpoint_def]] by (simp add: checkpoint_ok_def)
    ultimately show ?thesis
      using persist_loop_written [OF assms(3) dist \<open>j \<in> set ?ks\<close>, of "(0, s)" c now] that by simp
  qed
  have onfile: "\<exists>j c. name = file_name j \<and> get_checkpoint j s = Some c \<and> content = Some (stamp now c)"
    if g: "(name, content) \<in> set ?G" for name content
  proof -
    have F: "map_of ?F name = Some content" and "\<not> stale_file ?m name" using g ok by auto
    obtain j where j: "name = file_name j" "plain_id j"
    proof (cases "name \<in> file_name ` set ?ks")
      case True
      then show ?thesis using that known written by blast
    next
      case False
      have "map_of (st_files s) name = Some content"
        using F persist_loop_other [OF assms(3) False, of now "(0, s)"] by simp
      then have "(name, content) \<in> set (st_files s)" by (rule map_of_SomeD)
      then show ?thesis using that assms(5) by blast
    qed
    then obtain c where c: "get_checkpoint j s = Some c"
      using \<open>\<not> stale_file ?m name\<close> live [of j] replace_file_name by (auto simp: stale_file_def)
    with written [OF c] F j(1) show ?thesis by auto
  qed
  have "own_file f" if "f \<in> set ?G" for f
  proof -
    have "(fst f, snd f) \<in> set ?G" using that by simp
    from onfile [OF this] obtain j c
      where "fst f = file_name j" "get_checkpoint j s = Some c" "snd f = Some (stamp now c)" by blast
    with written [of j c] show ?thesis unfolding own_file_def
      by (intro exI [of _ j] exI [of _ "stamp now c"]) (simp add: prod_eq_iff stamp_def)
  qed
  then have load: "map_of (foldl load_file [] ?G) sid =
      (case map_of ?G (file_name sid) of Some (Some c) \<Rightarrow> Some c | _ \<Rightarrow> map_of [] sid)"
    using distinct_map_filter [OF ok] by (intro load_files) auto
  have "map_of ?G (file_name sid) = map_option (\<lambda>c. Some (stamp now c)) (get_checkpoint sid s)"
  proof (cases "get_checkpoint sid s")
    case None
    have "(file_name sid, x) \<notin> set ?G" for x
      using onfile [of "file_name sid" x] None by auto
    with None show ?thesis by (auto simp: map_of_eq_None_iff)
  next
    case (Some c)
    have "(file_name sid, Some (stamp now c)) \<in> set ?F" using written [OF Some] by (blast dest: map_of_SomeD)
    moreover have "\<not> stale_file ?m (file_name sid)"
      using written [OF Some] live [of sid] Some replace_file_name by (simp add: stale_file_def)
    ultimately have "(file_name sid, Some (stamp now c)) \<in> set ?G" by simp
    from jmap_find [OF distinct_map_filter [OF ok] this] Some show ?thesis by simp
  qed
  with load have "map_of (foldl load_file [] ?G) sid = map_option (stamp now) (get_checkpoint sid s)"
    by (simp split: option.split)
  then show ?thesis using assms(3) by (simp add: files initialize_def empty_store_def get_checkpoint_def)
qed

theorem persist_then_initialize_witness:
  "let opt = DEFAULT_CHECKPOINT_OPTIONS\<lparr>co_persistDir := ''/d''\<rparr>;
       s = foldl (checkpoint_step opt) (empty_store []) [Ck_Create 0 ''s1'' ''g'' ''x'' ''p'']
   in get_checkpoint ''s1'' (initialize opt (empty_store (st_files (snd (persistAll opt 9 {} s))))) =
        map_option (stamp 9) (get_checkpoint ''s1'' s)"
proof -
  let ?opt = "DEFAULT_CHECKPOINT_OPTIONS\<lparr>co_persistDir := ''/d''\<rparr>"
  let ?s = "foldl (checkpoint_step ?opt) (empty_store []) [Ck_Create 0 ''s1'' ''g'' ''x'' ''p'']"
  have "entries_ok checkpoint_ok (st_checkpoints (empty_store []))" by (simp add: empty_store_def)
  then have ok: "entries_ok checkpoint_ok (st_checkpoints ?s)" by (rule checkpoints.run_inv)
  have f: "st_files ?s = []" and k: "map fst (st_checkpoints ?s) = [''s1'']" by code_simp+
  have p: "plain_id ''s1''" by code_simp
  have "\<forall>(sid, c) \<in> set (st_checkpoints ?s). plain_id sid"
  proof clarify
    fix sid c assume "(sid, c) \<in> set (st_checkpoints ?s)"
    then have "sid \<in> set (map fst (st_checkpoints ?s))" by force
    then show "plain_id sid" unfolding k using p by simp
  qed
  from persist_then_initialize [OF ok _ _ this, of ?opt "''s1''" 9] f show ?thesis
    unfolding Let_def by simp
qed

text \<open>
  What the assumption on session ids excludes: the clean-up recovers the id from the file name by
  dropping the first occurrence of the suffix, so the file just written for a session whose id
  contains the suffix is deleted again.
\<close>

lemma suffixed_id_loses_its_file:
  "let opt = DEFAULT_CHECKPOINT_OPTIONS\<lparr>co_persistDir := ''/d''\<rparr>;
       s = snd (create_checkpoint opt 0 ''a.checkpoint.json.b'' ''g'' ''x'' ''p'' (empty_store []))
   in fst (persistAll opt 9 {} s) = 1 \<and> st_files (snd (persistAll opt 9 {} s)) = []"
  by code_simp

end
