(* ===== verification/Gaps.thy ===== *)
theory Gaps
  imports Prelude
begin

text \<open>
  Gap detection after a reconnect (\<open>gateway/reconciliation/src/gap-detector.ts\<close> and the data of
  \<open>types.ts\<close>): which sequence numbers of a range are missing, as maximal runs, and how far the
  events can be replayed.  Sequence numbers are whole; the clock is an argument.
\<close>

section \<open>Data\<close>

datatype event_durability = Durable | Ephemeral

record event_classification =
  ec_eventType :: string
  ec_durability :: event_durability
  ec_description :: string

abbreviation durable_type :: "string \<Rightarrow> string \<Rightarrow> event_classification" where
  "durable_type ty d \<equiv> \<lparr>ec_eventType = ty, ec_durability = Durable, ec_description = d\<rparr>"

abbreviation ephemeral_type :: "string \<Rightarrow> string \<Rightarrow> event_classification" where
  "ephemeral_type ty d \<equiv> \<lparr>ec_eventType = ty, ec_durability = Ephemeral, ec_description = d\<rparr>"

definition DURABLE_EVENT_TYPES :: "event_classification list" where
  "DURABLE_EVENT_TYPES =
     [durable_type ''session.created'' ''Session initialization event'',
      durable_type ''session.started'' ''Session started'',
      durable_type ''session.status_changed'' ''Session state transition'',
      durable_type ''session.approval_required'' ''Approval was requested'',
      durable_type ''session.approval_granted'' ''Approval was granted'',
      durable_type ''session.approval_denied'' ''Approval was denied'',
      durable_type ''session.completed'' ''Session ended in success'',
      durable_type ''session.failed'' ''Session ended in failure'',
      durable_type ''session.cancelled'' ''Session was cancelled'',
      durable_type ''session.crashed'' ''Session crashed'',
      durable_type ''session.checkpoint'' ''Checkpoint created'',
      durable_type ''policy.violation'' ''Security policy event'',
      durable_type ''gateway.status'' ''Gateway status audit'',
      durable_type ''system.error'' ''System error audit'']"

definition EPHEMERAL_EVENT_TYPES :: "event_classification list" where
  "EPHEMERAL_EVENT_TYPES =
     [ephemeral_type ''session.output'' ''Streaming output chunks'',
      ephemeral_type ''session.message'' ''Streaming assistant messages'',
      ephemeral_type ''session.thinking'' ''Streaming thinking state'',
      ephemeral_type ''session.tool_call'' ''Streaming tool call progress'',
      ephemeral_type ''session.tool_result'' ''Streaming tool result'',
      ephemeral_type ''session.tool_error'' ''Streaming tool error'',
      ephemeral_type ''session.file_changed'' ''File change events'']"

record event_envelope =
  ev_eventId :: string
  ev_eventType :: string
  ev_eventVersion :: int
  ev_sessionId :: string
  ev_deviceId :: "string option"
  ev_sequence :: int
  ev_occurredAt :: int
  ev_correlationId :: "string option"
  ev_parentEventId :: "string option"
  ev_payload :: js_value

record unrecoverable_gap =
  ug_sessionId :: "string option"
  ug_from :: int
  ug_to :: int
  ug_reason :: string
  ug_reportedAt :: int
  ug_eventTypes :: "string list option"

record gap_analysis =
  ga_gaps :: "unrecoverable_gap list"
  ga_missing :: "int list"
  ga_replayable :: "(int \<times> int) option"
  ga_global :: "(int \<times> int) option"

section \<open>The detector\<close>

definition durable_event_types :: "event_classification list \<Rightarrow> string set" where
  "durable_event_types cs = set (map ec_eventType (filter (\<lambda>c. ec_durability c = Durable) cs))"

definition isDurable :: "string set \<Rightarrow> string \<Rightarrow> bool" where
  "isDurable ds ty \<longleftrightarrow> ty \<in> ds"

definition classifyDurability :: "string set \<Rightarrow> string \<Rightarrow> event_durability" where
  "classifyDurability ds ty = (if isDurable ds ty then Durable else Ephemeral)"

text \<open>The loop \<open>for (seq = from; seq <= to; seq++)\<close>.\<close>

function missing_from :: "int \<Rightarrow> int \<Rightarrow> int set \<Rightarrow> int list" where
  "missing_from n hi present =
     (if n > hi then []
      else if n \<in> present then missing_from (n + 1) hi present
      else n # missing_from (n + 1) hi present)"
  by auto
termination by (relation "measure (\<lambda>(n, hi, _). nat (hi + 1 - n))") auto

declare missing_from.simps [simp del]

fun collect_runs :: "(int \<times> int) option \<Rightarrow> int list \<Rightarrow> (int \<times> int) list" where
  "collect_runs None [] = []"
| "collect_runs (Some r) [] = [r]"
| "collect_runs None (n # ns) = collect_runs (Some (n, n)) ns"
| "collect_runs (Some (a, b)) (n # ns) =
     (if n = b + 1 then collect_runs (Some (a, n)) ns
      else (a, b) # collect_runs (Some (n, n)) ns)"

definition events_in_run :: "int \<times> int \<Rightarrow> event_envelope list option \<Rightarrow> event_envelope list" where
  "events_in_run r events =
     (case events of None \<Rightarrow> []
      | Some es \<Rightarrow> filter (\<lambda>e. ev_sequence e \<ge> fst r \<and> ev_sequence e \<le> snd r) es)"

definition has_durable :: "string set \<Rightarrow> event_envelope list \<Rightarrow> bool" where
  "has_durable ds es \<longleftrightarrow> es = [] \<or> (\<exists>e \<in> set es. isDurable ds (ev_eventType e))"

definition gap_of_run :: "int \<Rightarrow> event_envelope list option \<Rightarrow> int \<times> int \<Rightarrow> unrecoverable_gap" where
  "gap_of_run now events r =
     (let types = js_dedupe (map ev_eventType (events_in_run r events)) in
      \<lparr>ug_sessionId = None, ug_from = fst r, ug_to = snd r,
       ug_reason = ''Missing '' @ show_int (snd r - fst r + 1) @ '' sequences'',
       ug_reportedAt = now, ug_eventTypes = (if types = [] then None else Some types)\<rparr>)"

definition analyzeSequences ::
  "string set \<Rightarrow> int \<Rightarrow> int \<Rightarrow> int \<Rightarrow> int list \<Rightarrow> bool \<Rightarrow> event_envelope list option \<Rightarrow> gap_analysis" where
  "analyzeSequences ds now expectedFrom expectedTo actual onlyDurable events =
     (let none = \<lparr>ga_gaps = [], ga_missing = [], ga_replayable = None, ga_global = None\<rparr> in
      if expectedFrom > expectedTo then none
      else
        (let missing = missing_from expectedFrom expectedTo (set actual);
             result = none\<lparr>ga_missing := missing\<rparr> in
         if missing = [] then result\<lparr>ga_replayable := Some (expectedFrom, expectedTo)\<rparr>
         else
           (let runs = collect_runs None missing;
                kept = filter (\<lambda>r. \<not> (onlyDurable \<and> \<not> has_durable ds (events_in_run r events))) runs;
                gaps = map (gap_of_run now events) kept in
            if gaps = [] then result\<lparr>ga_replayable := Some (expectedFrom, expectedTo)\<rparr>
            else result\<lparr>ga_gaps := gaps, ga_global := Some (ug_from (hd gaps), ug_to (last gaps))\<rparr>)))"

record session_range =
  sr_from :: int
  sr_to :: int
  sr_actual :: "int list"
  sr_events :: "event_envelope list option"

definition in_session :: "string \<Rightarrow> gap_analysis \<Rightarrow> gap_analysis" where
  "in_session sid a = a\<lparr>ga_gaps := map (\<lambda>g. g\<lparr>ug_sessionId := Some sid\<rparr>) (ga_gaps a)\<rparr>"

definition analyzeBySession ::
  "string set \<Rightarrow> int \<Rightarrow> (string, session_range) jmap \<Rightarrow> bool \<Rightarrow> (string, gap_analysis) jmap" where
  "analyzeBySession ds now ranges onlyDurable =
     map (\<lambda>(sid, r). (sid, in_session sid
       (analyzeSequences ds now (sr_from r) (sr_to r) (sr_actual r) onlyDurable (sr_events r)))) ranges"

record replay_window =
  rw_canReplayGlobally :: bool
  rw_firstGapAt :: "int option"
  rw_replayableUpTo :: "int option"

definition min_gap :: "int option \<Rightarrow> gap_analysis \<Rightarrow> int option" where
  "min_gap firstGapAt a =
     (if ga_gaps a = [] then firstGapAt
      else (let m = Min (set (map ug_from (ga_gaps a))) in
            case firstGapAt of None \<Rightarrow> Some m | Some f \<Rightarrow> if m < f then Some m else Some f))"

definition findReplayableWindow :: "(string, gap_analysis) jmap \<Rightarrow> gap_analysis \<Rightarrow> replay_window" where
  "findReplayableWindow perSession glob =
     (let first = foldl min_gap (map_option fst (ga_global glob)) (map snd perSession) in
      \<lparr>rw_canReplayGlobally = (first = None), rw_firstGapAt = first,
       rw_replayableUpTo = map_option (\<lambda>f. f - 1) first\<rparr>)"

definition mergeGaps ::
  "unrecoverable_gap list \<Rightarrow> (string, unrecoverable_gap list) jmap \<Rightarrow> unrecoverable_gap list" where
  "mergeGaps globalGaps perSession =
     js_sort (\<lambda>a b. ug_from a - ug_from b) (globalGaps @ concat (map snd perSession))"

section \<open>Missing sequences and their runs\<close>

lemma missing_from_filter: "missing_from n hi present = filter (\<lambda>k. k \<notin> present) [n..hi]"
proof (induction n hi present rule: missing_from.induct)
  case (1 n hi present)
  show ?case
  proof (cases "n > hi")
    case False
    then have "[n..hi] = n # [n + 1..hi]" by (simp add: upto_rec1)
    with 1 False show ?thesis by (subst missing_from.simps) simp
  qed (simp add: missing_from.simps)
qed

text \<open>The runs of an ascending list: their elements, in order, never adjacent.\<close>

definition covered :: "(int \<times> int) list \<Rightarrow> int set" where
  "covered rs = (\<Union>r \<in> set rs. {fst r..snd r})"

lemma covered_simps [simp]: "covered [] = {}" "covered (r # rs) = {fst r..snd r} \<union> covered rs"
  by (simp_all add: covered_def)

abbreviation apart :: "(int \<times> int) list \<Rightarrow> bool" where
  "apart rs \<equiv> sorted_wrt (\<lambda>r s. snd r + 1 < fst s) rs \<and> (\<forall>r \<in> set rs. fst r \<le> snd r)"

lemma collect_runs_from:
  "sorted_wrt (<) (b # ns) \<Longrightarrow> a \<le> b \<Longrightarrow>
     covered (collect_runs (Some (a, b)) ns) = {a..b} \<union> set ns \<and>
     apart (collect_runs (Some (a, b)) ns) \<and>
     (\<forall>r \<in> set (collect_runs (Some (a, b)) ns). a \<le> fst r)"
proof (induction ns arbitrary: a b)
  case Nil
  then show ?case by simp
next
  case (Cons n ns)
  have less: "b < n" "sorted_wrt (<) (n # ns)" using Cons.prems(1) by simp_all
  show ?case
  proof (cases "n = b + 1")
    case True
    have "{a..b + 1} = insert (b + 1) {a..b}" using Cons.prems(2) by auto
    with Cons.IH [OF less(2), of a] Cons.prems(2) True show ?thesis by simp
  next
    case False
    have "b + 1 < n" using False less(1) by simp
    note ih = Cons.IH [OF less(2) order_refl]
    have later: "b + 1 < fst r" if "r \<in> set (collect_runs (Some (n, n)) ns)" for r
      using ih that \<open>b + 1 < n\<close> by fastforce
    have "covered ((a, b) # collect_runs (Some (n, n)) ns) = {a..b} \<union> set (n # ns)"
      using ih by simp
    moreover have "apart ((a, b) # collect_runs (Some (n, n)) ns)"
      using ih later Cons.prems(2) by simp
    moreover have "\<forall>r \<in> set ((a, b) # collect_runs (Some (n, n)) ns). a \<le> fst r"
      using later Cons.prems(2) by fastforce
    ultimately show ?thesis using False by simp
  qed
qed

lemma collect_runs_meaning:
  assumes "sorted_wrt (<) ns"
  shows "covered (collect_runs None ns) = set ns" "apart (collect_runs None ns)"
proof -
  have "covered (collect_runs None ns) = set ns \<and> apart (collect_runs None ns)"
  proof (cases ns)
    case (Cons n ms)
    then show ?thesis using collect_runs_from [of n ms n] assms by simp
  qed simp
  then show "covered (collect_runs None ns) = set ns" "apart (collect_runs None ns)" by blast+
qed

section \<open>What an analysis reports\<close>

abbreviation span_of :: "unrecoverable_gap \<Rightarrow> int \<times> int" where
  "span_of g \<equiv> (ug_from g, ug_to g)"

abbreviation within :: "int \<Rightarrow> unrecoverable_gap \<Rightarrow> bool" where
  "within n g \<equiv> ug_from g \<le> n \<and> n \<le> ug_to g"

definition kept_run :: "string set \<Rightarrow> bool \<Rightarrow> event_envelope list option \<Rightarrow> int \<times> int \<Rightarrow> bool" where
  "kept_run ds onlyDurable events r \<longleftrightarrow> \<not> (onlyDurable \<and> \<not> has_durable ds (events_in_run r events))"

lemma span_gap_of_run [simp]: "span_of (gap_of_run now ev r) = r"
  by (simp add: gap_of_run_def Let_def)

lemma analyze_missing:
  "ga_missing (analyzeSequences ds now f t actual od ev) = filter (\<lambda>k. k \<notin> set actual) [f..t]"
  by (simp add: analyzeSequences_def Let_def missing_from_filter)

lemma analyze_gaps:
  "ga_gaps (analyzeSequences ds now f t actual od ev) =
     map (gap_of_run now ev) (filter (kept_run ds od ev)
       (collect_runs None (ga_missing (analyzeSequences ds now f t actual od ev))))"
  unfolding analyze_missing
  by (simp add: analyzeSequences_def Let_def missing_from_filter kept_run_def [abs_def])

lemma analyze_replayable:
  "ga_replayable (analyzeSequences ds now f t actual od ev) =
     (if f \<le> t \<and> ga_gaps (analyzeSequences ds now f t actual od ev) = [] then Some (f, t) else None)"
  by (simp add: analyzeSequences_def Let_def)

lemma analyze_global:
  "ga_global (analyzeSequences ds now f t actual od ev) =
     (let gaps = ga_gaps (analyzeSequences ds now f t actual od ev)
      in if gaps = [] then None else Some (ug_from (hd gaps), ug_to (last gaps)))"
  by (simp add: analyzeSequences_def Let_def)

lemma missing_ascending: "sorted_wrt (<) (filter P [f..t :: int])"
  by (rule sorted_wrt_filter) (simp add: strict_sorted_iff)

lemmas missing_runs = collect_runs_meaning [OF missing_ascending]

lemma gap_spans:
  "map span_of (ga_gaps (analyzeSequences ds now f t actual od ev)) =
     filter (kept_run ds od ev) (collect_runs None (filter (\<lambda>k. k \<notin> set actual) [f..t]))"
  unfolding analyze_gaps analyze_missing by (simp add: comp_def)

lemma run_bounds:
  assumes "r \<in> set (collect_runs None (filter P [f..t]))"
  shows "f \<le> fst r \<and> fst r \<le> snd r \<and> snd r \<le> t"
proof -
  have "fst r \<le> snd r" using missing_runs(2) [of P f t] assms by blast
  then have "{fst r, snd r} \<subseteq> covered (collect_runs None (filter P [f..t]))"
    using assms unfolding covered_def by fastforce
  then have "{fst r, snd r} \<subseteq> {f..t}" unfolding missing_runs(1) by auto
  with \<open>fst r \<le> snd r\<close> show ?thesis by simp
qed

lemma gap_apart:
  "sorted_wrt (\<lambda>g h. ug_to g + 1 < ug_from h) (ga_gaps (analyzeSequences ds now f t actual od ev))"
proof -
  have "sorted_wrt (\<lambda>r s. snd r + 1 < fst s) (map span_of (ga_gaps (analyzeSequences ds now f t actual od ev)))"
    unfolding gap_spans using missing_runs(2) by (intro sorted_wrt_filter) blast
  then show ?thesis by (simp add: sorted_wrt_map)
qed

lemma gap_run:
  assumes "g \<in> set (ga_gaps (analyzeSequences ds now f t actual od ev))"
  shows "span_of g \<in> set (collect_runs None (filter (\<lambda>k. k \<notin> set actual) [f..t]))"
    and "kept_run ds od ev (span_of g)"
proof -
  have "span_of g \<in> set (map span_of (ga_gaps (analyzeSequences ds now f t actual od ev)))"
    using assms by simp
  then show "span_of g \<in> set (collect_runs None (filter (\<lambda>k. k \<notin> set actual) [f..t]))"
    and "kept_run ds od ev (span_of g)"
    unfolding gap_spans set_filter by blast+
qed

lemma run_gap:
  assumes "r \<in> set (collect_runs None (filter (\<lambda>k. k \<notin> set actual) [f..t]))" "kept_run ds od ev r"
  shows "\<exists>g \<in> set (ga_gaps (analyzeSequences ds now f t actual od ev)). span_of g = r"
proof -
  have "r \<in> set (map span_of (ga_gaps (analyzeSequences ds now f t actual od ev)))"
    unfolding gap_spans set_filter using assms by blast
  then show ?thesis by (metis (no_types, lifting) in_set_conv_nth length_map nth_map)
qed

lemma missing_run:
  assumes "f \<le> n" "n \<le> t" "n \<notin> set actual"
  obtains r where "r \<in> set (collect_runs None (filter (\<lambda>k. k \<notin> set actual) [f..t]))"
    "fst r \<le> n" "n \<le> snd r"
proof -
  have "n \<in> covered (collect_runs None (filter (\<lambda>k. k \<notin> set actual) [f..t]))"
    unfolding missing_runs(1) using assms by simp
  then show thesis using that unfolding covered_def by auto
qed

lemma run_missing:
  assumes "r \<in> set (collect_runs None (filter (\<lambda>k. k \<notin> set actual) [f..t]))" "fst r \<le> n" "n \<le> snd r"
  shows "n \<notin> set actual"
proof -
  have "n \<in> covered (collect_runs None (filter (\<lambda>k. k \<notin> set actual) [f..t]))"
    using assms unfolding covered_def by auto
  then show ?thesis unfolding missing_runs(1) by simp
qed

text \<open>
  C16: Exactness: without the filter, the reported gaps are the maximal runs of missing sequences:
  a sequence of the range is in a gap iff it was not received, gaps lie in the range, ascend and
  never touch, and the range is replayable iff there is no gap.
\<close>

theorem gaps_are_missing_runs:
  assumes "f \<le> t"
  shows "let a = analyzeSequences ds now f t actual False ev in
    (\<forall>n. f \<le> n \<and> n \<le> t \<longrightarrow> (n \<notin> set actual \<longleftrightarrow> (\<exists>g \<in> set (ga_gaps a). within n g))) \<and>
    (\<forall>g \<in> set (ga_gaps a). f \<le> ug_from g \<and> ug_from g \<le> ug_to g \<and> ug_to g \<le> t) \<and>
    sorted_wrt (\<lambda>g h. ug_to g + 1 < ug_from h) (ga_gaps a) \<and>
    (ga_replayable a = Some (f, t) \<longleftrightarrow> {f..t} \<subseteq> set actual)"
proof -
  let ?a = "analyzeSequences ds now f t actual False ev"
  have all: "kept_run ds False ev r" for r by (simp add: kept_run_def)
  have iff: "n \<notin> set actual \<longleftrightarrow> (\<exists>g \<in> set (ga_gaps ?a). within n g)" if n: "f \<le> n" "n \<le> t" for n
  proof
    assume "n \<notin> set actual"
    from missing_run [OF n this] obtain r
      where "r \<in> set (collect_runs None (filter (\<lambda>k. k \<notin> set actual) [f..t]))" "fst r \<le> n" "n \<le> snd r" .
    with run_gap [OF this(1) all] show "\<exists>g \<in> set (ga_gaps ?a). within n g" by fastforce
  next
    assume "\<exists>g \<in> set (ga_gaps ?a). within n g"
    then obtain g where g: "g \<in> set (ga_gaps ?a)" "within n g" by blast
    show "n \<notin> set actual" using run_missing [OF gap_run(1) [OF g(1)]] g(2) by simp
  qed
  have bounds: "f \<le> ug_from g \<and> ug_from g \<le> ug_to g \<and> ug_to g \<le> t" if "g \<in> set (ga_gaps ?a)" for g
    using run_bounds [OF gap_run(1) [OF that]] by simp
  have "ga_gaps ?a = [] \<longleftrightarrow> {f..t} \<subseteq> set actual"
  proof
    assume "ga_gaps ?a = []"
    then show "{f..t} \<subseteq> set actual" using iff by auto
  next
    assume r: "{f..t} \<subseteq> set actual"
    show "ga_gaps ?a = []"
    proof (rule ccontr)
      assume "ga_gaps ?a \<noteq> []"
      then obtain g where g: "g \<in> set (ga_gaps ?a)" by (cases "ga_gaps ?a") auto
      have "ug_from g \<notin> set actual" using iff [of "ug_from g"] bounds [OF g] g by auto
      with r bounds [OF g] show False by (meson atLeastAtMost_iff order_trans subsetD)
    qed
  qed
  then have "ga_replayable ?a = Some (f, t) \<longleftrightarrow> {f..t} \<subseteq> set actual"
    using assms by (simp add: analyze_replayable)
  with iff bounds gap_apart show ?thesis unfolding Let_def by blast
qed

theorem gaps_are_missing_runs_witness:
  "map span_of (ga_gaps (analyzeSequences {} 0 1 9 [1, 4, 5, 9] False None)) = [(2, 3), (6, 8)] \<and>
   \<not> {1..9} \<subseteq> set [1, 4, 5, 9 :: int]"
proof -
  have "(1::int) \<le> 9" by simp
  from gaps_are_missing_runs [OF this, where ds = "{}" and now = 0 and actual = "[1, 4, 5, 9]" and ev = None]
  have "ga_replayable (analyzeSequences {} 0 1 9 [1, 4, 5, 9] False None) = Some (1, 9) \<longleftrightarrow> {1..9} \<subseteq> set [1, 4, 5, 9 :: int]"
    unfolding Let_def by blast
  moreover have "ga_replayable (analyzeSequences {} 0 1 9 [1, 4, 5, 9] False None) \<noteq> Some (1, 9)"
    "map span_of (ga_gaps (analyzeSequences {} 0 1 9 [1, 4, 5, 9] False None)) = [(2, 3), (6, 8)]"
    by code_simp+
  ultimately show ?thesis by blast
qed

text \<open>
  The filter for durable events drops a missing sequence only when the whole run it is in is
  known to hold ephemeral events and nothing else; a run about which nothing is known is kept.
\<close>

theorem only_known_ephemeral_dropped:
  assumes "f \<le> n" "n \<le> t" "n \<notin> set actual"
  shows "(\<exists>g \<in> set (ga_gaps (analyzeSequences ds now f t actual True ev)). within n g) \<or>
    (\<exists>g \<in> set (ga_gaps (analyzeSequences ds now f t actual False ev)). within n g \<and>
       events_in_run (span_of g) ev \<noteq> [] \<and>
       (\<forall>e \<in> set (events_in_run (span_of g) ev). classifyDurability ds (ev_eventType e) = Ephemeral))"
proof -
  from missing_run [OF assms] obtain r where r:
    "r \<in> set (collect_runs None (filter (\<lambda>k. k \<notin> set actual) [f..t]))" "fst r \<le> n" "n \<le> snd r" .
  show ?thesis
  proof (cases "kept_run ds True ev r")
    case True
    from run_gap [OF r(1) this] r show ?thesis by fastforce
  next
    case False
    have "kept_run ds False ev r" by (simp add: kept_run_def)
    from run_gap [OF r(1) this] obtain g where
      g: "g \<in> set (ga_gaps (analyzeSequences ds now f t actual False ev))" "span_of g = r" by blast
    from False have "events_in_run r ev \<noteq> []" "\<forall>e \<in> set (events_in_run r ev). \<not> isDurable ds (ev_eventType e)"
      by (auto simp: kept_run_def has_durable_def)
    with g r show ?thesis by (auto simp: classifyDurability_def)
  qed
qed

theorem only_known_ephemeral_dropped_witness:
  "\<exists>g \<in> set (ga_gaps (analyzeSequences (durable_event_types DURABLE_EVENT_TYPES) 0 1 3 [1, 3] True None)). within 2 g"
proof -
  have "(1::int) \<le> 2" "(2::int) \<le> 3" "2 \<notin> set [1, 3 :: int]" by simp_all
  from only_known_ephemeral_dropped [OF this, where ds = "durable_event_types DURABLE_EVENT_TYPES" and now = 0 and ev = None]
  show ?thesis by (simp add: events_in_run_def)
qed

section \<open>The replayable window\<close>

lemma min_gap_None [simp]: "min_gap f a = None \<longleftrightarrow> f = None \<and> ga_gaps a = []"
  by (auto simp: min_gap_def Let_def split: option.splits)

lemma min_gap_Some:
  assumes "min_gap f a = Some m"
  shows "f = Some m \<or> (\<exists>g \<in> set (ga_gaps a). ug_from g = m)"
    and "f = Some k \<Longrightarrow> m \<le> k"
    and "\<forall>g \<in> set (ga_gaps a). m \<le> ug_from g"
proof -
  have mem: "\<exists>g \<in> set (ga_gaps a). ug_from g = Min (set (map ug_from (ga_gaps a)))" if "ga_gaps a \<noteq> []"
  proof -
    have "Min (set (map ug_from (ga_gaps a))) \<in> set (map ug_from (ga_gaps a))"
      using that by (intro Min_in) simp_all
    then show ?thesis by auto
  qed
  have low: "Min (set (map ug_from (ga_gaps a))) \<le> ug_from g" if "g \<in> set (ga_gaps a)" for g
    using that by (intro Min_le) simp_all
  show "f = Some m \<or> (\<exists>g \<in> set (ga_gaps a). ug_from g = m)"
    using assms mem unfolding min_gap_def Let_def by (auto split: if_splits option.splits)
  show "m \<le> k" if "f = Some k"
    using assms that unfolding min_gap_def Let_def by (auto split: if_splits)
  show "\<forall>g \<in> set (ga_gaps a). m \<le> ug_from g"
  proof
    fix g assume g: "g \<in> set (ga_gaps a)"
    then have "ga_gaps a \<noteq> []" by auto
    with assms low [OF g] show "m \<le> ug_from g"
      unfolding min_gap_def Let_def by (auto split: if_splits option.splits)
  qed
qed

lemma min_gaps_None: "foldl min_gap f as = None \<longleftrightarrow> f = None \<and> (\<forall>a \<in> set as. ga_gaps a = [])"
  by (induction as arbitrary: f) auto

lemma min_gaps_Some:
  "foldl min_gap f as = Some m \<Longrightarrow>
     (f = Some m \<or> (\<exists>a \<in> set as. \<exists>g \<in> set (ga_gaps a). ug_from g = m)) \<and>
     (\<forall>k. f = Some k \<longrightarrow> m \<le> k) \<and> (\<forall>a \<in> set as. \<forall>g \<in> set (ga_gaps a). m \<le> ug_from g)"
proof (induction as arbitrary: f)
  case Nil
  then show ?case by simp
next
  case (Cons a as)
  then have fold: "foldl min_gap (min_gap f a) as = Some m" by simp
  note ih = Cons.IH [OF fold]
  show ?case
  proof (cases "min_gap f a")
    case None
    then have "f = None" "ga_gaps a = []" by simp_all
    with ih [unfolded None] show ?thesis by simp
  next
    case (Some k)
    note k = min_gap_Some [OF Some]
    have "m \<le> k" using ih Some by simp
    have "f = Some m \<or> (\<exists>b \<in> set (a # as). \<exists>g \<in> set (ga_gaps b). ug_from g = m)"
      using ih k(1) Some by auto
    moreover have "\<forall>j. f = Some j \<longrightarrow> m \<le> j" using k(2) \<open>m \<le> k\<close> by force
    moreover have "\<forall>g \<in> set (ga_gaps a). m \<le> ug_from g" using k(3) \<open>m \<le> k\<close> by force
    ultimately show ?thesis using ih by simp
  qed
qed

lemma first_gap_least:
  assumes "ga_global (analyzeSequences ds now f t actual od ev) = Some (a, b)"
    "g \<in> set (ga_gaps (analyzeSequences ds now f t actual od ev))"
  shows "a \<le> ug_from g"
proof -
  let ?gs = "ga_gaps (analyzeSequences ds now f t actual od ev)"
  obtain h hs where gs: "?gs = h # hs" using assms(2) by (cases ?gs) auto
  have "a = ug_from h" using assms(1) gs by (simp add: analyze_global)
  moreover have "g = h \<or> ug_to h + 1 < ug_from g"
    using gap_apart [of ds now f t actual od ev] assms(2) unfolding gs by auto
  moreover have "ug_from h \<le> ug_to h"
    using run_bounds [OF gap_run(1), of h ds now f t actual od ev] gs by simp
  ultimately show ?thesis by auto
qed

lemma below_gaps_received:
  assumes "\<forall>g \<in> set (ga_gaps (analyzeSequences ds now f t actual False ev)). u < ug_from g"
    "f \<le> n" "n \<le> t" "n \<le> u"
  shows "n \<in> set actual"
proof (rule ccontr)
  assume "n \<notin> set actual"
  from missing_run [OF assms(2,3) this] obtain r where
    r: "r \<in> set (collect_runs None (filter (\<lambda>k. k \<notin> set actual) [f..t]))" "fst r \<le> n" .
  have "kept_run ds False ev r" by (simp add: kept_run_def)
  from run_gap [OF r(1) this] obtain g where
    "g \<in> set (ga_gaps (analyzeSequences ds now f t actual False ev))" "ug_from g = fst r" by fastforce
  with assms(1,4) r(2) show False by fastforce
qed

lemma session_gaps:
  assumes "(sid, r) \<in> set ranges" "g \<in> set (ga_gaps (analyzeSequences ds now (sr_from r) (sr_to r) (sr_actual r) od (sr_events r)))"
  shows "\<exists>a \<in> set (map snd (analyzeBySession ds now ranges od)). \<exists>h \<in> set (ga_gaps a). span_of h = span_of g"
proof (intro bexI)
  let ?a = "analyzeSequences ds now (sr_from r) (sr_to r) (sr_actual r) od (sr_events r)"
  have "(sid, in_session sid ?a) \<in> set (analyzeBySession ds now ranges od)"
    unfolding analyzeBySession_def set_map using assms(1) by (rule rev_image_eqI) simp
  then show "in_session sid ?a \<in> set (map snd (analyzeBySession ds now ranges od))" by force
  show "g\<lparr>ug_sessionId := Some sid\<rparr> \<in> set (ga_gaps (in_session sid ?a))"
    using assms(2) by (simp add: in_session_def)
  show "span_of (g\<lparr>ug_sessionId := Some sid\<rparr>) = span_of g" by simp
qed

text \<open>
  The window is sound: every session received all of its expected sequences up to
  \<open>replayableUpTo\<close>, and so did the device as a whole; when everything can be replayed, nothing is missing.
\<close>

theorem replayable_window_sound:
  assumes "n \<le> sr_to r" "sr_from r \<le> n" "m \<le> t" "f \<le> m" "(sid, r) \<in> set ranges"
    and "let w = findReplayableWindow (analyzeBySession ds now ranges False)
           (analyzeSequences ds now f t actual False ev)
         in rw_canReplayGlobally w \<or> (\<exists>u. rw_replayableUpTo w = Some u \<and> n \<le> u \<and> m \<le> u)"
  shows "n \<in> set (sr_actual r) \<and> m \<in> set actual"
proof -
  let ?g = "analyzeSequences ds now f t actual False ev"
  let ?r = "analyzeSequences ds now (sr_from r) (sr_to r) (sr_actual r) False (sr_events r)"
  let ?as = "map snd (analyzeBySession ds now ranges False)"
  let ?first = "foldl min_gap (map_option fst (ga_global ?g)) ?as"
  consider "?first = None" | u where "?first = Some (u + 1)" "n \<le> u" "m \<le> u"
  proof (cases ?first)
    case (Some x)
    then show ?thesis using that(2) [of "x - 1"] assms(6) by (simp add: findReplayableWindow_def Let_def)
  qed (use that(1) in blast)
  then show ?thesis
  proof cases
    case 1
    then have none: "ga_global ?g = None" "\<forall>a \<in> set ?as. ga_gaps a = []" unfolding min_gaps_None by simp_all
    have "ga_gaps ?g = []" using none(1) by (simp add: analyze_global Let_def split: if_splits)
    moreover have "ga_gaps ?r = []"
    proof (rule ccontr)
      assume "ga_gaps ?r \<noteq> []"
      then obtain h where "h \<in> set (ga_gaps ?r)" using hd_in_set by blast
      from session_gaps [OF assms(5) this] obtain a h' where
        "a \<in> set ?as" "h' \<in> set (ga_gaps a)" by blast
      with none(2) show False by (metis empty_iff list.set(1))
    qed
    ultimately show ?thesis
      using below_gaps_received [of ds now f t actual ev m m] assms(1-4)
        below_gaps_received [of ds now "sr_from r" "sr_to r" "sr_actual r" "sr_events r" n n] by simp
  next
    case (2 u)
    note least = min_gaps_Some [OF 2(1)]
    have "u < ug_from h" if h: "h \<in> set (ga_gaps ?g)" for h
    proof -
      have "ga_gaps ?g \<noteq> []" using h by (metis empty_iff list.set(1))
      then obtain a b where ab: "ga_global ?g = Some (a, b)" unfolding analyze_global Let_def by simp
      then have "u + 1 \<le> a" using least by simp
      with first_gap_least [OF ab h] show ?thesis by simp
    qed
    moreover have "u < ug_from h" if h: "h \<in> set (ga_gaps ?r)" for h
    proof -
      from session_gaps [OF assms(5) h] obtain a h' where
        "a \<in> set ?as" "h' \<in> set (ga_gaps a)" "span_of h' = span_of h" by blast
      moreover from this have "u + 1 \<le> ug_from h'" using least by blast
      ultimately show ?thesis by simp
    qed
    ultimately show ?thesis
      using below_gaps_received [of ds now f t actual ev u m] assms(1-4) 2
        below_gaps_received [of ds now "sr_from r" "sr_to r" "sr_actual r" "sr_events r" u n] by simp
  qed
qed

theorem replayable_window_sound_witness:
  "let r = \<lparr>sr_from = 1, sr_to = 5, sr_actual = [1, 2, 4, 5], sr_events = None\<rparr>;
       w = findReplayableWindow (analyzeBySession {} 0 [(''s'', r)] False) (analyzeSequences {} 0 1 4 [1, 2, 3, 4] False None)
   in rw_replayableUpTo w = Some 2 \<and> (2::int) \<in> set (sr_actual r)"
proof -
  let ?r = "\<lparr>sr_from = 1, sr_to = 5, sr_actual = [1, 2, 4, 5], sr_events = None\<rparr>"
  let ?w = "findReplayableWindow (analyzeBySession {} 0 [(''s'', ?r)] False) (analyzeSequences {} 0 1 4 [1, 2, 3, 4] False None)"
  have w: "rw_replayableUpTo ?w = Some 2" by code_simp
  have "(2::int) \<le> sr_to ?r" "sr_from ?r \<le> 2" "(2::int) \<le> 4" "(1::int) \<le> 2" "(''s'', ?r) \<in> set [(''s'', ?r)]" by simp_all
  from replayable_window_sound [OF this, where ds = "{}" and now = 0 and actual = "[1, 2, 3, 4]" and ev = None] w
  show ?thesis unfolding Let_def by auto
qed

lemma consistent_from: "consistent (\<lambda>a b. ug_from a - ug_from b)"
  by (simp add: consistent_def)

text \<open>
  Merging keeps every gap, once, in the order of their first sequence; gaps that start together
  keep the order in which they were given, the global ones first.
\<close>

theorem mergeGaps_sorted:
  "mset (mergeGaps gs per) = mset gs + (\<Sum>(sid, hs) \<leftarrow> per. mset hs) \<and>
   sorted_wrt (\<lambda>a b. ug_from a \<le> ug_from b) (mergeGaps gs per)"
proof
  have "mset (concat (map snd per)) = (\<Sum>(sid, hs) \<leftarrow> per. mset hs)"
    by (induction per) auto
  then show "mset (mergeGaps gs per) = mset gs + (\<Sum>(sid, hs) \<leftarrow> per. mset hs)"
    by (simp add: mergeGaps_def)
  show "sorted_wrt (\<lambda>a b. ug_from a \<le> ug_from b) (mergeGaps gs per)"
    unfolding mergeGaps_def using sorted_js_sort [OF consistent_from]
    by (rule sorted_wrt_mono_rel [rotated]) simp
qed

end
