(* ===== verification/Reconcile.thy ===== *)
theory Reconcile
  imports Gaps "HOL-Library.Char_ord" "HOL-Library.List_Lexorder"
begin

text \<open>
  The reconciliation engine (\<open>gateway/reconciliation/src/reconciliation-engine.ts\<close>): after a
  reconnect it records the gaps the control plane reports, replays events with retries and applies
  session updates.  The three interfaces it is given (state provider, update applier, event store)
  are the functions of a \<open>ports\<close> record over a state \<open>'w\<close> of their own; a call may throw.  The events
  emitted to listeners are kept as a list.  \<open>localeCompare\<close> and the clock are arguments.
\<close>

section \<open>Data\<close>

datatype reconciliation_step =
    St_Idle | St_Collecting_State | St_Sending_Request | St_Awaiting_Response | St_Replaying_Events
  | St_Applying_Updates | St_Finalizing | St_Complete | St_Error

datatype ordering_key = By_Sequence | By_OccurredAt | By_Session

record replay_options =
  ro_maxBatchSize :: nat
  ro_orderingKey :: ordering_key
  ro_applyInOrder :: bool
  ro_haltOnError :: bool
  ro_onlyDurable :: bool

definition DEFAULT_REPLAY_OPTIONS :: replay_options where
  "DEFAULT_REPLAY_OPTIONS = \<lparr>ro_maxBatchSize = 100, ro_orderingKey = By_Session,
     ro_applyInOrder = True, ro_haltOnError = False, ro_onlyDurable = True\<rparr>"

definition DEFAULT_MAX_RETRY :: nat where
  "DEFAULT_MAX_RETRY = 2"

record replay_item =
  ri_sequence :: int
  ri_event :: "event_envelope option"

record gap_info =
  gi_from :: int
  gi_to :: int
  gi_reason :: string

record session_update =
  su_sessionId :: string
  su_newState :: "string option"
  su_decisions :: "js_value list"
  su_gaps :: "gap_info list"

record reconciliation_response =
  rr_deviceId :: string
  rr_replayEvents :: "replay_item list"
  rr_sessionUpdates :: "session_update list"
  rr_globalGapInfo :: "gap_info option"
  rr_reconciledAt :: int
  rr_newAckBaseline :: "int option"

record session_reconciliation =
  sc_sessionId :: string
  sc_lastAcked :: int
  sc_lastEventAt :: "int option"
  sc_state :: string
  sc_lastEventType :: "string option"

record signature_base =
  sb_deviceId :: string
  sb_gatewayId :: string
  sb_lastAcked :: int
  sb_sessionStatesCount :: nat
  sb_certificateThumbprint :: string
  sb_signedAt :: int

record reconciliation_request =
  rq_deviceId :: string
  rq_gatewayId :: string
  rq_lastAcked :: int
  rq_sessionStates :: "session_reconciliation list"
  rq_certificateThumbprint :: string
  rq_signedAt :: int
  rq_signature :: string

record reconciliation_result =
  rs_success :: bool
  rs_sessionStatesCollected :: nat
  rs_eventsReplayed :: nat
  rs_sessionUpdatesApplied :: nat
  rs_unrecoverableGaps :: "unrecoverable_gap list"
  rs_newAckBaseline :: int
  rs_startedAt :: int
  rs_completedAt :: int
  rs_error :: "string option"
  rs_warnings :: "string list"

datatype port_result = Done bool | Threw string

record 'w ports =
  po_replayEvent :: "string \<Rightarrow> event_envelope \<Rightarrow> 'w \<Rightarrow> port_result \<times> 'w"
  po_recordGap :: "unrecoverable_gap \<Rightarrow> 'w \<Rightarrow> 'w"
  po_updateSessionState :: "string \<Rightarrow> string \<Rightarrow> 'w \<Rightarrow> port_result \<times> 'w"
  po_applyApproval :: "string \<Rightarrow> js_value \<Rightarrow> 'w \<Rightarrow> port_result \<times> 'w"
  po_sessions :: "'w \<Rightarrow> session_reconciliation list"
  po_lastAcked :: "'w \<Rightarrow> int"

datatype engine_event =
    Step_Changed reconciliation_step reconciliation_step
  | Gap_Recorded unrecoverable_gap
  | Warnings_Raised string
  | Event_Replayed int string string string
  | Update_Applied string bool nat nat
  | Run_Completed reconciliation_result
  | Run_Failed reconciliation_result

record 'w engine =
  eg_step :: reconciliation_step
  eg_runCount :: nat
  eg_lastResult :: "reconciliation_result option"
  eg_inFlight :: bool
  eg_gapHistory :: "unrecoverable_gap list"
  eg_emitted :: "engine_event list"
  eg_world :: 'w

definition new_engine :: "'w \<Rightarrow> 'w engine" where
  "new_engine w = \<lparr>eg_step = St_Idle, eg_runCount = 0, eg_lastResult = None, eg_inFlight = False,
     eg_gapHistory = [], eg_emitted = [], eg_world = w\<rparr>"

definition emit :: "engine_event \<Rightarrow> 'w engine \<Rightarrow> 'w engine" where
  "emit e s = s\<lparr>eg_emitted := eg_emitted s @ [e]\<rparr>"

definition setStep :: "reconciliation_step \<Rightarrow> 'w engine \<Rightarrow> 'w engine" where
  "setStep st s = (if eg_step s = st then s else emit (Step_Changed (eg_step s) st) (s\<lparr>eg_step := st\<rparr>))"

section \<open>The request\<close>

definition collectSessionStates :: "'w ports \<Rightarrow> 'w engine \<Rightarrow> session_reconciliation list" where
  "collectSessionStates P s = po_sessions P (eg_world s)"

definition buildReconciliationRequest ::
  "'w ports \<Rightarrow> int \<Rightarrow> string \<Rightarrow> string \<Rightarrow> string \<Rightarrow> (signature_base \<Rightarrow> string) option \<Rightarrow> 'w engine
     \<Rightarrow> (reconciliation_request \<times> signature_base) \<times> 'w engine" where
  "buildReconciliationRequest P now did gid thumb signFn s =
     (let s = setStep St_Collecting_State s;
          states = collectSessionStates P s;
          acked = po_lastAcked P (eg_world s);
          base = \<lparr>sb_deviceId = did, sb_gatewayId = gid, sb_lastAcked = acked,
            sb_sessionStatesCount = length states, sb_certificateThumbprint = thumb, sb_signedAt = now\<rparr>;
          signature = (case signFn of None \<Rightarrow> [] | Some f \<Rightarrow> f base);
          request = \<lparr>rq_deviceId = did, rq_gatewayId = gid, rq_lastAcked = acked,
            rq_sessionStates = states, rq_certificateThumbprint = thumb, rq_signedAt = now,
            rq_signature = signature\<rparr>
      in ((request, base), setStep St_Sending_Request s))"

section \<open>Replaying events\<close>

definition item_session :: "replay_item \<Rightarrow> string" where
  "item_session i = (case ri_event i of None \<Rightarrow> [] | Some e \<Rightarrow> ev_sessionId e)"

definition item_time :: "replay_item \<Rightarrow> int" where
  "item_time i = (case ri_event i of None \<Rightarrow> 0 | Some e \<Rightarrow> ev_occurredAt e)"

fun replay_order :: "(string \<Rightarrow> string \<Rightarrow> int) \<Rightarrow> ordering_key \<Rightarrow> replay_item \<Rightarrow> replay_item \<Rightarrow> int" where
  "replay_order lc By_Sequence a b = ri_sequence a - ri_sequence b"
| "replay_order lc By_OccurredAt a b = item_time a - item_time b"
| "replay_order lc By_Session a b =
     (if item_session a \<noteq> item_session b then lc (item_session a) (item_session b)
      else ri_sequence a - ri_sequence b)"

definition failed_gap :: "int \<Rightarrow> replay_item \<Rightarrow> event_envelope \<Rightarrow> nat \<Rightarrow> string \<Rightarrow> unrecoverable_gap" where
  "failed_gap now item e attempts msg =
     \<lparr>ug_sessionId = Some (ev_sessionId e), ug_from = ri_sequence item, ug_to = ri_sequence item,
      ug_reason = ''Replay failed after '' @ show_nat attempts @ '' attempts: '' @ msg,
      ug_reportedAt = now, ug_eventTypes = Some [ev_eventType e]\<rparr>"

text \<open>
  The retry loop of one event.  The first component of the answer is an error that leaves
  \<open>replayEvents\<close>; \<open>n\<close> counts the events applied so far.
\<close>

function try_replay ::
  "'w ports \<Rightarrow> nat \<Rightarrow> bool \<Rightarrow> int \<Rightarrow> replay_item \<Rightarrow> event_envelope \<Rightarrow> nat \<Rightarrow> nat \<Rightarrow> 'w engine
     \<Rightarrow> string option \<times> nat \<times> 'w engine" where
  "try_replay P max_retry halt now item e attempt n s =
     (if attempt > max_retry then (None, n, s)
      else case po_replayEvent P (ev_sessionId e) e (eg_world s) of
        (Done applied, w) \<Rightarrow>
          (let s = s\<lparr>eg_world := w\<rparr> in
           if applied then (None, Suc n, emit (Event_Replayed (ri_sequence item) (ev_eventId e)
               (ev_eventType e) (ev_sessionId e)) s)
           else (None, n, s))
      | (Threw msg, w) \<Rightarrow>
          (let s = s\<lparr>eg_world := w\<rparr> in
           if Suc attempt > max_retry then
             (if halt then Some msg else None, n,
              s\<lparr>eg_world := po_recordGap P (failed_gap now item e (Suc attempt) msg) (eg_world s)\<rparr>)
           else try_replay P max_retry halt now item e (Suc attempt) n s))"
  by pat_completeness auto
termination by (relation "measure (\<lambda>(_, max_retry, _, _, _, _, attempt, _). Suc max_retry - attempt)") auto

declare try_replay.simps [simp del]

definition skipped :: "replay_options \<Rightarrow> event_envelope \<Rightarrow> bool" where
  "skipped opt e \<longleftrightarrow> ro_onlyDurable opt \<and> \<not> isDurable (durable_event_types DURABLE_EVENT_TYPES) (ev_eventType e)"

fun replay_items ::
  "'w ports \<Rightarrow> nat \<Rightarrow> replay_options \<Rightarrow> int \<Rightarrow> replay_item list \<Rightarrow> nat \<Rightarrow> 'w engine
     \<Rightarrow> string option \<times> nat \<times> 'w engine" where
  "replay_items P max_retry opt now [] n s = (None, n, s)"
| "replay_items P max_retry opt now (item # items) n s =
     (case ri_event item of
        None \<Rightarrow>
          if ro_haltOnError opt then
            (Some (''Replay item at sequence '' @ show_int (ri_sequence item) @
               '' is not a valid EventEnvelope''), n, s)
          else replay_items P max_retry opt now items n s
      | Some e \<Rightarrow>
          if skipped opt e then replay_items P max_retry opt now items n s
          else (case try_replay P max_retry (ro_haltOnError opt) now item e 0 n s of
              (Some err, n, s) \<Rightarrow> (Some err, n, s)
            | (None, n, s) \<Rightarrow> replay_items P max_retry opt now items n s))"

text \<open>The batch loop \<open>i += maxBatchSize\<close>: \<open>None\<close> when it never ends.\<close>

partial_function (option) replay_batches ::
  "'w ports \<Rightarrow> nat \<Rightarrow> replay_options \<Rightarrow> int \<Rightarrow> replay_item list \<Rightarrow> nat \<Rightarrow> nat \<Rightarrow> 'w engine
     \<Rightarrow> (string option \<times> nat \<times> 'w engine) option" where
  "replay_batches P max_retry opt now items i n s =
     (if i < length items then
        (case replay_items P max_retry opt now (take (ro_maxBatchSize opt) (drop i items)) n s of
           (err, n, s) \<Rightarrow>
             (if err = None
              then replay_batches P max_retry opt now items (i + ro_maxBatchSize opt) n s
              else Some (err, n, s)))
      else Some (None, n, s))"

definition replayEvents ::
  "'w ports \<Rightarrow> (string \<Rightarrow> string \<Rightarrow> int) \<Rightarrow> nat \<Rightarrow> replay_options \<Rightarrow> int \<Rightarrow> reconciliation_response
     \<Rightarrow> 'w engine \<Rightarrow> (string option \<times> nat \<times> 'w engine) option" where
  "replayEvents P lc max_retry opt now resp s =
     (if rr_replayEvents resp = [] then Some (None, 0, s)
      else replay_batches P max_retry opt now
             (js_sort (replay_order lc (ro_orderingKey opt)) (rr_replayEvents resp)) 0 0 s)"

section \<open>Session updates\<close>

definition counted :: "port_result \<times> 'w \<Rightarrow> nat \<times> 'w engine \<Rightarrow> nat \<times> 'w engine" where
  "counted r ns = (if fst r = Done True then Suc (fst ns) else fst ns, (snd ns)\<lparr>eg_world := snd r\<rparr>)"

definition apply_session_update :: "'w ports \<Rightarrow> nat \<times> 'w engine \<Rightarrow> session_update \<Rightarrow> nat \<times> 'w engine" where
  "apply_session_update P ns u =
     (let named = su_newState u \<noteq> None \<and> su_newState u \<noteq> Some [];
          ns = (if named then counted (po_updateSessionState P (su_sessionId u) (the (su_newState u))
                  (eg_world (snd ns))) ns else ns);
          ns = foldl (\<lambda>ns d. counted (po_applyApproval P (su_sessionId u) d (eg_world (snd ns))) ns)
                 ns (su_decisions u)
      in (fst ns, emit (Update_Applied (su_sessionId u) named (length (su_decisions u)) (length (su_gaps u)))
                    (snd ns)))"

definition applySessionUpdates :: "'w ports \<Rightarrow> reconciliation_response \<Rightarrow> 'w engine \<Rightarrow> nat \<times> 'w engine" where
  "applySessionUpdates P resp s = foldl (apply_session_update P) (0, s) (rr_sessionUpdates resp)"

section \<open>A run\<close>

definition response_gaps :: "int \<Rightarrow> reconciliation_response \<Rightarrow> unrecoverable_gap list" where
  "response_gaps now resp =
     concat (map (\<lambda>u. map (\<lambda>g. \<lparr>ug_sessionId = Some (su_sessionId u), ug_from = gi_from g, ug_to = gi_to g,
         ug_reason = gi_reason g, ug_reportedAt = now, ug_eventTypes = None\<rparr>) (su_gaps u))
       (rr_sessionUpdates resp)) @
     (case rr_globalGapInfo resp of None \<Rightarrow> []
      | Some g \<Rightarrow> [\<lparr>ug_sessionId = None, ug_from = gi_from g, ug_to = gi_to g, ug_reason = gi_reason g,
          ug_reportedAt = now, ug_eventTypes = None\<rparr>])"

definition record_gap :: "'w ports \<Rightarrow> 'w engine \<Rightarrow> unrecoverable_gap \<Rightarrow> 'w engine" where
  "record_gap P s g =
     emit (Gap_Recorded g) (s\<lparr>eg_world := po_recordGap P g (eg_world s), eg_gapHistory := eg_gapHistory s @ [g]\<rparr>)"

definition processReconciliationResponse ::
  "'w ports \<Rightarrow> (string \<Rightarrow> string \<Rightarrow> int) \<Rightarrow> nat \<Rightarrow> replay_options \<Rightarrow> int \<Rightarrow> reconciliation_response
     \<Rightarrow> 'w engine \<Rightarrow> (reconciliation_result \<times> 'w engine) option" where
  "processReconciliationResponse P lc max_retry opt now resp s =
     (let s = s\<lparr>eg_inFlight := True, eg_runCount := Suc (eg_runCount s)\<rparr>;
          gaps = response_gaps now resp;
          s = foldl (record_gap P) s gaps;
          s = setStep St_Replaying_Events s
      in case replayEvents P lc max_retry opt now resp s of
           None \<Rightarrow> None
         | Some (err, n, s) \<Rightarrow>
             (let replayed = (if err = None then n else 0);
                  warnings = (case err of None \<Rightarrow> [] | Some m \<Rightarrow> [''Event replay had errors: '' @ m]);
                  s = (case err of None \<Rightarrow> s | Some m \<Rightarrow> emit (Warnings_Raised m) s);
                  s = setStep St_Applying_Updates s;
                  (updates, s) = applySessionUpdates P resp s;
                  s = setStep St_Finalizing s;
                  failed = warnings \<noteq> [] \<and> ro_haltOnError opt;
                  result = \<lparr>rs_success = (warnings = [] \<or> \<not> ro_haltOnError opt),
                    rs_sessionStatesCollected = length (rr_sessionUpdates resp),
                    rs_eventsReplayed = replayed, rs_sessionUpdatesApplied = updates,
                    rs_unrecoverableGaps = gaps,
                    rs_newAckBaseline = (case rr_newAckBaseline resp of None \<Rightarrow> po_lastAcked P (eg_world s) | Some b \<Rightarrow> b),
                    rs_startedAt = now, rs_completedAt = now,
                    rs_error = (if failed then Some (js_join ''; '' warnings) else None),
                    rs_warnings = warnings\<rparr>;
                  s = s\<lparr>eg_lastResult := Some result, eg_inFlight := False\<rparr>;
                  s = setStep St_Complete s;
                  s = emit (if rs_success result then Run_Completed result else Run_Failed result) s
              in Some (result, setStep St_Idle s)))"

section \<open>Batches\<close>

lemma replay_items_append:
  "replay_items P k opt now (xs @ ys) n s =
     (case replay_items P k opt now xs n s of
        (err, n, s) \<Rightarrow> if err = None then replay_items P k opt now ys n s else (err, n, s))"
  by (induction xs arbitrary: n s) (simp_all split: option.split prod.split)

lemma replay_batches_all:
  assumes "0 < ro_maxBatchSize opt"
  shows "replay_batches P k opt now items i n s = Some (replay_items P k opt now (drop i items) n s)"
proof (induction "length items - i" arbitrary: i n s rule: less_induct)
  case less
  let ?b = "ro_maxBatchSize opt"
  show ?case
  proof (cases "i < length items")
    case True
    obtain err m t where r: "replay_items P k opt now (take ?b (drop i items)) n s = (err, m, t)"
      using prod_cases3 by blast
    have "drop i items = take ?b (drop i items) @ drop (i + ?b) items"
      by (metis add.commute append_take_drop_id drop_drop)
    then have split: "replay_items P k opt now (drop i items) n s =
        (if err = None then replay_items P k opt now (drop (i + ?b) items) m t else (err, m, t))"
      using replay_items_append [of P k opt now "take ?b (drop i items)" "drop (i + ?b) items" n s] r by simp
    have "length items - (i + ?b) < length items - i" using True assms by simp
    from less [OF this, of m t] True r split show ?thesis
      by (subst replay_batches.simps) simp
  next
    case False
    then show ?thesis by (subst replay_batches.simps) simp
  qed
qed

lemma replay_batches_stuck:
  assumes "replay_batches P k opt now items i n s = Some r" "ro_maxBatchSize opt = 0"
  shows "length items \<le> i"
proof -
  let ?Q = "\<lambda>(((((((P, k), opt), now), items), i), n), s) y. ro_maxBatchSize opt = 0 \<longrightarrow> length items \<le> i"
  have "?Q (((((((P, k), opt), now), items), i), n), s) r"
  proof (rule replay_batches.raw_induct [where Pa = ?Q, OF _ assms(1)], unfold prod.case, intro impI)
    fix rb P k opt now items i n s y
    assume ih: "\<And>P k opt now items i n s y. rb P k opt now items i n s = Some y \<Longrightarrow>
        ro_maxBatchSize opt = 0 \<longrightarrow> length items \<le> i"
      and body: "(if i < length items then
          case replay_items P k opt now (take (ro_maxBatchSize opt) (drop i items)) n s of
            (err, n, s) \<Rightarrow> if err = None then rb P k opt now items (i + ro_maxBatchSize opt) n s
              else Some (err, n, s)
        else Some (None, n, s)) = Some y"
      and zero: "ro_maxBatchSize opt = 0"
    show "length items \<le> i"
    proof (cases "i < length items")
      case True
      then have "rb P k opt now items i n s = Some y" using body zero by simp
      from ih [OF this] zero show ?thesis by simp
    qed simp
  qed
  with assms(2) show ?thesis by simp
qed

text \<open>The report in one piece: sorting, then every item in turn.\<close>

definition replay_all ::
  "'w ports \<Rightarrow> (string \<Rightarrow> string \<Rightarrow> int) \<Rightarrow> nat \<Rightarrow> replay_options \<Rightarrow> int \<Rightarrow> reconciliation_response
     \<Rightarrow> 'w engine \<Rightarrow> string option \<times> nat \<times> 'w engine" where
  "replay_all P lc k opt now resp s =
     replay_items P k opt now (js_sort (replay_order lc (ro_orderingKey opt)) (rr_replayEvents resp)) 0 s"

lemma replayEvents_eq:
  "replayEvents P lc k opt now resp s =
     (if rr_replayEvents resp = [] \<or> 0 < ro_maxBatchSize opt then Some (replay_all P lc k opt now resp s)
      else None)"
proof (cases "rr_replayEvents resp = []")
  case True
  then show ?thesis by (simp add: replayEvents_def replay_all_def js_sort_def)
next
  case False
  let ?items = "js_sort (replay_order lc (ro_orderingKey opt)) (rr_replayEvents resp)"
  have len: "length ?items \<noteq> 0" using False by simp
  show ?thesis
  proof (cases "0 < ro_maxBatchSize opt")
    case True
    then show ?thesis using False
      by (simp add: replayEvents_def replay_all_def replay_batches_all)
  next
    case zero: False
    have "replay_batches P k opt now ?items 0 0 s = None"
      using replay_batches_stuck [of P k opt now ?items 0 0 s] zero len
      by (cases "replay_batches P k opt now ?items 0 0 s") auto
    with False zero show ?thesis by (simp add: replayEvents_def)
  qed
qed

text \<open>
  C17: Replay ends exactly when there is nothing to replay or the batch size is positive, and then
  batching changes nothing: the answer is that of going through the sorted events one by one.
\<close>

theorem replay_terminates_iff:
  "replayEvents P lc k opt now resp s =
     (if rr_replayEvents resp = [] \<or> 0 < ro_maxBatchSize opt then Some (replay_all P lc k opt now resp s)
      else None)"
  by (rule replayEvents_eq)

section \<open>What the event store is offered\<close>

text \<open>A spy on any event store: it records each offer with its outcome.\<close>

type_synonym offer = "event_envelope \<times> port_result"

definition spy :: "'w ports \<Rightarrow> ('w \<times> offer list) ports" where
  "spy P = \<lparr>po_replayEvent = (\<lambda>sid e wl. case po_replayEvent P sid e (fst wl) of (r, w) \<Rightarrow> (r, (w, snd wl @ [(e, r)]))),
     po_recordGap = (\<lambda>g wl. (po_recordGap P g (fst wl), snd wl)),
     po_updateSessionState = (\<lambda>sid st wl. case po_updateSessionState P sid st (fst wl) of (r, w) \<Rightarrow> (r, (w, snd wl))),
     po_applyApproval = (\<lambda>sid d wl. case po_applyApproval P sid d (fst wl) of (r, w) \<Rightarrow> (r, (w, snd wl))),
     po_sessions = (\<lambda>wl. po_sessions P (fst wl)), po_lastAcked = (\<lambda>wl. po_lastAcked P (fst wl))\<rparr>"

abbreviation offers :: "('w \<times> offer list) engine \<Rightarrow> offer list" where
  "offers s \<equiv> snd (eg_world s)"

definition applied :: "offer list \<Rightarrow> nat" where
  "applied b = length (filter (\<lambda>x. snd x = Done True) b)"

lemma applied_simps [simp]: "applied [] = 0" "applied (a @ b) = applied a + applied b"
    "applied (x # b) = (if snd x = Done True then Suc (applied b) else applied b)"
  by (simp_all add: applied_def)

text \<open>The offers of one event: all but the last threw, and the last did not or was the last allowed.\<close>

definition tries :: "nat \<Rightarrow> event_envelope \<Rightarrow> offer list \<Rightarrow> bool" where
  "tries k e b \<longleftrightarrow> b \<noteq> [] \<and> length b \<le> Suc k \<and> (\<forall>x \<in> set b. fst x = e) \<and>
     (\<forall>x \<in> set (butlast b). \<exists>m. snd x = Threw m) \<and> (length b = Suc k \<or> (\<exists>a. snd (last b) = Done a))"

lemma tries_done: "tries k e [(e, Done a)]"
  by (simp add: tries_def)

lemma tries_out: "tries 0 e [(e, r)]"
  by (simp add: tries_def)

lemma tries_again: "tries k e b \<Longrightarrow> tries (Suc k) e ((e, Threw m) # b)"
  by (auto simp: tries_def)

lemma offers_emit [simp]: "offers (emit x s) = offers s"
  by (simp add: emit_def)

lemma spy_simps [simp]:
  "po_replayEvent P sid e (fst wl) = (r, w) \<Longrightarrow> po_replayEvent (spy P) sid e wl = (r, (w, snd wl @ [(e, r)]))"
  "po_recordGap (spy P) g wl = (po_recordGap P g (fst wl), snd wl)"
  by (simp_all add: spy_def)

lemma try_replay_spy:
  assumes "attempt \<le> k" "try_replay (spy P) k halt now item e attempt n s = (err, n', s')"
  shows "\<exists>b. offers s' = offers s @ b \<and> tries (k - attempt) e b \<and> n' = n + applied b \<and>
    (err \<noteq> None \<longrightarrow> halt)"
  using assms
proof (induction "k - attempt" arbitrary: attempt n s)
  case 0
  then have a: "attempt = k" by simp
  obtain r w where r: "po_replayEvent P (ev_sessionId e) e (fst (eg_world s)) = (r, w)" by fastforce
  show ?case
  proof (intro exI [of _ "[(e, r)]"] conjI)
    show "tries (k - attempt) e [(e, r)]" using a tries_out by simp
    show "offers s' = offers s @ [(e, r)]" "n' = n + applied [(e, r)]" "err \<noteq> None \<longrightarrow> halt"
      using 0(3) r a unfolding try_replay.simps [of "spy P" k halt now item e attempt n s]
      by (auto simp: Let_def split: port_result.splits if_splits)
  qed
next
  case (Suc d)
  then have a: "attempt < k" by simp
  obtain r w where r: "po_replayEvent P (ev_sessionId e) e (fst (eg_world s)) = (r, w)" by fastforce
  show ?case
  proof (cases r)
    case (Done x)
    show ?thesis
    proof (intro exI [of _ "[(e, r)]"] conjI)
      show "tries (k - attempt) e [(e, r)]" unfolding Done by (rule tries_done)
      show "offers s' = offers s @ [(e, r)]" "n' = n + applied [(e, r)]" "err \<noteq> None \<longrightarrow> halt"
        using Suc.prems(2) r a Done unfolding try_replay.simps [of "spy P" k halt now item e attempt n s]
        by (auto simp: Let_def split: if_splits)
    qed
  next
    case (Threw m)
    let ?s = "s\<lparr>eg_world := (w, offers s @ [(e, r)])\<rparr>"
    have "try_replay (spy P) k halt now item e (Suc attempt) n ?s = (err, n', s')"
      using Suc.prems(2) r a Threw unfolding try_replay.simps [of "spy P" k halt now item e attempt n s]
      by (simp add: Let_def)
    moreover have "d = k - Suc attempt" "Suc attempt \<le> k" using Suc.hyps(2) a by simp_all
    ultimately obtain b where b: "offers s' = offers ?s @ b" "tries (k - Suc attempt) e b"
      "n' = n + applied b" "err \<noteq> None \<longrightarrow> halt" using Suc.hyps(1) by blast
    have "k - attempt = Suc (k - Suc attempt)" using a by simp
    then have "tries (k - attempt) e ((e, Threw m) # b)" using tries_again [OF b(2)] by simp
    with b Threw show ?thesis by (intro exI [of _ "(e, Threw m) # b"]) simp
  qed
qed

definition due :: "replay_options \<Rightarrow> replay_item list \<Rightarrow> event_envelope list" where
  "due opt items = filter (\<lambda>e. \<not> skipped opt e) (concat (map (\<lambda>i. case ri_event i of None \<Rightarrow> [] | Some e \<Rightarrow> [e]) items))"

lemma due_simps [simp]: "due opt [] = []"
    "due opt (i # items) = (case ri_event i of None \<Rightarrow> due opt items
       | Some e \<Rightarrow> if skipped opt e then due opt items else e # due opt items)"
  by (simp_all add: due_def split: option.split)

lemma replay_items_spy:
  assumes "replay_items (spy P) k opt now items n s = (err, n', s')"
  shows "\<exists>bs. offers s' = offers s @ concat bs \<and> n' = n + applied (concat bs) \<and>
    length bs \<le> length (due opt items) \<and> list_all2 (tries k) (take (length bs) (due opt items)) bs \<and>
    (err = None \<longrightarrow> length bs = length (due opt items)) \<and> (err \<noteq> None \<longrightarrow> ro_haltOnError opt)"
  using assms
proof (induction items arbitrary: n s)
  case Nil
  then show ?case by (intro exI [of _ "[]"]) simp
next
  case (Cons item items)
  show ?case
  proof (cases "ri_event item")
    case None
    show ?thesis
    proof (cases "ro_haltOnError opt")
      case True
      then show ?thesis using Cons.prems None by (intro exI [of _ "[]"]) auto
    next
      case False
      then have "replay_items (spy P) k opt now items n s = (err, n', s')" using Cons.prems None by simp
      from Cons.IH [OF this] None show ?thesis by simp
    qed
  next
    case (Some e)
    show ?thesis
    proof (cases "skipped opt e")
      case True
      then have "replay_items (spy P) k opt now items n s = (err, n', s')" using Cons.prems Some by simp
      from Cons.IH [OF this] Some True show ?thesis by simp
    next
      case False
      obtain er m t where t: "try_replay (spy P) k (ro_haltOnError opt) now item e 0 n s = (er, m, t)"
        using prod_cases3 by blast
      from try_replay_spy [OF _ t] obtain b where
        b: "offers t = offers s @ b" "tries k e b" "m = n + applied b" "er \<noteq> None \<longrightarrow> ro_haltOnError opt" by auto
      show ?thesis
      proof (cases er)
        case (Some msg)
        then have "err = Some msg" "n' = m" "s' = t"
          using Cons.prems \<open>ri_event item = Some e\<close> False t by simp_all
        with b False \<open>ri_event item = Some e\<close> Some show ?thesis
          by (intro exI [of _ "[b]"]) simp
      next
        case None
        then have "replay_items (spy P) k opt now items m t = (err, n', s')"
          using Cons.prems \<open>ri_event item = Some e\<close> False t by simp
        from Cons.IH [OF this] obtain bs where bs: "offers s' = offers t @ concat bs"
          "n' = m + applied (concat bs)" "length bs \<le> length (due opt items)"
          "list_all2 (tries k) (take (length bs) (due opt items)) bs"
          "err = None \<longrightarrow> length bs = length (due opt items)" "err \<noteq> None \<longrightarrow> ro_haltOnError opt" by blast
        with b False \<open>ri_event item = Some e\<close> show ?thesis
          by (intro exI [of _ "b # bs"]) simp
      qed
    qed
  qed
qed

text \<open>
  Against any event store, replay offers the durable events in order, each at least once and at
  most once more than the number of retries, again only after a throw; the count is the number of
  offers that were applied; unless it halts on an error, no due event is left out.
\<close>

theorem replay_offers_due_events:
  assumes "replay_all (spy P) lc k opt now resp s = (err, n, t)"
  shows "let es = due opt (js_sort (replay_order lc (ro_orderingKey opt)) (rr_replayEvents resp)) in
    \<exists>bs. offers t = offers s @ concat bs \<and> n = applied (concat bs) \<and>
      list_all2 (tries k) (take (length bs) es) bs \<and>
      (length bs < length es \<longrightarrow> ro_haltOnError opt \<and> err \<noteq> None)"
  using replay_items_spy [OF assms [unfolded replay_all_def]] unfolding Let_def by force

definition flaky :: "nat ports" where
  "flaky = \<lparr>po_replayEvent = (\<lambda>sid e w. (if w mod 4 < 3 then Threw ''busy'' else Done True, Suc w)),
     po_recordGap = (\<lambda>g w. w), po_updateSessionState = (\<lambda>sid st w. (Done True, w)),
     po_applyApproval = (\<lambda>sid d w. (Threw ''no'', w)), po_sessions = (\<lambda>w. []), po_lastAcked = int\<rparr>"

definition sample_event :: "string \<Rightarrow> int \<Rightarrow> event_envelope" where
  "sample_event ty n = \<lparr>ev_eventId = ''e'', ev_eventType = ty, ev_eventVersion = 1, ev_sessionId = ''s'',
     ev_deviceId = None, ev_sequence = n, ev_occurredAt = n, ev_correlationId = None,
     ev_parentEventId = None, ev_payload = JS_Null\<rparr>"

definition sample_response :: reconciliation_response where
  "sample_response = \<lparr>rr_deviceId = ''d'',
     rr_replayEvents = [\<lparr>ri_sequence = 9, ri_event = Some (sample_event ''session.completed'' 9)\<rparr>,
       \<lparr>ri_sequence = 8, ri_event = Some (sample_event ''session.output'' 8)\<rparr>,
       \<lparr>ri_sequence = 4, ri_event = Some (sample_event ''session.started'' 4)\<rparr>],
     rr_sessionUpdates = [\<lparr>su_sessionId = ''s'', su_newState = Some ''running'', su_decisions = [JS_Null],
       su_gaps = [\<lparr>gi_from = 5, gi_to = 7, gi_reason = ''lost''\<rparr>]\<rparr>],
     rr_globalGapInfo = None, rr_reconciledAt = 0, rr_newAckBaseline = Some 9\<rparr>"

theorem replay_offers_due_events_witness:
  "let r = replay_all (spy flaky) (\<lambda>_ _. 0) 2 DEFAULT_REPLAY_OPTIONS 0 sample_response (new_engine (0, []))
   in map (ev_sequence \<circ> fst) (offers (snd (snd r))) = [4, 4, 4, 9] \<and> fst (snd r) = 1 \<and>
      (\<exists>bs. offers (snd (snd r)) = concat bs \<and> length bs \<le> 4)"
proof -
  let ?r = "replay_all (spy flaky) (\<lambda>_ _. 0) 2 DEFAULT_REPLAY_OPTIONS 0 sample_response (new_engine (0, []))"
  have "?r = (fst ?r, fst (snd ?r), snd (snd ?r))" by simp
  from replay_offers_due_events [OF this] obtain bs where
    bs: "offers (snd (snd ?r)) = concat bs" "list_all2 (tries 2) (take (length bs)
      (due DEFAULT_REPLAY_OPTIONS (js_sort (replay_order (\<lambda>_ _. 0) (ro_orderingKey DEFAULT_REPLAY_OPTIONS))
         (rr_replayEvents sample_response)))) bs"
    unfolding Let_def by (auto simp: new_engine_def)
  have "length bs \<le> length (due DEFAULT_REPLAY_OPTIONS (js_sort (replay_order (\<lambda>_ _. 0)
      (ro_orderingKey DEFAULT_REPLAY_OPTIONS)) (rr_replayEvents sample_response)))"
    using list_all2_lengthD [OF bs(2)] by simp
  also have "\<dots> \<le> 4" by code_simp
  finally have "length bs \<le> 4" .
  moreover have "map (ev_sequence \<circ> fst) (offers (snd (snd ?r))) = [4, 4, 4, 9]" "fst (snd ?r) = 1" by code_simp+
  ultimately show ?thesis using bs(1) unfolding Let_def by blast
qed

section \<open>Order\<close>

definition collation :: "(string \<Rightarrow> string \<Rightarrow> int) \<Rightarrow> bool" where
  "collation lc \<longleftrightarrow> (\<forall>a b. lc a b = 0 \<longleftrightarrow> a = b) \<and> (\<forall>a b. lc a b < 0 \<longrightarrow> lc b a > 0) \<and>
     (\<forall>a b. lc a b > 0 \<longrightarrow> lc b a < 0) \<and> (\<forall>a b c. lc a b \<ge> 0 \<longrightarrow> lc b c \<ge> 0 \<longrightarrow> lc a c \<ge> 0)"

lemma collation_cycle: "collation lc \<Longrightarrow> a \<noteq> b \<Longrightarrow> lc a b \<ge> 0 \<Longrightarrow> lc b a \<ge> 0 \<Longrightarrow> False"
  unfolding collation_def by (metis antisym_conv less_le not_le)

lemma replay_order_consistent:
  assumes "collation lc" shows "consistent (replay_order lc By_Session)"
  unfolding consistent_def
proof (intro conjI allI impI)
  fix x y assume "replay_order lc By_Session x y < 0"
  then show "replay_order lc By_Session y x \<ge> 0"
    using assms unfolding collation_def by (auto simp: less_imp_le split: if_splits)
next
  fix x y z
  assume xy: "replay_order lc By_Session x y \<ge> 0" and yz: "replay_order lc By_Session y z \<ge> 0"
  let ?a = "item_session x" and ?b = "item_session y" and ?c = "item_session z"
  have zero: "lc a a = 0" for a using assms unfolding collation_def by blast
  have "replay_order lc By_Session u v \<ge> 0 \<Longrightarrow> lc (item_session u) (item_session v) \<ge> 0" for u v
    using zero [of "item_session u"] by (simp split: if_splits)
  then have "lc ?a ?b \<ge> 0" "lc ?b ?c \<ge> 0" using xy yz by blast+
  show "replay_order lc By_Session x z \<ge> 0"
  proof (cases "?a = ?c")
    case True
    have "?a = ?b" using collation_cycle [OF assms, of ?a ?b] \<open>lc ?a ?b \<ge> 0\<close> \<open>lc ?b ?c \<ge> 0\<close> True by auto
    with True xy yz show ?thesis by simp
  next
    case False
    have "lc ?a ?c \<ge> 0" using assms \<open>lc ?a ?b \<ge> 0\<close> \<open>lc ?b ?c \<ge> 0\<close> unfolding collation_def by blast
    with False show ?thesis by simp
  qed
qed

text \<open>
  Under the default ordering, the events to replay are a permutation of those of the response
  in which the events of one session ascend by sequence number and stay together.
\<close>

theorem replay_in_session_order:
  assumes "collation lc"
  shows "let is = js_sort (replay_order lc By_Session) items in
    mset is = mset items \<and>
    sorted_wrt (\<lambda>a b. if item_session a = item_session b then ri_sequence a \<le> ri_sequence b
      else lc (item_session b) (item_session a) > 0) is"
proof -
  have "sorted_wrt (\<lambda>a b. replay_order lc By_Session b a \<ge> 0) (js_sort (replay_order lc By_Session) items)"
    by (rule sorted_js_sort [OF replay_order_consistent [OF assms]])
  moreover have "lc s t \<ge> 0 \<Longrightarrow> s \<noteq> t \<Longrightarrow> lc s t > 0" for s t
    using assms unfolding collation_def by (metis less_le)
  ultimately have "sorted_wrt (\<lambda>a b. if item_session a = item_session b then ri_sequence a \<le> ri_sequence b
      else lc (item_session b) (item_session a) > 0) (js_sort (replay_order lc By_Session) items)"
    by (elim sorted_wrt_mono_rel [rotated]) (auto split: if_splits)
  then show ?thesis unfolding Let_def by simp
qed

definition by_code_units :: "string \<Rightarrow> string \<Rightarrow> int" where
  "by_code_units a b = (if a = b then 0 else if a < b then -1 else 1)"

theorem replay_in_session_order_witness:
  "map ri_sequence (js_sort (replay_order by_code_units By_Session) (rr_replayEvents sample_response)) = [4, 8, 9] \<and>
   mset (js_sort (replay_order by_code_units By_Session) (rr_replayEvents sample_response)) =
     mset (rr_replayEvents sample_response)"
proof
  have "collation by_code_units" unfolding collation_def by_code_units_def by auto
  from replay_in_session_order [OF this, of "rr_replayEvents sample_response"]
  show "mset (js_sort (replay_order by_code_units By_Session) (rr_replayEvents sample_response)) =
     mset (rr_replayEvents sample_response)" unfolding Let_def by blast
  show "map ri_sequence (js_sort (replay_order by_code_units By_Session) (rr_replayEvents sample_response)) = [4, 8, 9]"
    by code_simp
qed

section \<open>The outcome of a run\<close>

primrec is_step :: "engine_event \<Rightarrow> bool" where
  "is_step (Step_Changed _ _) = True"
| "is_step (Gap_Recorded _) = False"
| "is_step (Warnings_Raised _) = False"
| "is_step (Event_Replayed _ _ _ _) = False"
| "is_step (Update_Applied _ _ _ _) = False"
| "is_step (Run_Completed _) = False"
| "is_step (Run_Failed _) = False"

abbreviation steps :: "'w engine \<Rightarrow> engine_event list" where
  "steps s \<equiv> filter is_step (eg_emitted s)"

text \<open>What replay and updates leave alone.\<close>

definition kept :: "'w engine \<Rightarrow> 'w engine \<Rightarrow> bool" where
  "kept s t \<longleftrightarrow> eg_step t = eg_step s \<and> eg_runCount t = eg_runCount s \<and> eg_lastResult t = eg_lastResult s \<and>
     eg_inFlight t = eg_inFlight s \<and> eg_gapHistory t = eg_gapHistory s \<and> steps t = steps s"

lemma kept_refl [simp]: "kept s s"
  by (simp add: kept_def)

lemma kept_trans: "kept s t \<Longrightarrow> kept t u \<Longrightarrow> kept s u"
  by (simp add: kept_def)

lemma kept_world: "kept s t \<Longrightarrow> kept s (t\<lparr>eg_world := w\<rparr>)"
  by (simp add: kept_def)

lemma kept_emit: "\<not> is_step e \<Longrightarrow> kept s t \<Longrightarrow> kept s (emit e t)"
  by (simp add: kept_def emit_def)

lemma try_replay_kept: "kept s (snd (snd (try_replay P k halt now item e attempt n s)))"
proof (induction "Suc k - attempt" arbitrary: attempt n s)
  case 0
  then show ?case by (subst try_replay.simps) simp
next
  case (Suc d)
  obtain r w where r: "po_replayEvent P (ev_sessionId e) e (eg_world s) = (r, w)" by fastforce
  show ?case
  proof (cases r)
    case (Done x)
    with r Suc.hyps(2) show ?thesis
      by (subst try_replay.simps) (simp add: Let_def kept_emit kept_world)
  next
    case (Threw m)
    have "d = Suc k - Suc attempt" using Suc.hyps(2) by simp
    from Suc.hyps(1) [OF this, of "s\<lparr>eg_world := w\<rparr>" n]
    have "kept s (snd (snd (try_replay P k halt now item e (Suc attempt) n (s\<lparr>eg_world := w\<rparr>))))"
      by (rule kept_trans [rotated]) (simp add: kept_world)
    with r Threw Suc.hyps(2) show ?thesis
      by (subst try_replay.simps) (simp add: Let_def kept_world)
  qed
qed

lemma replay_items_kept: "kept s (snd (snd (replay_items P k opt now items n s)))"
proof (induction items arbitrary: n s)
  case (Cons item items)
  show ?case
  proof (cases "ri_event item")
    case (Some e)
    obtain er m t where t: "try_replay P k (ro_haltOnError opt) now item e 0 n s = (er, m, t)"
      using prod_cases3 by blast
    have "kept s t" using try_replay_kept [of s P k "ro_haltOnError opt" now item e 0 n] t by simp
    with Cons.IH [of t m] Cons.IH [of s n] Some t show ?thesis
      by (auto split: option.split intro: kept_trans)
  qed (simp add: Cons.IH)
qed simp

lemma counted_kept: "kept s (snd ns) \<Longrightarrow> kept s (snd (counted r ns))"
  by (simp add: counted_def kept_world)

lemma decisions_kept:
  "kept s (snd ns) \<Longrightarrow> kept s (snd (foldl (\<lambda>ns d. counted (po_applyApproval P sid d (eg_world (snd ns))) ns) ns ds))"
  by (induction ds arbitrary: ns) (simp_all add: counted_kept)

lemma update_kept: "kept s (snd ns) \<Longrightarrow> kept s (snd (apply_session_update P ns u))"
  unfolding apply_session_update_def Let_def snd_conv
  by (intro kept_emit decisions_kept) (simp_all add: counted_kept)

lemma updates_kept: "kept s (snd (applySessionUpdates P resp s))"
proof -
  have "kept s (snd ns) \<Longrightarrow> kept s (snd (foldl (apply_session_update P) ns us))" for ns us
    by (induction us arbitrary: ns) (simp_all add: update_kept)
  then show ?thesis by (simp add: applySessionUpdates_def)
qed

lemma record_gaps:
  "let t = foldl (record_gap P) s gs in
     eg_gapHistory t = eg_gapHistory s @ gs \<and> eg_step t = eg_step s \<and> steps t = steps s \<and>
     eg_runCount t = eg_runCount s"
  by (induction gs arbitrary: s) (simp_all add: record_gap_def emit_def Let_def)

lemma setStep_simps [simp]:
  "eg_step (setStep st s) = st" "eg_runCount (setStep st s) = eg_runCount s"
  "eg_lastResult (setStep st s) = eg_lastResult s" "eg_inFlight (setStep st s) = eg_inFlight s"
  "eg_gapHistory (setStep st s) = eg_gapHistory s"
  "steps (setStep st s) = steps s @ (if eg_step s = st then [] else [Step_Changed (eg_step s) st])"
  by (simp_all add: setStep_def emit_def)

lemma replay_all_kept: "kept s (snd (snd (replay_all P lc k opt now resp s)))"
  unfolding replay_all_def by (rule replay_items_kept)

lemma emit_simps [simp]:
  "eg_step (emit e s) = eg_step s" "eg_runCount (emit e s) = eg_runCount s"
  "eg_lastResult (emit e s) = eg_lastResult s" "eg_inFlight (emit e s) = eg_inFlight s"
  "eg_gapHistory (emit e s) = eg_gapHistory s"
  "steps (emit e s) = (if is_step e then steps s @ [e] else steps s)"
  by (simp_all add: emit_def)

text \<open>
  A run that gets past replay always ends idle and not in flight, having gone through the steps
  replaying, applying, finalizing and complete in this order, with its result kept and every gap the
  control plane reported added to the history; it fails only when it may halt, and then
  it names an error and reports no event as replayed, also when some were.
\<close>

theorem run_outcome:
  assumes "rr_replayEvents resp = [] \<or> 0 < ro_maxBatchSize opt"
  shows "\<exists>res t. processReconciliationResponse P lc k opt now resp s = Some (res, t) \<and>
    eg_step t = St_Idle \<and> \<not> eg_inFlight t \<and> eg_runCount t = Suc (eg_runCount s) \<and>
    eg_lastResult t = Some res \<and>
    eg_gapHistory t = eg_gapHistory s @ response_gaps now resp \<and>
    steps t = steps s @ (if eg_step s = St_Replaying_Events then [] else [Step_Changed (eg_step s) St_Replaying_Events]) @
      [Step_Changed St_Replaying_Events St_Applying_Updates, Step_Changed St_Applying_Updates St_Finalizing,
       Step_Changed St_Finalizing St_Complete, Step_Changed St_Complete St_Idle] \<and>
    rs_unrecoverableGaps res = response_gaps now resp \<and>
    rs_success res = (rs_error res = None) \<and> (rs_success res \<or> ro_haltOnError opt) \<and>
    (rs_success res \<or> rs_eventsReplayed res = 0)"
proof -
  let ?s0 = "s\<lparr>eg_inFlight := True, eg_runCount := Suc (eg_runCount s)\<rparr>"
  let ?s1 = "setStep St_Replaying_Events (foldl (record_gap P) ?s0 (response_gaps now resp))"
  obtain err n s2 where r: "replay_all P lc k opt now resp ?s1 = (err, n, s2)" using prod_cases3 by blast
  then have ret: "replayEvents P lc k opt now resp ?s1 = Some (err, n, s2)"
    using replayEvents_eq [of P lc k opt now resp ?s1] assms by simp
  have k2: "kept ?s1 s2" using replay_all_kept [of ?s1 P lc k opt now resp] r by simp
  let ?s3 = "setStep St_Applying_Updates (case err of None \<Rightarrow> s2 | Some m \<Rightarrow> emit (Warnings_Raised m) s2)"
  obtain u s4 where u: "applySessionUpdates P resp ?s3 = (u, s4)" by fastforce
  have k4: "kept ?s3 s4" using updates_kept [of ?s3 P resp] u by simp
  note g = record_gaps [of P ?s0 "response_gaps now resp", unfolded Let_def]
  have s1: "eg_step ?s1 = St_Replaying_Events" "eg_runCount ?s1 = Suc (eg_runCount s)"
    "eg_gapHistory ?s1 = eg_gapHistory s @ response_gaps now resp"
    "steps ?s1 = steps s @ (if eg_step s = St_Replaying_Events then [] else [Step_Changed (eg_step s) St_Replaying_Events])"
    using g by simp_all
  have s3: "eg_step ?s3 = St_Applying_Updates" "eg_runCount ?s3 = Suc (eg_runCount s)"
    "eg_gapHistory ?s3 = eg_gapHistory s @ response_gaps now resp"
    "steps ?s3 = steps ?s1 @ [Step_Changed St_Replaying_Events St_Applying_Updates]"
    using k2 s1 unfolding kept_def by (cases err; simp)+
  have s4: "eg_step s4 = St_Applying_Updates" "eg_runCount s4 = Suc (eg_runCount s)"
    "eg_gapHistory s4 = eg_gapHistory s @ response_gaps now resp" "steps s4 = steps ?s3"
    using k4 s3 unfolding kept_def by simp_all
  show ?thesis
  proof (cases err)
    case None
    then show ?thesis using ret u s4 s3(4) s1(4)
      by (simp add: processReconciliationResponse_def Let_def)
  next
    case (Some m)
    then show ?thesis using ret u s4 s3(4) s1(4)
      by (simp add: processReconciliationResponse_def Let_def)
  qed
qed

theorem run_outcome_witness:
  "let r = processReconciliationResponse flaky (\<lambda>_ _. 0) 2 DEFAULT_REPLAY_OPTIONS 0 sample_response (new_engine 0)
   in map_option (eg_step \<circ> snd) r = Some St_Idle \<and>
      map_option (\<lambda>(res, t). map ug_from (eg_gapHistory t)) r = Some [5]"
proof -
  let ?r = "processReconciliationResponse flaky (\<lambda>_ _. 0) 2 DEFAULT_REPLAY_OPTIONS 0 sample_response (new_engine 0)"
  have "rr_replayEvents sample_response = [] \<or> 0 < ro_maxBatchSize DEFAULT_REPLAY_OPTIONS"
    by (simp add: DEFAULT_REPLAY_OPTIONS_def)
  from run_outcome [OF this, where P = flaky and lc = "\<lambda>_ _. 0" and k = 2 and now = 0 and s = "new_engine 0"]
  obtain res t where r: "?r = Some (res, t)" "eg_step t = St_Idle"
    "eg_gapHistory t = eg_gapHistory (new_engine (0::nat)) @ response_gaps 0 sample_response" by blast
  have "map ug_from (eg_gapHistory (new_engine (0::nat)) @ response_gaps 0 sample_response) = [5]" by code_simp
  with r show ?thesis unfolding Let_def by simp
qed

end
