(* ===== verification/Pairing.thy ===== *)
theory Pairing
  imports RateLimits
begin

text \<open>
  The pairing manager of the gateway (\<open>gateway/pairing/src/pairing-manager.ts\<close>, \<open>types.ts\<close>), with
  its asynchronous calls: a method runs up to its next \<open>await\<close> and leaves a pending call; the answer
  is a step of its own, so any other method may run in between.  Session objects are shared, so they
  live in a store (\<open>pm_sessions\<close>) and are named by their position.  The device identity, the bytes
  drawn and the control plane's answers are arguments; listeners do not call back.
\<close>

section \<open>Data\<close>

datatype pairing_state =
    Ps_Idle | Ps_Generating_Code | Ps_Awaiting_User_Input | Ps_Awaiting_Fingerprint_Confirm
  | Ps_Awaiting_Certificate | Ps_Paired | Ps_Expired | Ps_Cancelled | Ps_Error

record device_identity =
  di_deviceId :: string
  di_gatewayId :: string
  di_fingerprintHex :: string
  di_fingerprintWords :: "string list"
  di_fingerprintShort :: string
  di_qrPayload :: string

record pairing_code =
  pc_code :: string
  pc_issuedAt :: int
  pc_expiresAt :: int
  pc_deviceId :: string
  pc_fingerprint :: string
  pc_qrPayload :: "string option"

record pairing_session =
  pn_id :: string
  pn_code :: string
  pn_deviceId :: string
  pn_gatewayId :: string
  pn_state :: pairing_state
  pn_fingerprintHex :: string
  pn_fingerprintWords :: "string list"
  pn_fingerprintShort :: string
  pn_qrPayload :: string
  pn_createdAt :: int
  pn_expiresAt :: int
  pn_confirmedAt :: "int option"
  pn_pairedAt :: "int option"
  pn_cancelledAt :: "int option"
  pn_error :: "string option"
  pn_ttlMs :: int
  pn_retryCount :: nat
  pn_maxRetries :: nat
  pn_endpoint :: "string option"

record start_options =
  so_ttlMs :: "int option"
  so_maxRetries :: "nat option"
  so_endpoint :: "string option"
  so_userIdHint :: "string option"

record pairing_confirmation =
  cf_code :: string
  cf_fingerprintWords :: "string list"
  cf_fingerprintShort :: string
  cf_qrPayload :: string
  cf_expiresAt :: int
  cf_expiresInSeconds :: int

definition DEFAULT_PAIRING_TTL_MS :: int where
  "DEFAULT_PAIRING_TTL_MS = 5 * 60 * 1000"

definition DEFAULT_MAX_RETRIES :: nat where
  "DEFAULT_MAX_RETRIES = 3"

record manager_options =
  mo_autoStartPolling :: bool
  mo_printInstructions :: bool
  mo_pollIntervalMs :: int
  mo_maxPollAttempts :: nat

definition DEFAULT_MANAGER_OPTIONS :: manager_options where
  "DEFAULT_MANAGER_OPTIONS = \<lparr>mo_autoStartPolling = False, mo_printInstructions = True,
     mo_pollIntervalMs = 2000, mo_maxPollAttempts = 150\<rparr>"

datatype success_payload =
    Offline_Note
  | Certificate_Thumbprint string string int
  | Pairing_Complete string int string

datatype pairing_event =
    Ev_Session_Created string string
  | Ev_Code_Display string string "string list" string string int
  | Ev_Fingerprint_Confirm_Required string "string list" string
  | Ev_Polling_Started string
  | Ev_Polling_Stopped "string option"
  | Ev_Pairing_Pending string "nat option"
  | Ev_Pairing_Success string success_payload
  | Ev_Pairing_Failed string string
  | Ev_Session_Expired string
  | Ev_Session_Cancelled string string
  | Ev_Pairing_Error "string option" string

record pairing_response =
  pr_success :: bool
  pr_deviceTrusted :: bool
  pr_requiresConfirm :: bool
  pr_expiresInSeconds :: "string option"
  pr_message :: string
  pr_error :: "string option"
  pr_sessionId :: "string option"

text \<open>A call of the control plane client answers or throws; so does a request for a certificate.\<close>

datatype 'a answer = Answer 'a | Fails string

datatype pairing_call =
    Await_Cancelled start_options
  | Await_Status
  | Await_Confirmation
  | Await_Certificate nat
  | Await_Shutdown

record manager_config =
  mc_options :: manager_options
  mc_limits :: pairing_config
  mc_identity :: device_identity

record pairing_manager =
  pm_sessions :: "pairing_session list"
  pm_current :: "nat option"
  pm_polling :: bool
  pm_pollAttempts :: nat
  pm_shuttingDown :: bool
  pm_hasClient :: bool
  pm_limiter :: pairing_limiter
  pm_listening :: bool
  pm_pending :: "pairing_call list"
  pm_events :: "pairing_event list"
  pm_clock :: int

definition new_manager :: "int \<Rightarrow> pairing_manager" where
  "new_manager now = \<lparr>pm_sessions = [], pm_current = None, pm_polling = False, pm_pollAttempts = 0,
     pm_shuttingDown = False, pm_hasClient = False,
     pm_limiter = \<lparr>pl_codeTimes = [], pl_attempts = []\<rparr>, pm_listening = True, pm_pending = [],
     pm_events = [], pm_clock = now\<rparr>"

section \<open>Synchronous parts\<close>

definition createPairingCode :: "int \<Rightarrow> nat list \<Rightarrow> string \<Rightarrow> string \<Rightarrow> int \<Rightarrow> pairing_code" where
  "createPairingCode now random did fingerprint ttlMs =
     \<lparr>pc_code = generatePairingCode random, pc_issuedAt = now, pc_expiresAt = now + ttlMs,
      pc_deviceId = did, pc_fingerprint = fingerprint, pc_qrPayload = None\<rparr>"

definition isPairingCodeExpired :: "int \<Rightarrow> int \<Rightarrow> bool" where
  "isPairingCodeExpired now expiresAt \<longleftrightarrow> now \<ge> expiresAt"

definition emitEvent :: "pairing_event \<Rightarrow> pairing_manager \<Rightarrow> pairing_manager" where
  "emitEvent e s = (if pm_listening s then s\<lparr>pm_events := pm_events s @ [e]\<rparr> else s)"

definition current_session :: "pairing_manager \<Rightarrow> pairing_session option" where
  "current_session s = map_option (\<lambda>i. pm_sessions s ! i) (pm_current s)"

definition current_id :: "pairing_manager \<Rightarrow> string option" where
  "current_id s = map_option pn_id (current_session s)"

definition modify_session :: "nat \<Rightarrow> (pairing_session \<Rightarrow> pairing_session) \<Rightarrow> pairing_manager \<Rightarrow> pairing_manager" where
  "modify_session i f s = s\<lparr>pm_sessions := (pm_sessions s)[i := f (pm_sessions s ! i)]\<rparr>"

definition modify_current :: "(pairing_session \<Rightarrow> pairing_session) \<Rightarrow> pairing_manager \<Rightarrow> pairing_manager" where
  "modify_current f s = (case pm_current s of None \<Rightarrow> s | Some i \<Rightarrow> modify_session i f s)"

definition updateState :: "pairing_state \<Rightarrow> pairing_manager \<Rightarrow> pairing_manager" where
  "updateState st s = modify_current (\<lambda>p. p\<lparr>pn_state := st\<rparr>) s"

definition getState :: "pairing_manager \<Rightarrow> pairing_state" where
  "getState s = (case current_session s of None \<Rightarrow> Ps_Idle | Some p \<Rightarrow> pn_state p)"

definition buildConfirmation :: "int \<Rightarrow> pairing_session \<Rightarrow> pairing_confirmation" where
  "buildConfirmation now p =
     \<lparr>cf_code = pn_code p, cf_fingerprintWords = pn_fingerprintWords p,
      cf_fingerprintShort = pn_fingerprintShort p, cf_qrPayload = pn_qrPayload p,
      cf_expiresAt = pn_expiresAt p, cf_expiresInSeconds = max 0 ((pn_expiresAt p - now) div 1000)\<rparr>"

definition stopPolling :: "pairing_manager \<Rightarrow> pairing_manager" where
  "stopPolling s =
     (if pm_polling s then emitEvent (Ev_Polling_Stopped (current_id s)) (s\<lparr>pm_polling := False\<rparr>) else s)"

text \<open>\<open>startPolling\<close> throws without a session: the flag says whether it returned.\<close>

definition startPolling :: "pairing_manager \<Rightarrow> bool \<times> pairing_manager" where
  "startPolling s =
     (if pm_polling s then (True, s)
      else case current_session s of
        None \<Rightarrow> (False, s)
      | Some p \<Rightarrow>
          (True, (updateState Ps_Awaiting_Fingerprint_Confirm
                   (emitEvent (Ev_Polling_Started (pn_id p)) (s\<lparr>pm_pollAttempts := 0\<rparr>)))\<lparr>pm_polling := True\<rparr>))"

definition cancelPairing :: "string option \<Rightarrow> pairing_manager \<Rightarrow> pairing_manager" where
  "cancelPairing reason s =
     (case current_session s of
        None \<Rightarrow> s
      | Some p \<Rightarrow>
          (let s = stopPolling s;
               s = modify_current (\<lambda>p. p\<lparr>pn_state := Ps_Cancelled, pn_cancelledAt := Some (pm_clock s)\<rparr>) s;
               s = emitEvent (Ev_Session_Cancelled (pn_id p)
                     (case reason of None \<Rightarrow> ''User cancelled'' | Some r \<Rightarrow> r)) s
           in s\<lparr>pm_current := None\<rparr>))"

section \<open>Starting\<close>

datatype start_result =
    Started pairing_confirmation
  | Start_Suspended
  | Start_Rejected string

definition new_session :: "manager_config \<Rightarrow> start_options \<Rightarrow> string \<Rightarrow> pairing_code \<Rightarrow> int \<Rightarrow> pairing_session" where
  "new_session cfg opt sid code ttlMs =
     (let d = mc_identity cfg in
      \<lparr>pn_id = sid, pn_code = pc_code code, pn_deviceId = di_deviceId d, pn_gatewayId = di_gatewayId d,
       pn_state = Ps_Awaiting_User_Input, pn_fingerprintHex = di_fingerprintHex d,
       pn_fingerprintWords = di_fingerprintWords d, pn_fingerprintShort = di_fingerprintShort d,
       pn_qrPayload = di_qrPayload d, pn_createdAt = pc_issuedAt code, pn_expiresAt = pc_expiresAt code,
       pn_confirmedAt = None, pn_pairedAt = None, pn_cancelledAt = None, pn_error = None,
       pn_ttlMs = ttlMs, pn_retryCount = 0,
       pn_maxRetries = (case so_maxRetries opt of None \<Rightarrow> DEFAULT_MAX_RETRIES | Some n \<Rightarrow> n),
       pn_endpoint = so_endpoint opt\<rparr>)"

text \<open>The part after the check of the running session: the limit, the code, the session.\<close>

definition start_fresh ::
  "manager_config \<Rightarrow> start_options \<Rightarrow> nat list \<Rightarrow> string \<Rightarrow> pairing_manager \<Rightarrow> start_result \<times> pairing_manager" where
  "start_fresh cfg opt random rid s =
     (let (ok, lim) = canGenerateCode (mc_limits cfg) (pm_clock s) (pm_limiter s);
          s = s\<lparr>pm_limiter := lim\<rparr>
      in if \<not> ok then
           (Start_Rejected ''Too many pairing code attempts. Please wait and try again.'',
            emitEvent (Ev_Pairing_Error None ''Rate limit exceeded for pairing code generation'') s)
         else
           (let ttlMs = (case so_ttlMs opt of None \<Rightarrow> DEFAULT_PAIRING_TTL_MS | Some t \<Rightarrow> t);
                s = updateState Ps_Generating_Code s;
                code = createPairingCode (pm_clock s) random (di_deviceId (mc_identity cfg))
                         (di_fingerprintHex (mc_identity cfg)) ttlMs;
                s = s\<lparr>pm_limiter := recordCodeGeneration (pm_clock s) (pm_limiter s)\<rparr>;
                p = new_session cfg opt (''pair_'' @ rid) code ttlMs;
                s = s\<lparr>pm_sessions := pm_sessions s @ [p], pm_current := Some (length (pm_sessions s))\<rparr>;
                s = emitEvent (Ev_Session_Created (pn_id p) (pn_code p)) s;
                s = emitEvent (Ev_Code_Display (pn_id p) (pn_code p) (pn_fingerprintWords p)
                      (pn_fingerprintShort p) (pn_qrPayload p) (pn_expiresAt p)) s;
                s = (if mo_autoStartPolling (mc_options cfg) then snd (startPolling s) else s)
            in (Started (buildConfirmation (pm_clock s) p), s)))"

definition ended_state :: "pairing_state \<Rightarrow> bool" where
  "ended_state st \<longleftrightarrow> st = Ps_Expired \<or> st = Ps_Cancelled \<or> st = Ps_Error"

definition startPairing ::
  "manager_config \<Rightarrow> start_options \<Rightarrow> nat list \<Rightarrow> string \<Rightarrow> pairing_manager \<Rightarrow> start_result \<times> pairing_manager" where
  "startPairing cfg opt random rid s =
     (if pm_shuttingDown s then (Start_Rejected ''Pairing manager is shutting down'', s)
      else case current_session s of
        None \<Rightarrow> start_fresh cfg opt random rid s
      | Some p \<Rightarrow>
          if ended_state (pn_state p) then start_fresh cfg opt random rid s
          else if \<not> isPairingCodeExpired (pm_clock s) (pn_expiresAt p) then
            (Started (buildConfirmation (pm_clock s) p), s)
          else (Start_Suspended,
            (let s = cancelPairing (Some ''Expired pairing replaced'') s
             in s\<lparr>pm_pending := pm_pending s @ [Await_Cancelled opt]\<rparr>)))"

section \<open>Polling and confirming\<close>

definition pollOnce :: "manager_config \<Rightarrow> pairing_manager \<Rightarrow> pairing_manager" where
  "pollOnce cfg s =
     (case current_session s of
        None \<Rightarrow> stopPolling s
      | Some p \<Rightarrow>
          if pm_shuttingDown s then stopPolling s
          else
            (let s = s\<lparr>pm_pollAttempts := Suc (pm_pollAttempts s)\<rparr> in
             if isPairingCodeExpired (pm_clock s) (pn_expiresAt p) then
               (let s = updateState Ps_Expired s;
                    s = emitEvent (Ev_Session_Expired (pn_id p)) s;
                    s = stopPolling s
                in s\<lparr>pm_current := None\<rparr>)
             else if pm_pollAttempts s \<ge> mo_maxPollAttempts (mc_options cfg) then stopPolling s
             else if pm_hasClient s then s\<lparr>pm_pending := pm_pending s @ [Await_Status]\<rparr>
             else s))"

definition handlePairingSuccess :: "pairing_manager \<Rightarrow> pairing_manager" where
  "handlePairingSuccess s =
     (case pm_current s of
        None \<Rightarrow> s
      | Some i \<Rightarrow>
          (let s = stopPolling s;
               s = updateState Ps_Awaiting_Certificate s
           in if pm_hasClient s then s\<lparr>pm_pending := pm_pending s @ [Await_Certificate i]\<rparr> else s))"

definition null_read :: "string \<Rightarrow> string" where
  "null_read field = ''Poll error: Cannot read properties of null (reading '' @ [CHR 0x27] @ field @ [CHR 0x27] @ '')''"

definition status_answered :: "pairing_response answer \<Rightarrow> pairing_manager \<Rightarrow> pairing_manager" where
  "status_answered a s =
     (case a of
        Fails msg \<Rightarrow> emitEvent (Ev_Pairing_Error (current_id s) (''Poll error: '' @ msg)) s
      | Answer r \<Rightarrow>
          if pr_success r \<and> pr_deviceTrusted r then handlePairingSuccess s
          else case current_session s of
            None \<Rightarrow> emitEvent (Ev_Pairing_Error None (null_read (if pr_success r then ''id'' else ''retryCount''))) s
          | Some p \<Rightarrow>
              if pr_success r \<and> pr_requiresConfirm r then
                emitEvent (Ev_Fingerprint_Confirm_Required (pn_id p) (pn_fingerprintWords p) (pn_fingerprintShort p))
                  (updateState Ps_Awaiting_Fingerprint_Confirm s)
              else if \<not> pr_success r then
                (if pn_retryCount p \<ge> pn_maxRetries p then
                   (let error = (case pr_error r of None \<Rightarrow> ''Max retries exceeded'' | Some e \<Rightarrow> e);
                        s = modify_current (\<lambda>p. p\<lparr>pn_state := Ps_Error, pn_error := Some error\<rparr>) s;
                        s = emitEvent (Ev_Pairing_Failed (pn_id p) error) s;
                        s = stopPolling s
                    in s\<lparr>pm_current := None\<rparr>)
                 else emitEvent (Ev_Pairing_Pending (pn_id p) (Some (Suc (pn_retryCount p))))
                   (modify_current (\<lambda>p. p\<lparr>pn_retryCount := Suc (pn_retryCount p)\<rparr>) s))
              else emitEvent (Ev_Pairing_Pending (pn_id p) None) s)"

definition certificate_answered :: "nat \<Rightarrow> string answer \<Rightarrow> pairing_manager \<Rightarrow> pairing_manager" where
  "certificate_answered i a s =
     (case a of
        Answer thumb \<Rightarrow>
          (let now = pm_clock s;
               s = modify_session i (\<lambda>p. p\<lparr>pn_state := Ps_Paired, pn_pairedAt := Some now\<rparr>) s;
               p = pm_sessions s ! i;
               s = emitEvent (Ev_Pairing_Success (pn_id p) (Certificate_Thumbprint (pn_deviceId p) thumb now)) s;
               s = emitEvent (Ev_Pairing_Success (pn_id p) (Pairing_Complete (pn_deviceId p) now thumb)) s
           in s\<lparr>pm_current := None\<rparr>)
      | Fails msg \<Rightarrow>
          (let error = ''Certificate request failed: '' @ msg;
               s = modify_session i (\<lambda>p. p\<lparr>pn_state := Ps_Error, pn_error := Some error\<rparr>) s;
               s = emitEvent (Ev_Pairing_Failed (pn_id (pm_sessions s ! i)) error) s
           in s\<lparr>pm_current := None\<rparr>))"

datatype confirm_result = Confirm_Throws | Confirm_Returns bool | Confirm_Suspended

definition confirmFingerprintManually :: "pairing_manager \<Rightarrow> confirm_result \<times> pairing_manager" where
  "confirmFingerprintManually s =
     (case current_session s of
        None \<Rightarrow> (Confirm_Throws, s)
      | Some p \<Rightarrow>
          if pn_state p \<noteq> Ps_Awaiting_Fingerprint_Confirm \<and> pn_state p \<noteq> Ps_Awaiting_User_Input
          then (Confirm_Returns False, s)
          else
            (let now = pm_clock s;
                 s = modify_current (\<lambda>p. p\<lparr>pn_confirmedAt := Some now\<rparr>) s;
                 s = updateState Ps_Awaiting_Certificate s
             in if \<not> pm_hasClient s then
                  (Confirm_Returns True, emitEvent (Ev_Pairing_Success (pn_id p) Offline_Note) s)
                else (Confirm_Suspended, s\<lparr>pm_pending := pm_pending s @ [Await_Confirmation]\<rparr>)))"

definition confirmation_answered :: "pairing_response answer \<Rightarrow> pairing_manager \<Rightarrow> pairing_manager" where
  "confirmation_answered a s =
     (case a of
        Answer r \<Rightarrow> if pr_success r then handlePairingSuccess s else s
      | Fails _ \<Rightarrow> s)"

section \<open>Shutdown\<close>

definition end_shutdown :: "pairing_manager \<Rightarrow> pairing_manager" where
  "end_shutdown s = s\<lparr>pm_listening := False, pm_limiter := cleanupPairing (pm_clock s) (pm_limiter s)\<rparr>"

definition shutdown_manager :: "pairing_manager \<Rightarrow> pairing_manager" where
  "shutdown_manager s =
     (if pm_shuttingDown s then s
      else
        (let s = stopPolling (s\<lparr>pm_shuttingDown := True\<rparr>) in
         if pm_current s = None then end_shutdown s
         else (let s = cancelPairing (Some ''Pairing manager shutdown'') s
               in s\<lparr>pm_pending := pm_pending s @ [Await_Shutdown]\<rparr>)))"

section \<open>Runs\<close>

text \<open>
  What can happen next: a call of a public method, a tick of the poll timer while it is set, the
  answer to a pending call, in any order, or the passing of time.
\<close>

datatype pairing_input =
    In_Clock int
  | In_Client bool
  | In_Start start_options "nat list" string
  | In_Cancel "string option"
  | In_Start_Polling
  | In_Stop_Polling
  | In_Poll
  | In_Confirm
  | In_Shutdown
  | In_Cancelled start_options "nat list" string
  | In_Status "pairing_response answer"
  | In_Confirmation "pairing_response answer"
  | In_Certificate nat "string answer"
  | In_Shut

definition settle :: "pairing_call \<Rightarrow> pairing_manager \<Rightarrow> pairing_manager" where
  "settle c s = s\<lparr>pm_pending := remove1 c (pm_pending s)\<rparr>"

fun perform :: "manager_config \<Rightarrow> pairing_input \<Rightarrow> pairing_manager \<Rightarrow> pairing_manager" where
  "perform cfg (In_Clock t) s = s\<lparr>pm_clock := t\<rparr>"
| "perform cfg (In_Client b) s = s\<lparr>pm_hasClient := b\<rparr>"
| "perform cfg (In_Start opt random rid) s = snd (startPairing cfg opt random rid s)"
| "perform cfg (In_Cancel reason) s = cancelPairing reason s"
| "perform cfg In_Start_Polling s = snd (startPolling s)"
| "perform cfg In_Stop_Polling s = stopPolling s"
| "perform cfg In_Poll s = pollOnce cfg s"
| "perform cfg In_Confirm s = snd (confirmFingerprintManually s)"
| "perform cfg In_Shutdown s = shutdown_manager s"
| "perform cfg (In_Cancelled opt random rid) s = snd (start_fresh cfg opt random rid (settle (Await_Cancelled opt) s))"
| "perform cfg (In_Status a) s = status_answered a (settle Await_Status s)"
| "perform cfg (In_Confirmation a) s = confirmation_answered a (settle Await_Confirmation s)"
| "perform cfg (In_Certificate i a) s = certificate_answered i a (settle (Await_Certificate i) s)"
| "perform cfg In_Shut s = end_shutdown (settle Await_Shutdown s)"

fun enabled :: "pairing_manager \<Rightarrow> pairing_input \<Rightarrow> bool" where
  "enabled s (In_Clock t) \<longleftrightarrow> pm_clock s \<le> t"
| "enabled s In_Poll \<longleftrightarrow> pm_polling s"
| "enabled s (In_Cancelled opt random rid) \<longleftrightarrow> Await_Cancelled opt \<in> set (pm_pending s)"
| "enabled s (In_Status a) \<longleftrightarrow> Await_Status \<in> set (pm_pending s)"
| "enabled s (In_Confirmation a) \<longleftrightarrow> Await_Confirmation \<in> set (pm_pending s)"
| "enabled s (In_Certificate i a) \<longleftrightarrow> Await_Certificate i \<in> set (pm_pending s)"
| "enabled s In_Shut \<longleftrightarrow> Await_Shutdown \<in> set (pm_pending s)"
| "enabled s _ \<longleftrightarrow> True"

inductive pairing_reach :: "manager_config \<Rightarrow> pairing_input list \<Rightarrow> pairing_manager \<Rightarrow> bool" for cfg where
  reach_new: "pairing_reach cfg [] (new_manager now)"
| reach_step: "pairing_reach cfg xs s \<Longrightarrow> enabled s x \<Longrightarrow> pairing_reach cfg (xs @ [x]) (perform cfg x s)"

text \<open>The states a given history leads to, for evaluating runs.\<close>

fun run_pairing :: "manager_config \<Rightarrow> pairing_manager \<Rightarrow> pairing_input list \<Rightarrow> pairing_manager option" where
  "run_pairing cfg s [] = Some s"
| "run_pairing cfg s (x # xs) = (if enabled s x then run_pairing cfg (perform cfg x s) xs else None)"

lemma run_pairing_reach:
  "pairing_reach cfg ys s \<Longrightarrow> run_pairing cfg s xs = Some t \<Longrightarrow> pairing_reach cfg (ys @ xs) t"
proof (induction xs arbitrary: ys s)
  case (Cons x xs)
  then have "enabled s x" "run_pairing cfg (perform cfg x s) xs = Some t" by (simp_all split: if_splits)
  with Cons.IH [OF reach_step [OF Cons.prems(1) this(1)]] show ?case by simp
qed simp

lemmas run_from_new = run_pairing_reach [OF reach_new, simplified]

section \<open>The current session\<close>

text \<open>
  The parts of the state a proof looks at: what each helper leaves alone.
\<close>

lemma emit_fields [simp]:
  "pm_sessions (emitEvent e s) = pm_sessions s" "pm_current (emitEvent e s) = pm_current s"
  "pm_polling (emitEvent e s) = pm_polling s" "pm_pollAttempts (emitEvent e s) = pm_pollAttempts s"
  "pm_pending (emitEvent e s) = pm_pending s" "pm_limiter (emitEvent e s) = pm_limiter s"
  "pm_clock (emitEvent e s) = pm_clock s" "pm_hasClient (emitEvent e s) = pm_hasClient s"
  "pm_shuttingDown (emitEvent e s) = pm_shuttingDown s"
  by (simp_all add: emitEvent_def)

lemma stop_fields [simp]:
  "pm_sessions (stopPolling s) = pm_sessions s" "pm_current (stopPolling s) = pm_current s"
  "\<not> pm_polling (stopPolling s)" "pm_pollAttempts (stopPolling s) = pm_pollAttempts s"
  "pm_pending (stopPolling s) = pm_pending s" "pm_limiter (stopPolling s) = pm_limiter s"
  "pm_clock (stopPolling s) = pm_clock s" "pm_hasClient (stopPolling s) = pm_hasClient s"
  "pm_shuttingDown (stopPolling s) = pm_shuttingDown s"
  by (simp_all add: stopPolling_def)

lemma modify_fields [simp]:
  "pm_current (modify_session i f s) = pm_current s"
  "pm_polling (modify_session i f s) = pm_polling s"
  "pm_pollAttempts (modify_session i f s) = pm_pollAttempts s"
  "pm_pending (modify_session i f s) = pm_pending s" "pm_limiter (modify_session i f s) = pm_limiter s"
  "pm_clock (modify_session i f s) = pm_clock s" "pm_hasClient (modify_session i f s) = pm_hasClient s"
  "pm_shuttingDown (modify_session i f s) = pm_shuttingDown s"
  "length (pm_sessions (modify_session i f s)) = length (pm_sessions s)"
  by (simp_all add: modify_session_def)

lemma modify_current_fields [simp]:
  "pm_current (modify_current f s) = pm_current s"
  "pm_polling (modify_current f s) = pm_polling s"
  "pm_pollAttempts (modify_current f s) = pm_pollAttempts s"
  "pm_pending (modify_current f s) = pm_pending s" "pm_limiter (modify_current f s) = pm_limiter s"
  "pm_clock (modify_current f s) = pm_clock s" "pm_hasClient (modify_current f s) = pm_hasClient s"
  "pm_shuttingDown (modify_current f s) = pm_shuttingDown s"
  "length (pm_sessions (modify_current f s)) = length (pm_sessions s)"
  by (simp_all add: modify_current_def split: option.split)

lemma update_fields [simp]:
  "pm_current (updateState st s) = pm_current s"
  "pm_polling (updateState st s) = pm_polling s"
  "pm_pollAttempts (updateState st s) = pm_pollAttempts s"
  "pm_pending (updateState st s) = pm_pending s" "pm_limiter (updateState st s) = pm_limiter s"
  "pm_clock (updateState st s) = pm_clock s" "pm_hasClient (updateState st s) = pm_hasClient s"
  "pm_shuttingDown (updateState st s) = pm_shuttingDown s"
  "length (pm_sessions (updateState st s)) = length (pm_sessions s)"
  by (simp_all add: updateState_def)

lemma settle_fields [simp]:
  "pm_sessions (settle c s) = pm_sessions s" "pm_current (settle c s) = pm_current s"
  "pm_polling (settle c s) = pm_polling s" "pm_pollAttempts (settle c s) = pm_pollAttempts s"
  "pm_limiter (settle c s) = pm_limiter s" "pm_clock (settle c s) = pm_clock s"
  "pm_hasClient (settle c s) = pm_hasClient s" "pm_shuttingDown (settle c s) = pm_shuttingDown s"
  "pm_pending (settle c s) = remove1 c (pm_pending s)"
  by (simp_all add: settle_def)

text \<open>Consent of the control plane, and a certificate from it.\<close>

fun consents :: "pairing_input \<Rightarrow> bool" where
  "consents (In_Status (Answer r)) \<longleftrightarrow> pr_success r \<and> pr_deviceTrusted r"
| "consents (In_Confirmation (Answer r)) \<longleftrightarrow> pr_success r"
| "consents _ \<longleftrightarrow> False"

fun certifies :: "pairing_input \<Rightarrow> bool" where
  "certifies (In_Certificate i (Answer thumb)) \<longleftrightarrow> True"
| "certifies _ \<longleftrightarrow> False"

definition live_state :: "pairing_state \<Rightarrow> bool" where
  "live_state st \<longleftrightarrow> st \<notin> {Ps_Idle, Ps_Paired, Ps_Expired, Ps_Cancelled, Ps_Error}"

definition session_ok :: "bool \<Rightarrow> bool \<Rightarrow> pairing_session \<Rightarrow> bool" where
  "session_ok c d p \<longleftrightarrow> (pn_state p = Ps_Paired \<longrightarrow> c \<and> d) \<and> pn_retryCount p \<le> pn_maxRetries p \<and>
     pn_expiresAt p = pn_createdAt p + pn_ttlMs p"

definition base_ok :: "bool \<Rightarrow> bool \<Rightarrow> pairing_manager \<Rightarrow> bool" where
  "base_ok c d s \<longleftrightarrow>
     (\<forall>i. pm_current s = Some i \<longrightarrow> i < length (pm_sessions s)) \<and>
     (\<forall>i. Await_Certificate i \<in> set (pm_pending s) \<longrightarrow> i < length (pm_sessions s) \<and> c) \<and>
     (\<forall>p \<in> set (pm_sessions s). session_ok c d p)"

definition bound_ok :: "manager_config \<Rightarrow> pairing_manager \<Rightarrow> bool" where
  "bound_ok cfg s \<longleftrightarrow> (pm_polling s \<longrightarrow> pm_pollAttempts s < max 1 (mo_maxPollAttempts (mc_options cfg)))"

definition live_ok :: "pairing_manager \<Rightarrow> bool" where
  "live_ok s \<longleftrightarrow> (\<forall>i. pm_current s = Some i \<longrightarrow> live_state (pn_state (pm_sessions s ! i)))"

definition pairing_ok :: "manager_config \<Rightarrow> bool \<Rightarrow> bool \<Rightarrow> pairing_manager \<Rightarrow> bool" where
  "pairing_ok cfg c d s \<longleftrightarrow> base_ok c d s \<and> live_ok s \<and> bound_ok cfg s"

lemma ok_mono: "pairing_ok cfg c d s \<Longrightarrow> pairing_ok cfg (c \<or> c') (d \<or> d') s"
  unfolding pairing_ok_def base_ok_def session_ok_def by blast

lemma base_emit [simp]: "base_ok c d (emitEvent e s) = base_ok c d s"
  by (simp add: base_ok_def)

lemma bound_fields [simp]:
  "bound_ok cfg (emitEvent e s) = bound_ok cfg s" "bound_ok cfg (modify_session i f s) = bound_ok cfg s"
  "bound_ok cfg (modify_current f s) = bound_ok cfg s" "bound_ok cfg (updateState st s) = bound_ok cfg s"
  "bound_ok cfg (stopPolling s)" "bound_ok cfg (settle k s) = bound_ok cfg s"
  by (simp_all add: bound_ok_def)

lemma live_emit [simp]: "live_ok (emitEvent e s) = live_ok s"
  by (simp add: live_ok_def)

lemma base_stop [simp]: "base_ok c d (stopPolling s) = base_ok c d s"
  by (simp add: base_ok_def)

lemma live_stop [simp]: "live_ok (stopPolling s) = live_ok s"
  by (simp add: live_ok_def)

lemma base_modify:
  assumes "base_ok c d s" "\<And>p. session_ok c d p \<Longrightarrow> session_ok c d (f p)"
  shows "base_ok c d (modify_session i f s)"
proof -
  have "session_ok c d p" if "p \<in> set (pm_sessions (modify_session i f s))" for p
  proof (cases "i < length (pm_sessions s)")
    case True
    then have "session_ok c d (f (pm_sessions s ! i))" using assms unfolding base_ok_def by simp
    moreover have "p = f (pm_sessions s ! i) \<or> p \<in> set (pm_sessions s)"
      using that set_update_subset_insert unfolding modify_session_def by fastforce
    ultimately show ?thesis using assms(1) unfolding base_ok_def by blast
  next
    case False
    then show ?thesis using that assms(1) unfolding base_ok_def by (simp add: modify_session_def list_update_beyond)
  qed
  then show ?thesis using assms(1) unfolding base_ok_def by simp
qed

lemma base_modify_current:
  assumes "base_ok c d s" "\<And>p. session_ok c d p \<Longrightarrow> session_ok c d (f p)"
  shows "base_ok c d (modify_current f s)"
  unfolding modify_current_def using assms base_modify by (cases "pm_current s") simp_all

lemma live_modify_current:
  assumes "base_ok c d s" "live_ok s" "\<And>p. live_state (pn_state p) \<Longrightarrow> live_state (pn_state (f p))"
  shows "live_ok (modify_current f s)"
  using assms unfolding base_ok_def live_ok_def modify_current_def modify_session_def
  by (cases "pm_current s") simp_all

lemma base_update: "base_ok c d s \<Longrightarrow> st \<noteq> Ps_Paired \<Longrightarrow> base_ok c d (updateState st s)"
  unfolding updateState_def by (rule base_modify_current) (simp_all add: session_ok_def)

lemma live_update: "base_ok c d s \<Longrightarrow> live_state st \<Longrightarrow> live_ok (updateState st s)"
  unfolding base_ok_def live_ok_def updateState_def modify_current_def modify_session_def
  by (cases "pm_current s") simp_all

lemma ok_clear: "base_ok c d s \<Longrightarrow> bound_ok cfg s \<Longrightarrow> pairing_ok cfg c d (s\<lparr>pm_current := None\<rparr>)"
  by (simp add: pairing_ok_def base_ok_def live_ok_def bound_ok_def)

lemma ok_await:
  "pairing_ok cfg c d s \<Longrightarrow> (\<And>i. k = Await_Certificate i \<Longrightarrow> i < length (pm_sessions s) \<and> c) \<Longrightarrow>
     pairing_ok cfg c d (s\<lparr>pm_pending := pm_pending s @ [k]\<rparr>)"
  unfolding pairing_ok_def base_ok_def live_ok_def bound_ok_def by auto

lemma ok_settle: "pairing_ok cfg c d s \<Longrightarrow> pairing_ok cfg c d (settle k s)"
  using set_remove1_subset [of k "pm_pending s"]
  unfolding pairing_ok_def base_ok_def live_ok_def bound_ok_def by auto

lemma live_states [simp]:
  "live_state Ps_Generating_Code" "live_state Ps_Awaiting_User_Input"
  "live_state Ps_Awaiting_Fingerprint_Confirm" "live_state Ps_Awaiting_Certificate"
  by (simp_all add: live_state_def)

lemma cancel_ok:
  assumes "pairing_ok cfg c d s" shows "pairing_ok cfg c d (cancelPairing r s)"
proof (cases "current_session s")
  case (Some p)
  let ?f = "\<lambda>p. p\<lparr>pn_state := Ps_Cancelled, pn_cancelledAt := Some (pm_clock s)\<rparr>"
  have "base_ok c d (modify_current ?f (stopPolling s))"
    using assms by (intro base_modify_current) (simp_all add: pairing_ok_def session_ok_def)
  with Some show ?thesis by (simp add: cancelPairing_def Let_def ok_clear)
qed (simp add: cancelPairing_def assms)

lemma start_polling_ok:
  assumes "pairing_ok cfg c d s" shows "pairing_ok cfg c d (snd (startPolling s))"
proof (cases "pm_polling s \<or> current_session s = None")
  case True
  then show ?thesis using assms by (auto simp: startPolling_def)
next
  case False
  then obtain p where p: "current_session s = Some p" by auto
  let ?s = "emitEvent (Ev_Polling_Started (pn_id p)) (s\<lparr>pm_pollAttempts := 0\<rparr>)"
  let ?t = "updateState Ps_Awaiting_Fingerprint_Confirm ?s"
  have "base_ok c d ?s" using assms by (simp add: pairing_ok_def base_ok_def)
  then have "base_ok c d ?t" "live_ok ?t" by (simp_all add: base_update live_update)
  then have "pairing_ok cfg c d (?t\<lparr>pm_polling := True\<rparr>)"
    by (simp add: pairing_ok_def base_ok_def live_ok_def bound_ok_def less_max_iff_disj)
  with False p show ?thesis by (simp add: startPolling_def)
qed

lemma start_fresh_ok:
  assumes "pairing_ok cfg c d s" shows "pairing_ok cfg c d (snd (start_fresh cfg opt random rid s))"
proof -
  obtain ok lim where l: "canGenerateCode (mc_limits cfg) (pm_clock s) (pm_limiter s) = (ok, lim)" by fastforce
  show ?thesis
  proof (cases ok)
    case False
    then show ?thesis using assms l by (simp add: start_fresh_def pairing_ok_def base_ok_def live_ok_def bound_ok_def)
  next
    case True
    let ?ttl = "case so_ttlMs opt of None \<Rightarrow> DEFAULT_PAIRING_TTL_MS | Some t \<Rightarrow> t"
    let ?s = "updateState Ps_Generating_Code (s\<lparr>pm_limiter := lim\<rparr>)"
    let ?p = "new_session cfg opt (''pair_'' @ rid) (createPairingCode (pm_clock s) random
      (di_deviceId (mc_identity cfg)) (di_fingerprintHex (mc_identity cfg)) ?ttl) ?ttl"
    let ?t = "?s\<lparr>pm_limiter := recordCodeGeneration (pm_clock s) lim, pm_sessions := pm_sessions ?s @ [?p],
      pm_current := Some (length (pm_sessions s))\<rparr>"
    have "base_ok c d (s\<lparr>pm_limiter := lim\<rparr>)" using assms by (simp add: pairing_ok_def base_ok_def)
    then have "base_ok c d ?s" by (simp add: base_update)
    moreover have "bound_ok cfg ?t" using assms by (simp add: pairing_ok_def bound_ok_def)
    moreover have "session_ok c d ?p"
      by (simp add: session_ok_def new_session_def createPairingCode_def Let_def)
    moreover have "live_state (pn_state ?p)" by (simp add: new_session_def Let_def)
    ultimately have t: "pairing_ok cfg c d ?t"
      by (auto simp: pairing_ok_def base_ok_def live_ok_def less_Suc_eq nth_append)
    have emit: "pairing_ok cfg c d (emitEvent e u) = pairing_ok cfg c d u" for e u
      by (simp add: pairing_ok_def)
    show ?thesis using t start_polling_ok True l
      by (simp add: start_fresh_def Let_def emit)
  qed
qed

lemma start_ok: "pairing_ok cfg c d s \<Longrightarrow> pairing_ok cfg c d (snd (startPairing cfg opt random rid s))"
  unfolding startPairing_def Let_def
  by (auto split: option.split intro: start_fresh_ok ok_await [OF cancel_ok])

lemma poll_ok:
  assumes "pairing_ok cfg c d s" shows "pairing_ok cfg c d (pollOnce cfg s)"
proof (cases "current_session s")
  case None
  then show ?thesis using assms by (simp add: pollOnce_def pairing_ok_def base_stop)
next
  case (Some p)
  let ?s = "s\<lparr>pm_pollAttempts := Suc (pm_pollAttempts s)\<rparr>"
  have base: "base_ok c d ?s" and live: "live_ok ?s"
    using assms by (simp_all add: pairing_ok_def base_ok_def live_ok_def)
  consider "pm_shuttingDown s"
    | "\<not> pm_shuttingDown s" "isPairingCodeExpired (pm_clock s) (pn_expiresAt p)"
    | "\<not> pm_shuttingDown s" "\<not> isPairingCodeExpired (pm_clock s) (pn_expiresAt p)"
      "mo_maxPollAttempts (mc_options cfg) \<le> Suc (pm_pollAttempts s)"
    | "\<not> pm_shuttingDown s" "\<not> isPairingCodeExpired (pm_clock s) (pn_expiresAt p)"
      "Suc (pm_pollAttempts s) < mo_maxPollAttempts (mc_options cfg)" by linarith
  then show ?thesis
  proof cases
    case 1
    then show ?thesis using Some assms by (simp add: pollOnce_def pairing_ok_def)
  next
    case 2
    then show ?thesis using Some base by (simp add: pollOnce_def Let_def ok_clear base_update)
  next
    case 3
    then show ?thesis using Some base live by (simp add: pollOnce_def Let_def pairing_ok_def)
  next
    case 4
    then have "pairing_ok cfg c d ?s" using base live by (simp add: pairing_ok_def bound_ok_def)
    from ok_await [OF this, of Await_Status] this 4 Some show ?thesis
      by (simp add: pollOnce_def Let_def)
  qed
qed

lemma emit_ok [simp]: "pairing_ok cfg c d (emitEvent e s) = pairing_ok cfg c d s"
  by (simp add: pairing_ok_def)

lemma stop_ok: "pairing_ok cfg c d s \<Longrightarrow> pairing_ok cfg c d (stopPolling s)"
  by (simp add: pairing_ok_def)

lemma update_ok: "pairing_ok cfg c d s \<Longrightarrow> live_state st \<Longrightarrow> pairing_ok cfg c d (updateState st s)"
  by (auto simp: pairing_ok_def live_state_def intro: base_update live_update)

lemma modify_ok:
  assumes "pairing_ok cfg c d s" "\<And>p. session_ok c d p \<Longrightarrow> session_ok c d (f p)"
    "\<And>p. live_state (pn_state p) \<Longrightarrow> live_state (pn_state (f p))"
  shows "pairing_ok cfg c d (modify_current f s)"
  using assms by (auto simp: pairing_ok_def intro: base_modify_current live_modify_current)

lemma handle_ok:
  assumes "pairing_ok cfg c d s" c shows "pairing_ok cfg c d (handlePairingSuccess s)"
proof (cases "pm_current s")
  case (Some i)
  let ?s = "updateState Ps_Awaiting_Certificate (stopPolling s)"
  have s: "pairing_ok cfg c d ?s" using assms(1) by (simp add: stop_ok update_ok)
  have "i < length (pm_sessions ?s)" using assms(1) Some by (simp add: pairing_ok_def base_ok_def)
  then have "pairing_ok cfg c d (?s\<lparr>pm_pending := pm_pending ?s @ [Await_Certificate i]\<rparr>)"
    using s assms(2) by (intro ok_await) simp_all
  with Some s show ?thesis by (simp add: handlePairingSuccess_def Let_def)
qed (use assms in \<open>simp add: handlePairingSuccess_def\<close>)

lemma refused_ok:
  assumes s: "pairing_ok cfg c d s" and p: "current_session s = Some p"
  shows "pairing_ok cfg c d ((stopPolling (emitEvent e (modify_current (\<lambda>p. p\<lparr>pn_state := Ps_Error, pn_error := x\<rparr>) s)))
      \<lparr>pm_current := None\<rparr>)"
    and "pn_retryCount p < pn_maxRetries p \<Longrightarrow>
      pairing_ok cfg c d (modify_current (\<lambda>p. p\<lparr>pn_retryCount := Suc (pn_retryCount p)\<rparr>) s)"
proof -
  have base: "base_ok c d s" and bound: "bound_ok cfg s" and live: "live_ok s" using s by (simp_all add: pairing_ok_def)
  have "base_ok c d (modify_current (\<lambda>p. p\<lparr>pn_state := Ps_Error, pn_error := x\<rparr>) s)"
    using base by (rule base_modify_current) (simp add: session_ok_def)
  then show "pairing_ok cfg c d ((stopPolling (emitEvent e (modify_current (\<lambda>p. p\<lparr>pn_state := Ps_Error, pn_error := x\<rparr>) s)))
      \<lparr>pm_current := None\<rparr>)" by (simp add: ok_clear)
next
  assume less: "pn_retryCount p < pn_maxRetries p"
  obtain i where i: "pm_current s = Some i" "p = pm_sessions s ! i" using p by (auto simp: current_session_def)
  let ?f = "\<lambda>p. p\<lparr>pn_retryCount := Suc (pn_retryCount p)\<rparr>"
  have "i < length (pm_sessions s)" using s i(1) by (simp add: pairing_ok_def base_ok_def)
  have "session_ok c d p"
    using s i(2) \<open>i < length (pm_sessions s)\<close> unfolding pairing_ok_def base_ok_def by (metis nth_mem)
  then have ok: "session_ok c d (?f p)" using less by (simp add: session_ok_def)
  have "session_ok c d q" if "q \<in> set ((pm_sessions s)[i := ?f p])" for q
  proof -
    have "q = ?f p \<or> q \<in> set (pm_sessions s)" using that set_update_subset_insert by fastforce
    then show ?thesis using ok s unfolding pairing_ok_def base_ok_def by blast
  qed
  then have "base_ok c d (modify_current ?f s)"
    using s i unfolding pairing_ok_def base_ok_def by (simp add: modify_current_def modify_session_def)
  moreover have "live_ok (modify_current ?f s)"
    using s by (intro live_modify_current [of c d]) (simp_all add: pairing_ok_def)
  ultimately show "pairing_ok cfg c d (modify_current ?f s)" using s by (simp add: pairing_ok_def)
qed

lemma status_ok:
  assumes s: "pairing_ok cfg c d s" and c: "consents (In_Status a) \<Longrightarrow> c"
  shows "pairing_ok cfg c d (status_answered a s)"
proof (cases a)
  case (Fails msg)
  then show ?thesis using s by (simp add: status_answered_def)
next
  case (Answer r)
  show ?thesis
  proof (cases "pr_success r \<and> pr_deviceTrusted r")
    case True
    then show ?thesis using handle_ok [OF s] c Answer by (simp add: status_answered_def)
  next
    case False
    show ?thesis
    proof (cases "current_session s")
      case None
      then show ?thesis using s False Answer by (auto simp: status_answered_def)
    next
      case (Some p)
      from refused_ok [OF s Some] False Some Answer s show ?thesis
        by (auto simp: status_answered_def Let_def update_ok)
    qed
  qed
qed

lemma certificate_ok:
  assumes s: "pairing_ok cfg c d s" and c: "c" and d: "certifies (In_Certificate i a) \<Longrightarrow> d"
  shows "pairing_ok cfg c d (certificate_answered i a s)"
proof -
  have base: "base_ok c d s" and bound: "bound_ok cfg s" using s by (simp_all add: pairing_ok_def)
  show ?thesis
  proof (cases a)
    case (Answer thumb)
    then have d using d by simp
    with c base have "base_ok c d (modify_session i (\<lambda>p. p\<lparr>pn_state := Ps_Paired, pn_pairedAt := t\<rparr>) s)" for t
      by (intro base_modify) (simp_all add: session_ok_def)
    with Answer bound show ?thesis by (simp add: certificate_answered_def Let_def ok_clear)
  next
    case (Fails msg)
    have "base_ok c d (modify_session i (\<lambda>p. p\<lparr>pn_state := Ps_Error, pn_error := t\<rparr>) s)" for t
      using base by (rule base_modify) (simp add: session_ok_def)
    with Fails bound show ?thesis by (simp add: certificate_answered_def Let_def ok_clear)
  qed
qed

lemma confirm_ok:
  assumes s: "pairing_ok cfg c d s" shows "pairing_ok cfg c d (snd (confirmFingerprintManually s))"
proof -
  have m: "pairing_ok cfg c d (updateState Ps_Awaiting_Certificate (modify_current (\<lambda>p. p\<lparr>pn_confirmedAt := t\<rparr>) s))" for t
    using s by (intro update_ok modify_ok) (simp_all add: session_ok_def)
  from ok_await [OF this, of Await_Confirmation] s m show ?thesis
    by (auto simp: confirmFingerprintManually_def Let_def split: option.split)
qed

lemma fields_ok [simp]:
  "pairing_ok cfg c d (s\<lparr>pm_clock := t\<rparr>) = pairing_ok cfg c d s"
  "pairing_ok cfg c d (s\<lparr>pm_hasClient := b\<rparr>) = pairing_ok cfg c d s"
  "pairing_ok cfg c d (s\<lparr>pm_shuttingDown := b\<rparr>) = pairing_ok cfg c d s"
  "pairing_ok cfg c d (end_shutdown s) = pairing_ok cfg c d s"
  by (simp_all add: pairing_ok_def base_ok_def live_ok_def bound_ok_def end_shutdown_def)

lemma shutdown_ok:
  assumes "pairing_ok cfg c d s" shows "pairing_ok cfg c d (shutdown_manager s)"
proof -
  let ?s = "stopPolling (s\<lparr>pm_shuttingDown := True\<rparr>)"
  have s: "pairing_ok cfg c d ?s" using assms by (simp add: stop_ok)
  from ok_await [OF cancel_ok [OF s], of Await_Shutdown] s assms show ?thesis
    by (simp add: shutdown_manager_def Let_def)
qed

lemma perform_ok:
  assumes s: "pairing_ok cfg c d s" and e: "enabled s x"
  shows "pairing_ok cfg (c \<or> consents x) (d \<or> c \<and> certifies x) (perform cfg x s)"
proof -
  let ?c = "c \<or> consents x" and ?d = "d \<or> c \<and> certifies x"
  have m: "pairing_ok cfg ?c ?d s" by (rule ok_mono [OF s])
  show ?thesis
  proof (cases x)
    case (In_Certificate i a)
    have c using s e In_Certificate by (simp add: pairing_ok_def base_ok_def)
    with m show ?thesis unfolding In_Certificate perform.simps
      by (intro certificate_ok ok_settle) simp_all
  next
    case (In_Status a)
    show ?thesis using m unfolding In_Status perform.simps by (intro status_ok ok_settle) simp_all
  next
    case (In_Confirmation a)
    show ?thesis
    proof (cases a)
      case (Answer r)
      show ?thesis using handle_ok [OF ok_settle [OF m]] ok_settle [OF m] Answer
        unfolding In_Confirmation perform.simps confirmation_answered_def by auto
    next
      case (Fails msg)
      then show ?thesis using ok_settle [OF m]
        unfolding In_Confirmation perform.simps confirmation_answered_def by simp
    qed
  qed (use m in \<open>simp_all add: start_ok cancel_ok start_polling_ok stop_ok poll_ok confirm_ok shutdown_ok
      start_fresh_ok ok_settle\<close>)
qed

text \<open>A certificate after consent, in a history.\<close>

definition granted :: "pairing_input list \<Rightarrow> bool" where
  "granted xs \<longleftrightarrow> (\<exists>pre x post. xs = pre @ x # post \<and> certifies x \<and> (\<exists>y \<in> set pre. consents y))"

lemma granted_snoc: "granted xs \<or> (\<exists>y \<in> set xs. consents y) \<and> certifies x \<Longrightarrow> granted (xs @ [x])"
  unfolding granted_def by fastforce

lemma ok_weaken: "pairing_ok cfg c d s \<Longrightarrow> (c \<longrightarrow> c') \<Longrightarrow> (d \<longrightarrow> d') \<Longrightarrow> pairing_ok cfg c' d' s"
  unfolding pairing_ok_def base_ok_def session_ok_def by blast

lemma reach_ok: "pairing_reach cfg xs s \<Longrightarrow> pairing_ok cfg (\<exists>y \<in> set xs. consents y) (granted xs) s"
proof (induction rule: pairing_reach.induct)
  case (reach_new now)
  then show ?case by (simp add: pairing_ok_def base_ok_def live_ok_def bound_ok_def new_manager_def)
next
  case (reach_step xs s x)
  from perform_ok [OF reach_step.IH reach_step.hyps(2)] show ?case
    by (rule ok_weaken) (auto simp: granted_snoc)
qed

section \<open>Properties of every run\<close>


definition sample_config :: manager_config where
  "sample_config = \<lparr>mc_options = DEFAULT_MANAGER_OPTIONS, mc_limits = DEFAULT_RATE_LIMITER_CONFIG,
     mc_identity = \<lparr>di_deviceId = ''d'', di_gatewayId = ''g'', di_fingerprintHex = ''ff'',
       di_fingerprintWords = [''oak''], di_fingerprintShort = ''F'', di_qrPayload = ''q''\<rparr>\<rparr>"

abbreviation plain_start :: start_options where
  "plain_start \<equiv> \<lparr>so_ttlMs = None, so_maxRetries = None, so_endpoint = None, so_userIdHint = None\<rparr>"

abbreviation trusted :: "pairing_response answer" where
  "trusted \<equiv> Answer \<lparr>pr_success = True, pr_deviceTrusted = True, pr_requiresConfirm = False,
     pr_expiresInSeconds = None, pr_message = ''ok'', pr_error = None, pr_sessionId = None\<rparr>"

definition pairing_run :: "pairing_input list" where
  "pairing_run = [In_Client True, In_Start plain_start [0, 1, 2, 3, 4, 5, 6, 7] ''1'', In_Start_Polling,
     In_Poll, In_Status trusted, In_Certificate 0 (Answer ''t'')]"


text \<open>
  C19: In every reachable state the manager has no session or one that is still under way, never one
  that has ended; a session expires exactly its lifetime after it was made, no session was refused
  more often than its retries allow, and polling, while it is on, is within its bound.
\<close>

theorem manager_invariant:
  assumes "pairing_reach cfg xs s"
  shows "getState s \<notin> {Ps_Paired, Ps_Expired, Ps_Cancelled, Ps_Error} \<and>
    (getState s = Ps_Idle) = (pm_current s = None) \<and>
    list_all (\<lambda>p. pn_expiresAt p = pn_createdAt p + pn_ttlMs p \<and> pn_retryCount p \<le> pn_maxRetries p) (pm_sessions s) \<and>
    (if pm_polling s then pm_pollAttempts s < max 1 (mo_maxPollAttempts (mc_options cfg)) else True)"
proof -
  have ok: "base_ok (\<exists>y \<in> set xs. consents y) (granted xs) s" "live_ok s" "bound_ok cfg s"
    using reach_ok [OF assms] by (simp_all add: pairing_ok_def)
  have "list_all (\<lambda>p. pn_expiresAt p = pn_createdAt p + pn_ttlMs p \<and> pn_retryCount p \<le> pn_maxRetries p) (pm_sessions s)"
    using ok(1) unfolding base_ok_def session_ok_def list_all_iff by blast
  moreover have "getState s \<notin> {Ps_Paired, Ps_Expired, Ps_Cancelled, Ps_Error} \<and> (getState s = Ps_Idle) = (pm_current s = None)"
    using ok(2) by (cases "pm_current s") (auto simp: getState_def current_session_def live_ok_def live_state_def)
  ultimately show ?thesis using ok(3) by (simp add: bound_ok_def)
qed

theorem manager_invariant_witness:
  "getState (the (run_pairing sample_config (new_manager 0) pairing_run)) = Ps_Idle"
proof -
  let ?s = "the (run_pairing sample_config (new_manager 0) pairing_run)"
  have r: "run_pairing sample_config (new_manager 0) pairing_run = Some ?s" by code_simp
  have "pm_current ?s = None" by code_simp
  with manager_invariant [OF run_from_new [OF r]] show ?thesis by blast
qed

section \<open>Polling ends\<close>

lemma poll_off: "\<not> pm_polling s \<Longrightarrow> \<not> pm_polling (pollOnce cfg s)"
  by (auto simp: pollOnce_def Let_def split: option.split)

lemma poll_on:
  "pm_polling (pollOnce cfg s) \<Longrightarrow> pm_pollAttempts (pollOnce cfg s) = Suc (pm_pollAttempts s) \<and>
     Suc (pm_pollAttempts s) < mo_maxPollAttempts (mc_options cfg)"
  by (auto simp: pollOnce_def Let_def split: option.splits if_splits)

lemma polls_on:
  "pm_polling ((pollOnce cfg ^^ n) s) \<Longrightarrow> pm_pollAttempts ((pollOnce cfg ^^ n) s) = pm_pollAttempts s + n \<and>
     (n = 0 \<or> pm_pollAttempts s + n < mo_maxPollAttempts (mc_options cfg))"
proof (induction n)
  case (Suc n)
  let ?t = "(pollOnce cfg ^^ n) s"
  have on: "pm_polling (pollOnce cfg ?t)" using Suc.prems by simp
  then have "pm_polling ?t" using poll_off by blast
  from Suc.IH [OF this] poll_on [OF on] show ?case by simp
qed simp

text \<open>
  The poll timer cannot go on for ever: from any state, and without any answer from the control
  plane, as many ticks as the configured bound switch it off.
\<close>

theorem polling_stops:
  assumes "0 < n" "mo_maxPollAttempts (mc_options cfg) \<le> n"
  shows "\<not> pm_polling ((perform cfg In_Poll ^^ n) s)"
proof -
  have eq: "perform cfg In_Poll = pollOnce cfg" by (rule ext) simp
  show ?thesis unfolding eq using polls_on [of n cfg s] assms by linarith
qed

theorem polling_stops_witness:
  "\<not> pm_polling ((perform sample_config In_Poll ^^ 150) (new_manager 0\<lparr>pm_polling := True\<rparr>))"
proof -
  have "(0::nat) < 150" "mo_maxPollAttempts (mc_options sample_config) \<le> 150"
    by (simp_all add: sample_config_def DEFAULT_MANAGER_OPTIONS_def)
  from polling_stops [OF this] show ?thesis by blast
qed

section \<open>The number of codes\<close>

definition times_of :: "pairing_manager \<Rightarrow> int list \<times> int list \<times> int" where
  "times_of s = (map pn_createdAt (pm_sessions s), pl_codeTimes (pm_limiter s), pm_clock s)"

definition window_ok :: "pairing_config \<Rightarrow> int list \<times> int list \<times> int \<Rightarrow> bool" where
  "window_ok c x \<longleftrightarrow> (case x of (made, gen, now) \<Rightarrow>
     (\<forall>t \<ge> now. filter (\<lambda>x. t - x < pg_windowMs c) gen = filter (\<lambda>x. t - x < pg_windowMs c) made) \<and>
     (\<forall>T. length (filter (\<lambda>x. T - x < pg_windowMs c \<and> x \<le> T) made) \<le> pg_maxCodesPerWindow c))"

lemma times_emit [simp]: "times_of (emitEvent e s) = times_of s"
  by (simp add: times_of_def)

lemma times_stop [simp]: "times_of (stopPolling s) = times_of s"
  by (simp add: times_of_def)

lemma times_settle [simp]: "times_of (settle k s) = times_of s"
  by (simp add: times_of_def)

lemma times_modify: "(\<And>p. pn_createdAt (f p) = pn_createdAt p) \<Longrightarrow> times_of (modify_session i f s) = times_of s"
  by (cases "i < length (pm_sessions s)")
    (simp_all add: times_of_def modify_session_def map_update list_update_beyond
      list_update_same_conv [of i "map pn_createdAt (pm_sessions s)", simplified])

lemma times_modify_current: "(\<And>p. pn_createdAt (f p) = pn_createdAt p) \<Longrightarrow> times_of (modify_current f s) = times_of s"
  by (simp add: modify_current_def times_modify split: option.split)

lemma times_update [simp]: "times_of (updateState st s) = times_of s"
  by (simp add: updateState_def times_modify_current)

lemma times_fields [simp]:
  "times_of (s\<lparr>pm_current := x\<rparr>) = times_of s" "times_of (s\<lparr>pm_pending := y\<rparr>) = times_of s"
  "times_of (s\<lparr>pm_polling := b\<rparr>) = times_of s" "times_of (s\<lparr>pm_pollAttempts := n\<rparr>) = times_of s"
  "times_of (s\<lparr>pm_shuttingDown := b\<rparr>) = times_of s" "times_of (s\<lparr>pm_hasClient := b\<rparr>) = times_of s"
  "times_of (end_shutdown s) = times_of s"
  by (simp_all add: times_of_def end_shutdown_def cleanupPairing_def)

lemma times_cancel [simp]: "times_of (cancelPairing r s) = times_of s"
  by (simp add: cancelPairing_def Let_def times_modify_current split: option.split)

lemma times_start_polling [simp]: "times_of (snd (startPolling s)) = times_of s"
  by (simp add: startPolling_def Let_def split: option.split)

lemma times_handle [simp]: "times_of (handlePairingSuccess s) = times_of s"
  by (simp add: handlePairingSuccess_def Let_def split: option.split)

lemma times_poll [simp]: "times_of (pollOnce cfg s) = times_of s"
  by (simp add: pollOnce_def Let_def split: option.split)

lemma times_status [simp]: "times_of (status_answered a s) = times_of s"
  by (cases a) (simp_all add: status_answered_def Let_def times_modify_current split: option.split)

lemma times_confirm [simp]: "times_of (snd (confirmFingerprintManually s)) = times_of s"
  by (simp add: confirmFingerprintManually_def Let_def times_modify_current split: option.split)

lemma times_confirmation [simp]: "times_of (confirmation_answered a s) = times_of s"
  by (cases a) (simp_all add: confirmation_answered_def)

lemma times_certificate [simp]: "times_of (certificate_answered i a s) = times_of s"
  by (cases a) (simp_all add: certificate_answered_def Let_def times_modify)

lemma times_shutdown [simp]: "times_of (shutdown_manager s) = times_of s"
  by (simp add: shutdown_manager_def Let_def)

lemma window_generation:
  assumes "window_ok c (made, gen, now)" "filter (\<lambda>x. now - x < pg_windowMs c) gen = recent"
  shows "window_ok c (made, recent, now)"
    and "length recent < pg_maxCodesPerWindow c \<Longrightarrow> window_ok c (made @ [now], recent @ [now], now)"
proof -
  let ?w = "pg_windowMs c"
  have recent: "recent = filter (\<lambda>x. now - x < ?w) made" using assms unfolding window_ok_def by auto
  have keep: "filter (\<lambda>x. t - x < ?w) recent = filter (\<lambda>x. t - x < ?w) made" if "t \<ge> now" for t
    unfolding recent using that by (intro filter_filter_mono) auto
  then show "window_ok c (made, recent, now)" using assms(1) unfolding window_ok_def by simp
  assume less: "length recent < pg_maxCodesPerWindow c"
  have "length (filter (\<lambda>x. T - x < ?w \<and> x \<le> T) (made @ [now])) \<le> pg_maxCodesPerWindow c" for T
  proof (cases "now \<le> T")
    case True
    have "length (filter (\<lambda>x. T - x < ?w \<and> x \<le> T) made) \<le> length recent"
      unfolding recent using True by (intro length_filter_mono) auto
    with less show ?thesis by simp
  next
    case False
    then show ?thesis using assms(1) unfolding window_ok_def by simp
  qed
  with keep show "window_ok c (made @ [now], recent @ [now], now)" unfolding window_ok_def by simp
qed

lemma window_start_fresh:
  assumes "window_ok (mc_limits cfg) (times_of s)"
  shows "window_ok (mc_limits cfg) (times_of (snd (start_fresh cfg opt random rid s)))"
proof -
  let ?recent = "filter (\<lambda>t. pm_clock s - t < pg_windowMs (mc_limits cfg)) (pl_codeTimes (pm_limiter s))"
  let ?lim = "(pm_limiter s)\<lparr>pl_codeTimes := ?recent\<rparr>"
  have can: "canGenerateCode (mc_limits cfg) (pm_clock s) (pm_limiter s) =
      (length ?recent < pg_maxCodesPerWindow (mc_limits cfg), ?lim)"
    by (simp add: canGenerateCode_def Let_def)
  note w = window_generation [OF assms [unfolded times_of_def] refl]
  show ?thesis
  proof (cases "length ?recent < pg_maxCodesPerWindow (mc_limits cfg)")
    case False
    with w(1) can show ?thesis by (simp add: start_fresh_def times_of_def)
  next
    case True
    let ?ttl = "case so_ttlMs opt of None \<Rightarrow> DEFAULT_PAIRING_TTL_MS | Some t \<Rightarrow> t"
    let ?s = "updateState Ps_Generating_Code (s\<lparr>pm_limiter := ?lim\<rparr>)"
    let ?p = "new_session cfg opt (''pair_'' @ rid) (createPairingCode (pm_clock s) random
      (di_deviceId (mc_identity cfg)) (di_fingerprintHex (mc_identity cfg)) ?ttl) ?ttl"
    let ?t = "?s\<lparr>pm_limiter := recordCodeGeneration (pm_clock s) ?lim, pm_sessions := pm_sessions ?s @ [?p],
      pm_current := Some (length (pm_sessions s))\<rparr>"
    have "times_of ?s = times_of (s\<lparr>pm_limiter := ?lim\<rparr>)" by simp
    then have "map pn_createdAt (pm_sessions ?s) = map pn_createdAt (pm_sessions s)" by (simp add: times_of_def)
    moreover have "pn_createdAt ?p = pm_clock s" by (simp add: new_session_def createPairingCode_def Let_def)
    ultimately have "times_of ?t = (map pn_createdAt (pm_sessions s) @ [pm_clock s], ?recent @ [pm_clock s], pm_clock s)"
      by (simp add: times_of_def recordCodeGeneration_def)
    then have "window_ok (mc_limits cfg) (times_of ?t)" using w(2) [OF True] by simp
    with True can show ?thesis by (simp add: start_fresh_def Let_def)
  qed
qed

lemma window_perform:
  assumes "window_ok (mc_limits cfg) (times_of s)" "enabled s x"
  shows "window_ok (mc_limits cfg) (times_of (perform cfg x s))"
proof (cases x)
  case (In_Clock t)
  then show ?thesis using assms by (auto simp: times_of_def window_ok_def)
next
  case (In_Start opt random rid)
  have "window_ok (mc_limits cfg) (times_of (snd (startPairing cfg opt random rid s)))"
    using assms(1) window_start_fresh [OF assms(1)]
    by (simp add: startPairing_def Let_def split: option.split)
  then show ?thesis unfolding In_Start by simp
next
  case (In_Cancelled opt random rid)
  then show ?thesis using window_start_fresh [of cfg "settle (Await_Cancelled opt) s"] assms(1) by simp
qed (use assms(1) in simp_all)

text \<open>
  However starting, cancelling, expiry and answers interleave, the codes made by the manager obey
  the limit: at no time are more sessions than \<open>maxCodesPerWindow\<close> younger than a window.
\<close>

theorem sessions_within_limit:
  assumes "pairing_reach cfg xs s"
  shows "length (filter (\<lambda>p. T - pn_createdAt p < pg_windowMs (mc_limits cfg) \<and> pn_createdAt p \<le> T) (pm_sessions s))
    \<le> pg_maxCodesPerWindow (mc_limits cfg)"
proof -
  have "window_ok (mc_limits cfg) (times_of s)" using assms
  proof (induction rule: pairing_reach.induct)
    case (reach_new now)
    then show ?case by (simp add: window_ok_def times_of_def new_manager_def)
  qed (rule window_perform)
  then show ?thesis by (simp add: window_ok_def times_of_def filter_map comp_def)
qed

theorem sessions_within_limit_witness:
  "length (filter (\<lambda>p. 9 - pn_createdAt p < 300000 \<and> pn_createdAt p \<le> 9)
     (pm_sessions (the (run_pairing sample_config (new_manager 0) pairing_run)))) \<le> 5"
proof -
  let ?s = "the (run_pairing sample_config (new_manager 0) pairing_run)"
  have r: "run_pairing sample_config (new_manager 0) pairing_run = Some ?s" by code_simp
  from sessions_within_limit [OF run_from_new [OF r], of 9] show ?thesis
    by (simp add: sample_config_def DEFAULT_RATE_LIMITER_CONFIG_def)
qed

section \<open>Late answers\<close>

text \<open>
  A request for a certificate keeps a reference to its session, and whatever session is current when
  the answer arrives is dropped.
\<close>

definition late_certificate :: "pairing_input list" where
  "late_certificate = [In_Client True, In_Start plain_start [0, 1, 2, 3, 4, 5, 6, 7] ''1'', In_Start_Polling,
     In_Poll, In_Status trusted, In_Cancel None, In_Start plain_start [7, 6, 5, 4, 3, 2, 1, 0] ''2'',
     In_Start_Polling, In_Certificate 0 (Answer ''t'')]"

text \<open>
  A certificate that arrives late undoes a cancellation: the run in which the user cancels while
  the certificate is requested and starts again ends with the cancelled session paired and the new
  one, still waiting and still polled for, no longer current.
\<close>

theorem late_certificate_drops_new_session:
  "\<exists>s. pairing_reach sample_config late_certificate s \<and>
     map pn_state (pm_sessions s) = [Ps_Paired, Ps_Awaiting_Fingerprint_Confirm] \<and>
     map (\<lambda>p. pn_cancelledAt p \<noteq> None) (pm_sessions s) = [True, False] \<and>
     pm_current s = None \<and> pm_polling s"
proof -
  let ?s = "the (run_pairing sample_config (new_manager 0) late_certificate)"
  have r: "run_pairing sample_config (new_manager 0) late_certificate = Some ?s" by code_simp
  have "map pn_state (pm_sessions ?s) = [Ps_Paired, Ps_Awaiting_Fingerprint_Confirm]"
    "map (\<lambda>p. pn_cancelledAt p \<noteq> None) (pm_sessions ?s) = [True, False]" "pm_current ?s = None" "pm_polling ?s"
    by code_simp+
  with run_from_new [OF r] show ?thesis by (intro exI [of _ ?s] conjI)
qed

end
