(* ===== verification/Dates.thy ===== *)
theory Dates
  imports Prelude
begin

text \<open>
  Times: a \<open>Date\<close> is its number of milliseconds; its UTC fields are computed in the proleptic Gregorian
  calendar, its ISO text is that of \<open>toISOString\<close> for the years 0 to 9999.
\<close>

text \<open>The UTC fields of a \<open>Date\<close>; months count from 1.\<close>

record utc_time =
  ut_year :: nat
  ut_month :: nat
  ut_day :: nat
  ut_hours :: nat
  ut_minutes :: nat
  ut_seconds :: nat

definition pad2 :: "nat \<Rightarrow> string" where
  "pad2 n = (let s = show_nat n in replicate (2 - length s) (CHR ''0'') @ s)"

text \<open>The UTC fields of a time in milliseconds (proleptic Gregorian calendar).\<close>

definition utc_fields :: "int \<Rightarrow> utc_time" where
  "utc_fields t =
     (let s = t div 1000; days = s div 86400; r = s mod 86400;
          z = days + 719468; era = z div 146097; doe = z mod 146097;
          yoe = (doe - doe div 1460 + doe div 36524 - doe div 146096) div 365;
          doy = doe - (365 * yoe + yoe div 4 - yoe div 100);
          mp = (5 * doy + 2) div 153; d = doy - (153 * mp + 2) div 5 + 1;
          m = (if mp < 10 then mp + 3 else mp - 9);
          y = yoe + era * 400 + (if m \<le> 2 then 1 else 0)
      in \<lparr>ut_year = nat y, ut_month = nat m, ut_day = nat d, ut_hours = nat (r div 3600),
          ut_minutes = nat (r mod 3600 div 60), ut_seconds = nat (r mod 60)\<rparr>)"

definition pad_left :: "nat \<Rightarrow> nat \<Rightarrow> string" where
  "pad_left k n = (let s = show_nat n in replicate (k - length s) (CHR ''0'') @ s)"

definition toISOString :: "int \<Rightarrow> string" where
  "toISOString t =
     (let d = utc_fields t in
      pad_left 4 (ut_year d) @ ''-'' @ pad2 (ut_month d) @ ''-'' @ pad2 (ut_day d) @ ''T'' @
      pad2 (ut_hours d) @ '':'' @ pad2 (ut_minutes d) @ '':'' @ pad2 (ut_seconds d) @ ''.'' @
      pad_left 3 (nat (t mod 1000)) @ ''Z'')"

lemma epoch_fields:
  "utc_fields 0 = \<lparr>ut_year = 1970, ut_month = 1, ut_day = 1, ut_hours = 0, ut_minutes = 0, ut_seconds = 0\<rparr>"
  by code_simp

end
