(* ===== verification/Der.thy ===== *)
theory Der
  imports Dates "HOL-Library.Word"
begin

text \<open>
  The DER encoder of the certificate authority (\<open>gateway/certificate/src/ca.ts\<close>).  A \<open>Buffer\<close> is a
  list of bytes, \<open>8 word\<close>; \<open>Buffer.from\<close> keeps the low eight bits of a number, as \<open>word_of_nat\<close>
  does.  The code only writes; the reader here states what was written.  Characters are code points
  below 256.
\<close>

unbundle bit_operations_syntax

type_synonym bytes = "8 word list"

section \<open>Tag, length, value\<close>

definition derLength :: "nat \<Rightarrow> bytes" where
  "derLength len =
     (if len < 0x80 then [word_of_nat len]
      else if len < 0x100 then [0x81, word_of_nat len]
      else [0x82, word_of_nat (drop_bit 8 len AND 0xff), word_of_nat (len AND 0xff)])"

definition derWrap :: "8 word \<Rightarrow> bytes \<Rightarrow> bytes" where
  "derWrap tag data = tag # derLength (length data) @ data"

definition derSeq :: "bytes \<Rightarrow> bytes" where
  "derSeq data = derWrap 0x30 data"

definition derSet :: "bytes \<Rightarrow> bytes" where
  "derSet data = derWrap 0x31 data"

fun strip_zeros :: "bytes \<Rightarrow> bytes" where
  "strip_zeros (b # c # bs) = (if b = 0 then strip_zeros (c # bs) else b # c # bs)"
| "strip_zeros bs = bs"

definition integer_content :: "bytes \<Rightarrow> bytes" where
  "integer_content buf =
     (let v = (if buf = [] then [0] else strip_zeros buf)
      in if hd v \<ge> 0x80 then 0 # v else v)"

definition encodePositiveDerInteger :: "bytes \<Rightarrow> bytes" where
  "encodePositiveDerInteger buf = derWrap 0x02 (integer_content buf)"

definition derBool :: "bool \<Rightarrow> bytes" where
  "derBool val = [0x01, 0x01, if val then 0xff else 0x00]"

definition derOctetStr :: "bytes \<Rightarrow> bytes" where
  "derOctetStr data = derWrap 0x04 data"

definition derBitStr :: "bytes \<Rightarrow> bytes" where
  "derBitStr data = derWrap 0x03 (0x00 # data)"

definition derNull :: bytes where
  "derNull = [0x05, 0x00]"

definition derExplicit :: "8 word \<Rightarrow> bytes \<Rightarrow> bytes" where
  "derExplicit tag data = derWrap (0xa0 OR tag) data"

text \<open>\<open>Buffer.from\<close> of a string is its UTF-8 form.\<close>

definition utf8_char :: "char \<Rightarrow> bytes" where
  "utf8_char c = (let n = of_char c :: nat in
     if n < 128 then [word_of_nat n] else [word_of_nat (192 + n div 64), word_of_nat (128 + n mod 64)])"

definition utf8 :: "string \<Rightarrow> bytes" where
  "utf8 s = concat (map utf8_char s)"

definition derUtf8String :: "string \<Rightarrow> bytes" where
  "derUtf8String s = derWrap 0x0c (utf8 s)"

section \<open>Object identifiers\<close>

definition to_number :: "string \<Rightarrow> nat" where
  "to_number s = foldl (\<lambda>n c. 10 * n + (of_char c - 48)) 0 s"

text \<open>The loop \<open>while (v > 0)\<close>, which puts seven bits at a time in front.\<close>

function high_digits :: "nat \<Rightarrow> bytes \<Rightarrow> bytes" where
  "high_digits v e =
     (if v > 0 then high_digits (drop_bit 7 v) (word_of_nat ((v AND 0x7f) OR 0x80) # e) else e)"
  by auto
termination
  by (relation "measure fst") (auto simp: drop_bit_eq_div)

declare high_digits.simps [simp del]

text \<open>
  The first \<open>v >>= 7\<close> is a shift of a signed 32-bit integer; a negative one ends the loop before it
  starts, as 0 does.
\<close>

definition int32_shr7 :: "nat \<Rightarrow> nat" where
  "int32_shr7 v = (let w = v mod 2 ^ 32 in if w < 2 ^ 31 then drop_bit 7 w else 0)"

definition oid_arc :: "nat \<Rightarrow> bytes" where
  "oid_arc v = high_digits (int32_shr7 v) [word_of_nat (v AND 0x7f)]"

definition oid_content :: "nat list \<Rightarrow> bytes" where
  "oid_content parts =
     word_of_nat (parts ! 0 * 40 + parts ! 1) # concat (map oid_arc (drop 2 parts))"

definition derOid :: "string \<Rightarrow> bytes" where
  "derOid str =
     (let bytes = oid_content (map to_number (js_split (CHR ''.'') str))
      in 0x06 # word_of_nat (length bytes) # bytes)"

definition derAlgId :: "string \<Rightarrow> bytes" where
  "derAlgId algOid =
     (if algOid \<in> {''1.2.840.10045.4.3.2'', ''1.2.840.10045.4.3.1'', ''1.2.840.10045.4.3.3''}
      then derSeq (derOid algOid)
      else derSeq (derOid algOid @ derNull))"

section \<open>Times\<close>

definition last2 :: "string \<Rightarrow> string" where
  "last2 s = drop (length s - 2) s"

definition utc_text :: "utc_time \<Rightarrow> string" where
  "utc_text d = last2 (show_nat (ut_year d)) @ pad2 (ut_month d) @ pad2 (ut_day d) @
     pad2 (ut_hours d) @ pad2 (ut_minutes d) @ pad2 (ut_seconds d) @ ''Z''"

definition derUtcTime :: "utc_time \<Rightarrow> bytes" where
  "derUtcTime d = (let s = utc_text d in 0x17 # word_of_nat (length s) # utf8 s)"

section \<open>Extensions\<close>

definition KU_DIGITAL_SIGNATURE :: "8 word" where "KU_DIGITAL_SIGNATURE = 0x80"
definition KU_KEY_ENCIPHERMENT :: "8 word" where "KU_KEY_ENCIPHERMENT = 0x20"
definition KU_KEY_CERT_SIGN :: "8 word" where "KU_KEY_CERT_SIGN = 0x04"
definition KU_CRL_SIGN :: "8 word" where "KU_CRL_SIGN = 0x02"

definition last_set_bit :: "8 word \<Rightarrow> nat" where
  "last_set_bit bits = foldl (\<lambda>m i. if bits AND drop_bit i 0x80 \<noteq> 0 then i else m) 0 [0..<8]"

definition derKeyUsageBitString :: "8 word \<Rightarrow> bytes" where
  "derKeyUsageBitString bits =
     (if bits = 0 then [0x03, 0x01, 0x00]
      else (let unused = 7 - last_set_bit bits
            in [0x03, 0x02, word_of_nat unused, bits AND push_bit unused 0xff]))"

definition derExtension :: "string \<Rightarrow> bytes \<Rightarrow> bool \<Rightarrow> bytes" where
  "derExtension oid val critical =
     derSeq (derOid oid @ (if critical then derBool True else []) @ derOctetStr val)"

definition derExtensions :: "bool \<Rightarrow> bytes" where
  "derExtensions isCA =
     (let bc = (if isCA then derSeq (derBool True @ encodePositiveDerInteger [0x01]) else derSeq []);
          ku = (if isCA then KU_KEY_CERT_SIGN OR KU_CRL_SIGN else KU_DIGITAL_SIGNATURE OR KU_KEY_ENCIPHERMENT)
      in derSeq (derExtension ''2.5.29.19'' bc True @ derExtension ''2.5.29.15'' (derKeyUsageBitString ku) True))"

section \<open>Names\<close>

text \<open>A distinguished name as the object it is: attributes in the order they were set.\<close>

type_synonym dn = "(string, string) jmap"

definition OID_MAP :: "(string, string) jmap" where
  "OID_MAP = [(''CN'', ''2.5.4.3''), (''O'', ''2.5.4.10''), (''OU'', ''2.5.4.11''), (''C'', ''2.5.4.6''),
     (''ST'', ''2.5.4.8''), (''L'', ''2.5.4.7''), (''emailAddress'', ''1.2.840.113549.1.9.1''),
     (''UID'', ''0.9.2342.19200300.100.1.1'')]"

definition derName :: "dn \<Rightarrow> bytes" where
  "derName dn = derSeq (concat (map (\<lambda>(attr, val).
     if val = [] then []
     else derSet (derSeq (derOid (case map_of OID_MAP attr of None \<Rightarrow> ''2.5.4.3'' | Some d \<Rightarrow> d) @ derUtf8String val))) dn))"

definition DN_ATTRIBUTE_KEYS :: "string list" where
  "DN_ATTRIBUTE_KEYS = [''CN'', ''O'', ''OU'', ''C'', ''ST'', ''L'', ''emailAddress'', ''UID'']"

text \<open>\<open>String.split\<close> with a separator of several characters.\<close>

function split_on :: "string \<Rightarrow> string \<Rightarrow> string list" where
  "split_on sep s =
     (case index_of sep s of
        None \<Rightarrow> [s]
      | Some i \<Rightarrow> if sep = [] then [s] else take i s # split_on sep (drop (i + length sep) s))"
  by auto
termination
proof (relation "measure (length \<circ> snd)")
  show "wf (measure (length \<circ> snd))" by simp
  fix sep s :: string and i
  assume i: "index_of sep s = Some i" and sep: "sep \<noteq> []"
  have "i + length sep \<le> length s" by (rule index_of_le [OF i])
  moreover have "0 < length sep" using sep by simp
  ultimately have "length s - (i + length sep) < length s" by linarith
  then show "((sep, drop (i + length sep) s), (sep, s)) \<in> measure (length \<circ> snd)" by simp
qed

declare split_on.simps [simp del]

definition parse_part :: "dn \<Rightarrow> string \<Rightarrow> dn" where
  "parse_part result part =
     (case js_split (CHR ''='') part of
        key # valParts \<Rightarrow>
          if key \<in> set DN_ATTRIBUTE_KEYS \<and> valParts \<noteq> [] then AList.update key (js_join ''='' valParts) result
          else result
      | [] \<Rightarrow> result)"

definition parseDnString :: "string \<Rightarrow> dn" where
  "parseDnString dn = foldl parse_part [] (split_on '', '' dn)"

section \<open>Reading what was written\<close>

fun read_length :: "bytes \<Rightarrow> (nat \<times> bytes) option" where
  "read_length [] = None"
| "read_length (b # bs) =
     (if b < 0x80 then Some (unat b, bs)
      else if b = 0x81 then (case bs of x # r \<Rightarrow> Some (unat x, r) | _ \<Rightarrow> None)
      else if b = 0x82 then (case bs of x # y # r \<Rightarrow> Some (unat x * 256 + unat y, r) | _ \<Rightarrow> None)
      else None)"

definition read_tlv :: "bytes \<Rightarrow> (8 word \<times> bytes \<times> bytes) option" where
  "read_tlv bs =
     (case bs of [] \<Rightarrow> None
      | tag # r \<Rightarrow> (case read_length r of None \<Rightarrow> None
          | Some (n, r) \<Rightarrow> if n \<le> length r then Some (tag, take n r, drop n r) else None))"

lemma unat_byte: "unat (word_of_nat n :: 8 word) = n mod 256"
  by (simp add: unat_of_nat)

lemma byte_and: "(n AND 0xff :: nat) = n mod 256"
  using take_bit_eq_mask [of 8 n] by (simp add: take_bit_eq_mod mask_eq_exp_minus_1)

lemma read_derLength:
  assumes "n < 65536" shows "read_length (derLength n @ rest) = Some (n, rest)"
proof -
  consider "n < 128" | "128 \<le> n" "n < 256" | "256 \<le> n" by linarith
  then show ?thesis
  proof cases
    case 1
    then have "unat (word_of_nat n :: 8 word) = n" by (simp add: unat_byte)
    moreover from this 1 have "(word_of_nat n :: 8 word) < 0x80" by (simp add: word_less_nat_alt)
    ultimately show ?thesis using 1 by (simp add: derLength_def)
  next
    case 2
    then show ?thesis by (simp add: derLength_def unat_byte)
  next
    case 3
    have "drop_bit 8 n AND 0xff = n div 256 mod 256" "n AND 0xff = n mod 256"
      by (simp_all add: byte_and drop_bit_eq_div)
    moreover have "n div 256 mod 256 * 256 + n mod 256 = n" using assms by simp
    ultimately show ?thesis using 3 by (simp add: derLength_def unat_byte)
  qed
qed

lemma read_derWrap:
  assumes "length data < 65536" shows "read_tlv (derWrap tag data @ rest) = Some (tag, data, rest)"
  using read_derLength [OF assms, of "data @ rest"] by (simp add: read_tlv_def derWrap_def)

text \<open>
  C20: A value of less than 65536 bytes is read back: from a wrapped value, followed by anything, a
  reader gets the tag, the value and what follows.  From 65536 bytes on the length is cut to 16 bits.
\<close>

theorem der_roundtrip:
  "read_tlv (derWrap tag data @ rest) =
     (if length data < 65536 then Some (tag, data, rest)
      else Some (tag, take (length data mod 65536) data, drop (length data mod 65536) data @ rest))"
proof (cases "length data < 65536")
  case True
  then show ?thesis by (simp add: read_derWrap)
next
  case False
  let ?n = "length data"
  have "drop_bit 8 ?n AND 0xff = ?n div 256 mod 256" "?n AND 0xff = ?n mod 256"
    by (simp_all add: byte_and drop_bit_eq_div)
  moreover have "?n div 256 mod 256 * 256 + ?n mod 256 = ?n mod 65536"
    using mod_mult2_eq [of ?n 256 256] by simp
  ultimately have "read_length (derLength ?n @ data @ rest) = Some (?n mod 65536, data @ rest)"
    using False by (simp add: derLength_def unat_byte)
  moreover have "?n mod 65536 \<le> ?n" by simp
  ultimately show ?thesis using False by (simp add: read_tlv_def derWrap_def)
qed

section \<open>Integers\<close>

fun number_of :: "bytes \<Rightarrow> nat" where
  "number_of [] = 0"
| "number_of (b # bs) = unat b * 256 ^ length bs + number_of bs"

lemma number_bound: "number_of bs < 256 ^ length bs"
proof (induction bs)
  case (Cons b bs)
  have "unat b \<le> 255" using unsigned_less [of b, where 'a = nat] by simp
  then have "unat b * 256 ^ length bs \<le> 255 * 256 ^ length bs" by (rule mult_le_mono1)
  with Cons.IH have "unat b * 256 ^ length bs + number_of bs < 255 * 256 ^ length bs + 256 ^ length bs"
    by (rule add_le_less_mono [rotated])
  then show ?case by simp
qed simp

lemma number_inj: "length xs = length ys \<Longrightarrow> number_of xs = number_of ys \<Longrightarrow> xs = ys"
proof (induction xs ys rule: list_induct2)
  case (Cons x xs y ys)
  let ?p = "256 ^ length xs :: nat"
  have eq: "unat x * ?p + number_of xs = unat y * ?p + number_of ys" using Cons.prems Cons.hyps by simp
  have bx: "number_of xs < ?p" and by': "number_of ys < ?p"
    using number_bound [of xs] number_bound [of ys] Cons.hyps by simp_all
  have "(unat x * ?p + number_of xs) div ?p = unat x" using bx by simp
  moreover have "(unat y * ?p + number_of ys) div ?p = unat y" using by' by simp
  ultimately have "unat x = unat y" using eq by simp
  then have "x = y" by (simp add: word_unat_eq_iff)
  with eq Cons.IH show ?case by simp
qed simp

lemma number_strip [simp]: "number_of (strip_zeros bs) = number_of bs"
  by (induction bs rule: strip_zeros.induct) simp_all

lemma strip_nonempty: "bs \<noteq> [] \<Longrightarrow> strip_zeros bs \<noteq> []"
  by (induction bs rule: strip_zeros.induct) simp_all

lemma strip_minimal: "length (strip_zeros bs) > 1 \<Longrightarrow> hd (strip_zeros bs) \<noteq> 0"
  by (induction bs rule: strip_zeros.induct) (auto split: if_splits)

definition stripped :: "bytes \<Rightarrow> bool" where
  "stripped bs \<longleftrightarrow> bs \<noteq> [] \<and> (length bs > 1 \<longrightarrow> hd bs \<noteq> 0)"

lemma stripped_low:
  assumes "stripped xs" "length xs > 1" shows "256 ^ (length xs - 1) \<le> number_of xs"
proof -
  obtain b bs where xs: "xs = b # bs" using assms(1) by (cases xs) (auto simp: stripped_def)
  have "b \<noteq> 0" using assms xs by (simp add: stripped_def)
  then have "1 \<le> unat b" by (simp add: Suc_le_eq unat_gt_0)
  then have "1 * 256 ^ length bs \<le> unat b * 256 ^ length bs" by (rule mult_le_mono1)
  then have "256 ^ length bs \<le> unat b * 256 ^ length bs + number_of bs" unfolding mult_1 by (rule trans_le_add1)
  then show ?thesis using xs by simp
qed

lemma stripped_length:
  assumes "stripped xs" "stripped ys" "number_of xs = number_of ys" shows "length xs \<le> length ys"
proof (rule ccontr)
  assume "\<not> length xs \<le> length ys"
  then have l: "length ys \<le> length xs - 1" "length xs > 1"
    using assms(2) by (cases ys; simp add: stripped_def)+
  have "number_of ys < 256 ^ length ys" by (rule number_bound)
  also have "\<dots> \<le> 256 ^ (length xs - 1)" using l(1) by (rule power_increasing) simp
  also have "\<dots> \<le> number_of xs" by (rule stripped_low [OF assms(1) l(2)])
  finally show False using assms(3) by simp
qed

lemma stripped_unique:
  "stripped xs \<Longrightarrow> stripped ys \<Longrightarrow> number_of xs = number_of ys \<Longrightarrow> xs = ys"
  by (intro number_inj antisym stripped_length) simp_all

text \<open>
  The integer encoding is canonical: the content is never negative, has no redundant leading zero,
  has the value of the buffer, and two buffers get the same encoding exactly when they are the same
  number, whatever zeros they begin with.
\<close>

theorem integer_encoding_canonical:
  "integer_content buf \<noteq> [] \<and> hd (integer_content buf) < 0x80 \<and>
   (length (integer_content buf) = 1 \<or> hd (integer_content buf) > 0 \<or> integer_content buf ! 1 \<ge> 0x80) \<and>
   number_of (integer_content buf) = number_of buf \<and>
   (integer_content buf = integer_content buf' \<longleftrightarrow> number_of buf = number_of buf')"
proof -
  let ?v = "\<lambda>buf. if buf = [] then [0] else strip_zeros buf"
  have st: "stripped (?v b)" for b
    using strip_nonempty strip_minimal by (simp add: stripped_def)
  have num: "number_of (?v b) = number_of b" for b by simp
  have content: "integer_content b = (if hd (?v b) \<ge> 0x80 then 0 # ?v b else ?v b)" for b
    by (simp add: integer_content_def Let_def)
  have val: "number_of (integer_content b) = number_of b" for b
    unfolding content using num [of b] by simp
  have "integer_content buf = integer_content buf'" if "number_of buf = number_of buf'"
  proof -
    have "?v buf = ?v buf'" using that num by (intro stripped_unique st) simp
    then show ?thesis unfolding content by simp
  qed
  moreover have "hd (integer_content buf) < 0x80" unfolding content by (simp add: not_le)
  moreover have "integer_content buf \<noteq> []" using st [of buf] unfolding content by (simp add: stripped_def)
  moreover have "length (integer_content buf) = 1 \<or> hd (integer_content buf) > 0 \<or> integer_content buf ! 1 \<ge> 0x80"
  proof (cases "hd (?v buf) \<ge> 0x80")
    case True
    then show ?thesis using st [of buf] unfolding content by (cases "?v buf") (simp_all add: stripped_def)
  next
    case False
    have "length (?v buf) = 1 \<or> length (?v buf) > 1" using st [of buf] by (cases "?v buf") (auto simp: stripped_def)
    then show ?thesis using False st [of buf] unfolding content stripped_def by (auto simp: word_gt_0)
  qed
  ultimately show ?thesis using val by metis
qed

section \<open>Object identifiers, read back\<close>

fun read_arcs :: "nat \<Rightarrow> bytes \<Rightarrow> nat list" where
  "read_arcs acc [] = []"
| "read_arcs acc (b # bs) =
     (let n = acc * 128 + unat b mod 128 in
      if b \<ge> 0x80 then read_arcs n bs else n # read_arcs 0 bs)"

definition read_oid :: "bytes \<Rightarrow> nat list" where
  "read_oid bs =
     (let n = unat (hd bs) in (if n < 40 then [0, n] else if n < 80 then [1, n - 40] else [2, n - 80]))
     @ read_arcs 0 (tl bs)"

lemma and_127: "(v AND 0x7f :: nat) = v mod 128"
  using take_bit_eq_mask [of 7 v] by (simp add: take_bit_eq_mod mask_eq_exp_minus_1)

lemma or_128: "m < 128 \<Longrightarrow> (m OR 0x80 :: nat) = m + 128"
proof -
  assume "m < 128"
  then have "\<not> bit m 7" by (simp add: bit_iff_odd)
  then have "m AND 2 ^ 7 = 0" unfolding and_exp_eq_0_iff_not_bit .
  from disjunctive_add_eq_or [OF this] show ?thesis by simp
qed

lemma high_digits_append: "high_digits v e = high_digits v [] @ e"
proof (induction v arbitrary: e rule: less_induct)
  case (less v)
  show ?case
  proof (cases "v > 0")
    case True
    then have smaller: "drop_bit 7 v < v" by (simp add: drop_bit_eq_div)
    have "high_digits v x = high_digits (drop_bit 7 v) [] @ word_of_nat ((v AND 0x7f) OR 0x80) # x" for x
      using True less [OF smaller, of "word_of_nat ((v AND 0x7f) OR 0x80) # x"]
      by (subst high_digits.simps) simp
    then show ?thesis by simp
  qed (simp add: high_digits.simps)
qed

lemma read_high_digits: "read_arcs 0 (high_digits v [] @ e) = read_arcs v e"
proof (induction v arbitrary: e rule: less_induct)
  case (less v)
  show ?case
  proof (cases "v > 0")
    case True
    let ?d = "word_of_nat ((v AND 0x7f) OR 0x80) :: 8 word"
    have "(v AND 0x7f) OR 0x80 = v mod 128 + 128" by (simp add: and_127 or_128)
    then have "unat ?d = (v mod 128 + 128) mod 256" using unat_byte [of "(v AND 0x7f) OR 0x80"] by (simp only:)
    moreover have "v mod 128 + 128 < 256" using mod_less_divisor [of 128 v] by linarith
    ultimately have d: "unat ?d = v mod 128 + 128" by simp
    then have high: "?d \<ge> 0x80" by (simp add: word_le_nat_alt)
    have "drop_bit 7 v < v" using True by (simp add: drop_bit_eq_div)
    then have "read_arcs 0 (high_digits (drop_bit 7 v) [] @ ?d # e) = read_arcs (drop_bit 7 v) (?d # e)"
      by (rule less)
    moreover have "drop_bit 7 v * 128 + unat ?d mod 128 = v" by (simp add: d drop_bit_eq_div)
    moreover have "high_digits v [] = high_digits (drop_bit 7 v) [] @ [?d]"
      using True by (subst high_digits.simps) (simp add: high_digits_append [of _ "[?d]"])
    ultimately show ?thesis using high by (simp add: Let_def)
  qed (simp add: high_digits.simps)
qed

lemma read_oid_arc:
  assumes "v < 2 ^ 31" shows "read_arcs 0 (oid_arc v @ rest) = v # read_arcs 0 rest"
proof -
  have shr: "int32_shr7 v = drop_bit 7 v" using assms by (simp add: int32_shr7_def Let_def)
  let ?b = "word_of_nat (v AND 0x7f) :: 8 word"
  have "v mod 128 < 256" using mod_less_divisor [of 128 v] by linarith
  then have b: "unat ?b = v mod 128" by (simp add: unat_byte and_127)
  then have low: "\<not> ?b \<ge> 0x80" by (simp add: word_le_nat_alt not_le)
  have "oid_arc v @ rest = high_digits (drop_bit 7 v) [] @ ?b # rest"
    unfolding oid_arc_def shr by (subst high_digits_append) simp
  then have "read_arcs 0 (oid_arc v @ rest) = read_arcs (drop_bit 7 v) (?b # rest)"
    by (simp only: read_high_digits)
  also have "\<dots> = v # read_arcs 0 rest" using low b by (simp add: Let_def drop_bit_eq_div)
  finally show ?thesis .
qed

lemma read_oid_arcs: "list_all (\<lambda>v. v < 2 ^ 31) vs \<Longrightarrow> read_arcs 0 (concat (map oid_arc vs)) = vs"
proof (induction vs)
  case (Cons v vs)
  then have "v < 2 ^ 31" "read_arcs 0 (concat (map oid_arc vs)) = vs" by simp_all
  then have "read_arcs 0 (oid_arc v @ concat (map oid_arc vs)) = v # vs"
    by (simp only: read_oid_arc)
  then show ?case by simp
qed simp

lemma read_oid_content:
  assumes "a < 2 \<and> b < 40 \<or> a = 2 \<and> b < 48" "list_all (\<lambda>v. v < 2 ^ 31) vs"
  shows "read_oid (oid_content (a # b # vs)) = a # b # vs"
proof -
  have "a * 40 + b < 128" using assms by linarith
  then have n: "unat (word_of_nat (a * 40 + b) :: 8 word) = a * 40 + b"
    unfolding unat_byte by simp
  have "read_oid (oid_content (a # b # vs)) =
      (let n = a * 40 + b in (if n < 40 then [0, n] else if n < 80 then [1, n - 40] else [2, n - 80])) @ vs"
    using n by (simp add: read_oid_def oid_content_def read_oid_arcs [OF assms(2)] del: of_nat_add of_nat_mult)
  moreover have "a = 0 \<or> a = 1 \<or> a = 2" using assms by auto
  ultimately show ?thesis using assms by (auto simp: Let_def)
qed

text \<open>
  An object identifier is read back: its arcs survive the base-128 digits and the tag and length
  around them, when the first two are legal, the others are below 2147483648 and the content is shorter
  than 128 bytes.
\<close>

theorem oid_roundtrip:
  assumes "map to_number (js_split (CHR ''.'') oid) = a # b # vs" "a < 2 \<and> b < 40 \<or> a = 2 \<and> b < 48"
    and "length (oid_content (a # b # vs)) < 128" "list_all (\<lambda>v. v < 2 ^ 31) vs"
  shows "\<exists>c. read_tlv (derOid oid @ rest) = Some (0x06, c, rest) \<and> read_oid c = a # b # vs"
proof -
  let ?c = "oid_content (a # b # vs)"
  have "derOid oid = derWrap 0x06 ?c"
    using assms(1,3) by (simp add: derOid_def derWrap_def derLength_def Let_def)
  moreover have "length ?c < 65536" using assms(3) by simp
  ultimately have "read_tlv (derOid oid @ rest) = Some (0x06, ?c, rest)" by (simp add: read_derWrap)
  then show ?thesis using read_oid_content [OF assms(2,4)] by blast
qed

theorem oid_roundtrip_witness:
  "\<exists>c. read_tlv (derOid ''1.2.840.1'' @ [7]) = Some (0x06, c, [7]) \<and> read_oid c = [1, 2, 840, 1]"
proof (rule oid_roundtrip)
  show "map to_number (js_split (CHR ''.'') ''1.2.840.1'') = 1 # 2 # [840, 1]" by code_simp
  show "(1::nat) < 2 \<and> (2::nat) < 40 \<or> (1::nat) = 2 \<and> (2::nat) < 48" by simp
  show "length (oid_content (1 # 2 # [840, 1])) < 128"
    by (simp add: oid_content_def oid_arc_def int32_shr7_def high_digits.simps drop_bit_eq_div)
  show "list_all (\<lambda>v. v < 2 ^ 31) [840, 1 :: nat]" by simp
qed

section \<open>Key usage\<close>

definition usage_ok :: "8 word \<Rightarrow> bool" where
  "usage_ok bits \<longleftrightarrow> (case derKeyUsageBitString bits of
     [tag, len, unused, value] \<Rightarrow> tag = 0x03 \<and> len = 2 \<and> value = bits \<and> unat unused < 8 \<and>
       bits AND push_bit (unat unused) 1 \<noteq> 0 \<and> bits AND mask (unat unused) = 0
   | other \<Rightarrow> other = [0x03, 0x01, 0x00] \<and> bits = 0)"

lemma usage_all: "list_all (\<lambda>n. usage_ok (word_of_nat n)) [0..<256]"
  by code_simp

text \<open>
  The key usage bit string loses no usage bit and counts exactly the padding: the value byte is the
  set of bits, and the bits after the last one set are the unused ones.
\<close>

theorem key_usage_exact: "usage_ok bits"
proof -
  have "unat bits < 256" using unsigned_less [of bits, where 'a = nat] by simp
  then have "unat bits \<in> set [0..<256]" by simp
  then have "usage_ok (word_of_nat (unat bits))" using usage_all [unfolded list_all_iff] by blast
  then show ?thesis by simp
qed

section \<open>Times, read back\<close>

text \<open>The reader's century: RFC 5280 puts the years of \<open>UTCTime\<close> between 1950 and 2049.\<close>

definition read2 :: "string \<Rightarrow> nat \<Rightarrow> nat" where
  "read2 s i = to_number (take 2 (drop i s))"

definition read_time :: "string \<Rightarrow> utc_time" where
  "read_time s = \<lparr>ut_year = (if read2 s 0 < 50 then 2000 + read2 s 0 else 1900 + read2 s 0),
     ut_month = read2 s 2, ut_day = read2 s 4, ut_hours = read2 s 6, ut_minutes = read2 s 8,
     ut_seconds = read2 s 10\<rparr>"

lemma two_digits: "n < 100 \<Longrightarrow> length (pad2 n) = 2 \<and> to_number (pad2 n) = n"
proof -
  assume n: "n < 100"
  show ?thesis
  proof (cases "n < 10")
    case True
    then show ?thesis by (simp add: pad2_def to_number_def)
  next
    case False
    then have "show_nat n = [char_of (48 + n div 10), char_of (48 + n mod 10)]"
      using n by (subst show_nat.simps, subst show_nat.simps) simp
    then show ?thesis using n by (simp add: pad2_def to_number_def)
  qed
qed

lemma show_four:
  assumes "1000 \<le> y" "y < 10000"
  shows "last2 (show_nat y) = [char_of (48 + y div 10 mod 10), char_of (48 + y mod 10)]"
proof -
  have "y div 10 div 10 \<ge> 10" "y div 10 \<ge> 10" using assms by simp_all
  then show ?thesis
    by (subst show_nat.simps, subst show_nat.simps) (simp add: last2_def)
qed

lemma last2_year:
  assumes "1000 \<le> y" "y < 10000"
  shows "length (last2 (show_nat y)) = 2 \<and> to_number (last2 (show_nat y)) = y mod 100"
proof -
  have "y div 10 mod 10 < 10" "y mod 10 < 10" by simp_all
  moreover have "10 * (y div 10 mod 10) + y mod 10 = y mod 100" using mod_mult2_eq [of y 10 10] by simp
  ultimately show ?thesis unfolding show_four [OF assms] by (simp add: to_number_def)
qed

definition time_ok :: "utc_time \<Rightarrow> bool" where
  "time_ok d \<longleftrightarrow> 1000 \<le> ut_year d \<and> ut_year d < 10000 \<and> ut_month d < 100 \<and> ut_day d < 100 \<and>
     ut_hours d < 100 \<and> ut_minutes d < 100 \<and> ut_seconds d < 100"

lemma read_utc_text:
  assumes "time_ok d"
  shows "read2 (utc_text d) 0 = ut_year d mod 100" "ut_month (read_time (utc_text d)) = ut_month d"
    "ut_day (read_time (utc_text d)) = ut_day d" "ut_hours (read_time (utc_text d)) = ut_hours d"
    "ut_minutes (read_time (utc_text d)) = ut_minutes d" "ut_seconds (read_time (utc_text d)) = ut_seconds d"
  using assms last2_year [of "ut_year d"] two_digits
  by (simp_all add: time_ok_def read_time_def read2_def utc_text_def)

lemma century: "(if y mod 100 < 50 then 2000 + y mod 100 else 1900 + y mod 100) = y \<longleftrightarrow> 1950 \<le> y \<and> y < (2050 :: nat)"
proof -
  have y: "y = 100 * (y div 100) + y mod 100" "y mod 100 < 100" by simp_all
  have "(if m < 50 then 2000 + m else 1900 + m) = 100 * q + m \<longleftrightarrow> 1950 \<le> 100 * q + m \<and> 100 * q + m < 2050"
    if "m < 100" for q m :: nat using that by (cases "m < 50"; simp; linarith)
  from this [OF y(2), of "y div 100"] show ?thesis unfolding y(1) [symmetric] .
qed

text \<open>
  A validity time is read back to the second exactly when its year is one of those \<open>UTCTime\<close> can
  carry; any other year, such as 2050, is read as another one.
\<close>

theorem time_roundtrip:
  assumes "time_ok d" shows "read_time (utc_text d) = d \<longleftrightarrow> 1950 \<le> ut_year d \<and> ut_year d < 2050"
proof -
  let ?y = "ut_year d"
  have "ut_year (read_time (utc_text d)) = (if ?y mod 100 < 50 then 2000 + ?y mod 100 else 1900 + ?y mod 100)"
    using read_utc_text(1) [OF assms] by (simp add: read_time_def)
  moreover have "(if ?y mod 100 < 50 then 2000 + ?y mod 100 else 1900 + ?y mod 100) = ?y \<longleftrightarrow> 1950 \<le> ?y \<and> ?y < 2050"
    by (rule century)
  ultimately show ?thesis using read_utc_text(2-6) [OF assms] by (auto intro: utc_time.equality)
qed

theorem time_roundtrip_witness:
  "read_time (utc_text \<lparr>ut_year = 2050, ut_month = 1, ut_day = 2, ut_hours = 3, ut_minutes = 4, ut_seconds = 5\<rparr>) \<noteq>
   \<lparr>ut_year = 2050, ut_month = 1, ut_day = 2, ut_hours = 3, ut_minutes = 4, ut_seconds = 5\<rparr>"
proof -
  have "time_ok \<lparr>ut_year = 2050, ut_month = 1, ut_day = 2, ut_hours = 3, ut_minutes = 4, ut_seconds = 5\<rparr>"
    by (simp add: time_ok_def)
  from time_roundtrip [OF this] show ?thesis by simp
qed

section \<open>Names, read back\<close>

text \<open>The text of a name, \<open>key=value\<close> joined by a comma and a space, as \<open>buildSubject\<close> writes it.\<close>

definition dn_text :: "dn \<Rightarrow> string" where
  "dn_text d = js_join '', '' (map (\<lambda>(k, v). k @ ''='' @ v) d)"

definition no_comma :: "string \<Rightarrow> bool" where
  "no_comma v \<longleftrightarrow> CHR '','' \<notin> set v"

lemma index_of_sep:
  "no_comma v \<Longrightarrow> index_of '', '' (v @ '', '' @ rest) = Some (length v)"
  by (induction v) (simp_all add: no_comma_def)

lemma index_of_none: "no_comma v \<Longrightarrow> index_of '', '' v = None"
  by (induction v) (simp_all add: no_comma_def)

lemma split_on_join:
  "ws \<noteq> [] \<Longrightarrow> list_all no_comma ws \<Longrightarrow> split_on '', '' (js_join '', '' ws) = ws"
proof (induction ws rule: induct_list012)
  case (2 w)
  then show ?case by (subst split_on.simps) (simp add: index_of_none)
next
  case (3 w v ws)
  then have "split_on '', '' (js_join '', '' (v # ws)) = v # ws" by simp
  then show ?case using 3(4) index_of_sep [of w "js_join '', '' (v # ws)"]
    by (subst split_on.simps) simp
qed simp

lemma parse_pair:
  assumes "k \<in> set DN_ATTRIBUTE_KEYS" shows "parse_part r (k @ ''='' @ v) = AList.update k v r"
proof -
  have "list_all (\<lambda>k. CHR ''='' \<notin> set k) DN_ATTRIBUTE_KEYS" by code_simp
  then have "CHR ''='' \<notin> set k" using assms unfolding list_all_iff by blast
  then have "js_split (CHR ''='') (k @ CHR ''='' # v) = [k] @ js_split (CHR ''='') v"
    by (simp only: js_split_append_sep js_split_no_sep not_False_eq_True)
  then show ?thesis using assms by (simp add: parse_part_def js_split_join)
qed

lemma parse_pairs:
  "\<forall>(k, v) \<in> set d. k \<in> set DN_ATTRIBUTE_KEYS \<Longrightarrow>
     foldl parse_part r (map (\<lambda>(k, v). k @ ''='' @ v) d) = foldl (\<lambda>r (k, v). AList.update k v r) r d"
  by (induction d arbitrary: r) (auto simp: parse_pair simp del: append_Cons append.simps)

lemma updates_distinct:
  "distinct (map fst (r @ d)) \<Longrightarrow> foldl (\<lambda>r (k, v). AList.update k v r) r d = r @ d"
proof (induction d arbitrary: r)
  case (Cons x d)
  obtain k v where x: "x = (k, v)" by fastforce
  have "k \<notin> fst ` set r" using Cons.prems x by auto
  then have "foldl (\<lambda>r (k, v). AList.update k v r) r (x # d) = foldl (\<lambda>r (k, v). AList.update k v r) (r @ [x]) d"
    using x by (simp add: update_new)
  also have "\<dots> = (r @ [x]) @ d" using Cons.prems by (intro Cons.IH) simp
  finally show ?case by simp
qed simp

end
