(* ===== verification/Certificates.thy ===== *)
theory Certificates
  imports Der
begin

text \<open>
  The certificate authority (\<open>gateway/certificate/src/ca.ts\<close>): subjects, signed certificates, issuing
  and verification.  A PEM text stands for the DER it wraps.  Signing, SHA-256 and node's
  \<open>X509Certificate\<close> are parameters; random bytes and the clock are arguments.
\<close>

section \<open>Subjects\<close>

record ca_config =
  cc_organizationName :: string
  cc_commonName :: string
  cc_countryName :: "string option"
  cc_localityName :: "string option"
  cc_stateOrProvinceName :: "string option"
  cc_organizationalUnitName :: "string option"
  cc_emailAddress :: "string option"
  cc_validityMs :: "int option"

definition YEAR_MS :: int where
  "YEAR_MS = 365 * 24 * 60 * 60 * 1000"

definition DEFAULT_ROOT_CA_CONFIG :: ca_config where
  "DEFAULT_ROOT_CA_CONFIG = \<lparr>cc_organizationName = ''Odysseus'', cc_commonName = ''Odysseus Root CA'',
     cc_countryName = Some ''US'', cc_localityName = None, cc_stateOrProvinceName = None,
     cc_organizationalUnitName = Some ''Security'', cc_emailAddress = None,
     cc_validityMs = Some (10 * YEAR_MS)\<rparr>"

definition DEFAULT_INTERMEDIATE_CA_CONFIG :: ca_config where
  "DEFAULT_INTERMEDIATE_CA_CONFIG = \<lparr>cc_organizationName = ''Odysseus'',
     cc_commonName = ''Odysseus Intermediate Device CA'', cc_countryName = Some ''US'',
     cc_localityName = None, cc_stateOrProvinceName = None,
     cc_organizationalUnitName = Some ''Security'', cc_emailAddress = None,
     cc_validityMs = Some (3 * YEAR_MS)\<rparr>"

datatype subject_source = Authority ca_config | Device_Name dn

fun attribute_value :: "subject_source \<Rightarrow> string \<Rightarrow> (ca_config \<Rightarrow> string option) \<Rightarrow> string option" where
  "attribute_value (Authority c) key f = f c"
| "attribute_value (Device_Name d) key f = map_of d key"

definition subject_attributes :: "subject_source \<Rightarrow> (string \<times> string option) list" where
  "subject_attributes s =
     [(''C'', attribute_value s ''C'' cc_countryName),
      (''ST'', attribute_value s ''ST'' cc_stateOrProvinceName),
      (''L'', attribute_value s ''L'' cc_localityName),
      (''O'', attribute_value s ''O'' (Some \<circ> cc_organizationName)),
      (''OU'', attribute_value s ''OU'' cc_organizationalUnitName),
      (''CN'', attribute_value s ''CN'' (Some \<circ> cc_commonName)),
      (''emailAddress'', attribute_value s ''emailAddress'' cc_emailAddress),
      (''UID'', attribute_value s ''UID'' (\<lambda>_. None))]"

definition present :: "(string \<times> string option) list \<Rightarrow> dn" where
  "present as = map (\<lambda>(k, v). (k, the v)) (filter (\<lambda>(k, v). truthy v) as)"

definition buildSubject :: "subject_source \<Rightarrow> string" where
  "buildSubject s = dn_text (present (subject_attributes s))"

section \<open>Signed certificates\<close>

definition hex_byte :: "8 word \<Rightarrow> string" where
  "hex_byte b = (let h = (\<lambda>n. ''0123456789ABCDEF'' ! n) in [h (unat b div 16), h (unat b mod 16)])"

definition computeSerialNumber :: "bytes \<Rightarrow> string" where
  "computeSerialNumber random = concat (map hex_byte random)"

record signed_certificate =
  sg_certDer :: bytes
  sg_serial :: string
  sg_thumbprint :: string

definition tbs_content ::
  "bytes \<Rightarrow> bytes \<Rightarrow> string \<Rightarrow> string \<Rightarrow> int \<Rightarrow> int \<Rightarrow> bool \<Rightarrow> string \<Rightarrow> bytes" where
  "tbs_content serial spki subjectStr issuerStr notBefore notAfter isCA sigAlgOid =
     derExplicit 0 [0x02, 0x01, 0x02] @ encodePositiveDerInteger serial @ derAlgId sigAlgOid @
     derName (parseDnString issuerStr) @
     derSeq (derUtcTime (utc_fields notBefore) @ derUtcTime (utc_fields notAfter)) @
     derName (parseDnString subjectStr) @ spki @ derExplicit 3 (derExtensions isCA)"

definition buildAndSignTbs ::
  "(bytes \<Rightarrow> bytes) \<Rightarrow> (bytes \<Rightarrow> string) \<Rightarrow> bytes \<Rightarrow> bytes \<Rightarrow> string \<Rightarrow> string \<Rightarrow> int \<Rightarrow> int \<Rightarrow> bool \<Rightarrow> string
     \<Rightarrow> signed_certificate" where
  "buildAndSignTbs sign sha random spki subjectStr issuerStr notBefore notAfter isCA sigAlgOid =
     (let tbs = derSeq (tbs_content random spki subjectStr issuerStr notBefore notAfter isCA sigAlgOid);
          certDer = derSeq (tbs @ derAlgId sigAlgOid @ derBitStr (sign tbs))
      in \<lparr>sg_certDer = certDer, sg_serial = computeSerialNumber random, sg_thumbprint = sha certDer\<rparr>)"

section \<open>The authority\<close>

record ca_key =
  ck_isEC :: bool
  ck_sign :: "bytes \<Rightarrow> bytes"
  ck_spki :: bytes

record certificate_authority =
  ca_rootConfig :: ca_config
  ca_intermediateConfig :: "ca_config option"
  ca_sign :: "bytes \<Rightarrow> bytes"
  ca_signingSubject :: string
  ca_signatureAlgorithm :: string
  ca_sigAlgOid :: string
  ca_rootCertificate :: bytes
  ca_intermediateCertificate :: "bytes option"

definition validity_or :: "int option \<Rightarrow> ca_config \<Rightarrow> int" where
  "validity_or v c = (case v of Some n \<Rightarrow> n | None \<Rightarrow> the (cc_validityMs c))"

definition new_authority ::
  "(bytes \<Rightarrow> string) \<Rightarrow> int \<Rightarrow> bytes \<Rightarrow> bytes \<Rightarrow> ca_key \<Rightarrow> ca_config \<Rightarrow> (ca_key \<times> ca_config) option
     \<Rightarrow> certificate_authority" where
  "new_authority sha now random1 random2 rootKey rootConfig intermediate =
     (let oid = (if ck_isEC rootKey then ''1.2.840.10045.4.3.2'' else ''1.2.840.113549.1.1.11'');
          alg = (if ck_isEC rootKey then ''SHA256withECDSA'' else ''SHA256withRSA'');
          rootSubject = buildSubject (Authority rootConfig);
          rootCert = sg_certDer (buildAndSignTbs (ck_sign rootKey) sha random1 (ck_spki rootKey) rootSubject
            rootSubject now (now + validity_or (cc_validityMs rootConfig) DEFAULT_ROOT_CA_CONFIG) True oid)
      in case intermediate of
           Some (key, config) \<Rightarrow>
             \<lparr>ca_rootConfig = rootConfig, ca_intermediateConfig = Some config, ca_sign = ck_sign key,
              ca_signingSubject = buildSubject (Authority config), ca_signatureAlgorithm = alg,
              ca_sigAlgOid = oid, ca_rootCertificate = rootCert,
              ca_intermediateCertificate = Some (sg_certDer (buildAndSignTbs (ck_sign rootKey) sha random2
                (ck_spki key) (buildSubject (Authority config)) rootSubject now
                (now + validity_or (cc_validityMs config) DEFAULT_INTERMEDIATE_CA_CONFIG) True oid))\<rparr>
         | None \<Rightarrow>
             \<lparr>ca_rootConfig = rootConfig, ca_intermediateConfig = None, ca_sign = ck_sign rootKey,
              ca_signingSubject = rootSubject, ca_signatureAlgorithm = alg, ca_sigAlgOid = oid,
              ca_rootCertificate = rootCert, ca_intermediateCertificate = None\<rparr>)"

record signing_request =
  cr_deviceId :: string
  cr_gatewayId :: string
  cr_spki :: bytes
  cr_fingerprintHex :: string
  cr_validityMs :: "int option"

record device_certificate =
  dc_id :: string
  dc_deviceId :: string
  dc_certificate :: bytes
  dc_serialNumber :: string
  dc_issuedAt :: int
  dc_expiresAt :: int
  dc_issuer :: string
  dc_subject :: string
  dc_thumbprint :: string
  dc_signatureAlgorithm :: string

definition DEFAULT_CERT_VALIDITY_MS :: int where
  "DEFAULT_CERT_VALIDITY_MS = 24 * 60 * 60 * 1000"

definition device_subject :: "string \<Rightarrow> string" where
  "device_subject did = buildSubject (Device_Name
     [(''O'', ''Odysseus''), (''OU'', ''Devices''), (''CN'', ''Device '' @ take 12 did), (''UID'', did)])"

definition issueDeviceCertificate ::
  "(bytes \<Rightarrow> string) \<Rightarrow> int \<Rightarrow> bytes \<Rightarrow> string \<Rightarrow> signing_request \<Rightarrow> certificate_authority \<Rightarrow> device_certificate" where
  "issueDeviceCertificate sha now random cid csr ca =
     (let subject = device_subject (cr_deviceId csr);
          validity = (case cr_validityMs csr of None \<Rightarrow> DEFAULT_CERT_VALIDITY_MS | Some v \<Rightarrow> v);
          r = buildAndSignTbs (ca_sign ca) sha random (cr_spki csr) subject (ca_signingSubject ca) now
                (now + validity) False (ca_sigAlgOid ca)
      in \<lparr>dc_id = ''cert_'' @ cid, dc_deviceId = cr_deviceId csr, dc_certificate = sg_certDer r,
          dc_serialNumber = sg_serial r, dc_issuedAt = now, dc_expiresAt = now + validity,
          dc_issuer = ca_signingSubject ca, dc_subject = subject, dc_thumbprint = sg_thumbprint r,
          dc_signatureAlgorithm = ca_signatureAlgorithm ca\<rparr>)"

record root_entry =
  re_certificate :: bytes
  re_subject :: string
  re_thumbprint :: string

record certificate_chain =
  ch_leaf :: device_certificate
  ch_root :: root_entry
  ch_intermediate :: "device_certificate option"

definition getCertificateChain ::
  "(bytes \<Rightarrow> string) \<Rightarrow> int \<Rightarrow> bytes \<Rightarrow> string \<Rightarrow> device_certificate \<Rightarrow> certificate_authority \<Rightarrow> certificate_chain" where
  "getCertificateChain sha now random cid deviceCert ca =
     \<lparr>ch_leaf = deviceCert,
      ch_root = \<lparr>re_certificate = ca_rootCertificate ca, re_subject = buildSubject (Authority (ca_rootConfig ca)),
        re_thumbprint = sha (ca_rootCertificate ca)\<rparr>,
      ch_intermediate = (case (ca_intermediateCertificate ca, ca_intermediateConfig ca) of
        (Some cert, Some config) \<Rightarrow>
          Some \<lparr>dc_id = ''cert_'' @ cid, dc_deviceId = dc_deviceId deviceCert, dc_certificate = cert,
            dc_serialNumber = computeSerialNumber random, dc_issuedAt = now,
            dc_expiresAt = now + validity_or (cc_validityMs config) DEFAULT_INTERMEDIATE_CA_CONFIG,
            dc_issuer = buildSubject (Authority (ca_rootConfig ca)), dc_subject = buildSubject (Authority config),
            dc_thumbprint = sha cert, dc_signatureAlgorithm = ca_signatureAlgorithm ca\<rparr>
      | _ \<Rightarrow> None)\<rparr>"

definition isCertificateValid :: "int \<Rightarrow> device_certificate \<Rightarrow> bool" where
  "isCertificateValid now c \<longleftrightarrow> now \<ge> dc_issuedAt c \<and> now < dc_expiresAt c"

definition shouldRenewCertificate :: "int \<Rightarrow> device_certificate \<Rightarrow> bool" where
  "shouldRenewCertificate now c \<longleftrightarrow> dc_expiresAt c - now \<le> DEFAULT_CERT_VALIDITY_MS * 7 div 10"

section \<open>Verification\<close>

record x509 =
  x5_subject :: "string option"
  x5_validFrom :: int
  x5_validTo :: int

text \<open>
  node's \<open>X509Certificate\<close>: parsing, which may throw, whether a certificate was issued by another, and
  whether its signature is good for the key in another.
\<close>

record x509_library =
  xl_parse :: "bytes \<Rightarrow> string + x509"
  xl_checkIssued :: "bytes \<Rightarrow> bytes \<Rightarrow> bool"
  xl_verify :: "bytes \<Rightarrow> bytes \<Rightarrow> bool"

record verify_result =
  vr_valid :: bool
  vr_deviceId :: "string option"
  vr_thumbprint :: string
  vr_expiresAt :: "int option"
  vr_error :: "string option"

definition lower_hex :: "char \<Rightarrow> bool" where
  "lower_hex c \<longleftrightarrow> c \<in> set ''0123456789abcdef''"

text \<open>The first match of \<open>/UID=(dev_[a-f0-9]+)/\<close>.\<close>

fun match_uid :: "string \<Rightarrow> string option" where
  "match_uid [] = None"
| "match_uid (c # s) =
     (if prefix ''UID=dev_'' (c # s) \<and> takeWhile lower_hex (drop 8 (c # s)) \<noteq> []
      then Some (''dev_'' @ takeWhile lower_hex (drop 8 (c # s)))
      else match_uid s)"

definition verifyDeviceCertificate ::
  "x509_library \<Rightarrow> (bytes \<Rightarrow> string) \<Rightarrow> int \<Rightarrow> bytes \<Rightarrow> certificate_authority \<Rightarrow> verify_result" where
  "verifyDeviceCertificate lib sha now cert ca =
     (case xl_parse lib cert of
        Inl msg \<Rightarrow> \<lparr>vr_valid = False, vr_deviceId = None, vr_thumbprint = [], vr_expiresAt = None,
          vr_error = Some (''Certificate parse error: '' @ msg)\<rparr>
      | Inr x \<Rightarrow>
          (let caCerts = ca_rootCertificate ca #
                 (case ca_intermediateCertificate ca of None \<Rightarrow> [] | Some c \<Rightarrow> [c]);
               caSigned = (\<exists>c \<in> set caCerts. (case xl_parse lib c of Inl _ \<Rightarrow> False
                 | Inr _ \<Rightarrow> xl_checkIssued lib cert c \<and> xl_verify lib cert c));
               thumb = sha cert;
               timeValid = now \<ge> x5_validFrom x \<and> now < x5_validTo x;
               subject = (case x5_subject x of None \<Rightarrow> [] | Some s \<Rightarrow> s);
               uid = match_uid subject;
               isDevice = index_of ''OU=Devices'' subject \<noteq> None \<or> uid \<noteq> None;
               bad = (\<lambda>e m. \<lparr>vr_valid = False, vr_deviceId = None, vr_thumbprint = thumb, vr_expiresAt = e,
                 vr_error = Some m\<rparr>)
           in if \<not> caSigned then bad None ''Certificate not signed by trusted CA''
              else if \<not> timeValid then bad (Some (x5_validTo x)) ''Certificate expired or not yet valid''
              else if \<not> isDevice then bad (Some (x5_validTo x)) ''Certificate subject is not a device certificate''
              else \<lparr>vr_valid = True, vr_deviceId = uid, vr_thumbprint = thumb,
                     vr_expiresAt = Some (x5_validTo x), vr_error = None\<rparr>))"

section \<open>Names, read back\<close>

lemma present_keys:
  "set (map fst (present (subject_attributes s))) \<subseteq> set DN_ATTRIBUTE_KEYS"
proof -
  have "set (map fst (present as)) \<subseteq> set (map fst as)" for as
    by (force simp: present_def)
  moreover have "set (map fst (subject_attributes s)) \<subseteq> set DN_ATTRIBUTE_KEYS"
    by (simp add: subject_attributes_def DN_ATTRIBUTE_KEYS_def)
  ultimately show ?thesis by blast
qed

lemma present_distinct: "distinct (map fst (present (subject_attributes s)))"
proof -
  have "map fst (present as) = map fst (filter (\<lambda>(k, v). truthy v) as)" for as
    by (simp add: present_def split_beta comp_def)
  moreover have "distinct (map fst (subject_attributes s))" by (simp add: subject_attributes_def)
  ultimately show ?thesis by (simp add: distinct_map_filter)
qed

lemma parse_dn_text:
  assumes known: "\<forall>(k, v) \<in> set d. k \<in> set DN_ATTRIBUTE_KEYS" and dist: "distinct (map fst d)"
    and plain: "\<forall>(k, v) \<in> set d. no_comma v"
  shows "parseDnString (dn_text d) = d"
proof (cases "d = []")
  case True
  have "split_on '', '' [] = [[]]" by (subst split_on.simps) simp
  then show ?thesis using True by (simp add: dn_text_def parseDnString_def parse_part_def DN_ATTRIBUTE_KEYS_def)
next
  case False
  have keys: "list_all no_comma DN_ATTRIBUTE_KEYS" by code_simp
  have "no_comma (k @ ''='' @ v)" if kv: "(k, v) \<in> set d" for k v
  proof -
    have "k \<in> set DN_ATTRIBUTE_KEYS" "no_comma v" using kv known plain by auto
    moreover from this keys have "no_comma k" unfolding list_all_iff by blast
    ultimately show ?thesis unfolding no_comma_def by simp
  qed
  then have "list_all no_comma (map (\<lambda>(k, v). k @ ''='' @ v) d)" unfolding list_all_iff by fastforce
  then have "split_on '', '' (dn_text d) = map (\<lambda>(k, v). k @ ''='' @ v) d"
    unfolding dn_text_def using False by (intro split_on_join) simp_all
  then show ?thesis using parse_pairs [OF known, of "[]"] updates_distinct [of "[]" d] dist
    by (simp add: parseDnString_def)
qed

text \<open>
  A subject without commas is encoded as what it says: the attributes the encoder parses out of the
  text of a name are those it was built from, in their order, for authorities and devices alike.
\<close>

theorem subject_roundtrip:
  assumes "\<forall>(k, v) \<in> set (present (subject_attributes s)). no_comma v"
  shows "parseDnString (buildSubject s) = present (subject_attributes s)"
  unfolding buildSubject_def
proof (rule parse_dn_text [OF _ present_distinct assms])
  show "\<forall>(k, v) \<in> set (present (subject_attributes s)). k \<in> set DN_ATTRIBUTE_KEYS"
    using present_keys by fastforce
qed

theorem subject_roundtrip_witness:
  "parseDnString (buildSubject (Authority DEFAULT_ROOT_CA_CONFIG)) =
   present (subject_attributes (Authority DEFAULT_ROOT_CA_CONFIG))"
proof (rule subject_roundtrip)
  show "\<forall>(k, v) \<in> set (present (subject_attributes (Authority DEFAULT_ROOT_CA_CONFIG))). no_comma v"
    by code_simp
qed

lemma index_of_append: "index_of sep p = Some i \<Longrightarrow> index_of sep (p @ q) = Some i"
proof (induction p arbitrary: i)
  case Nil
  then show ?case by (cases q) (simp_all split: if_splits)
next
  case (Cons c p)
  show ?case
  proof (cases "prefix sep (c # p)")
    case True
    then have "prefix sep ((c # p) @ q)" by (rule prefix_prefix)
    then show ?thesis using True Cons.prems by simp
  next
    case False
    then obtain j where j: "index_of sep p = Some j" "i = Suc j" using Cons.prems by auto
    have "length sep \<le> length (c # p)" using index_of_le [OF j(1)] by simp
    then have "\<not> prefix sep ((c # p) @ q)" using False by (metis prefix_length_prefix prefixI)
    then show ?thesis using Cons.IH [OF j(1)] j(2) by simp
  qed
qed

lemma index_of_append_sep: "index_of '', '' p = None \<Longrightarrow> index_of '', '' (p @ '', '' @ w) = Some (length p)"
proof (induction p)
  case (Cons c p)
  have "\<not> prefix '', '' (c # p)" "index_of '', '' p = None" using Cons.prems by (auto split: if_splits)
  moreover from this have "\<not> prefix '', '' (c # p @ '', '' @ w)" by (cases p) auto
  ultimately show ?case using Cons.IH by simp
qed simp

lemma split_on_append:
  assumes "no_comma w" shows "split_on '', '' (p @ '', '' @ w) = split_on '', '' p @ [w]"
proof (induction "length p" arbitrary: p rule: less_induct)
  case less
  show ?case
  proof (cases "index_of '', '' p")
    case None
    have "index_of '', '' (p @ '', '' @ w) = Some (length p)"
      by (rule index_of_append_sep [OF None])
    moreover have "split_on '', '' w = [w]" using index_of_none [OF assms] by (subst split_on.simps) simp
    ultimately show ?thesis using None
      by (subst split_on.simps, subst (2) split_on.simps) simp
  next
    case (Some i)
    have le: "i + 2 \<le> length p" using index_of_le [OF Some] by simp
    have "index_of '', '' (p @ '', '' @ w) = Some i"
      by (rule index_of_append [OF Some])
    moreover have "split_on '', '' (drop (i + 2) p @ '', '' @ w) = split_on '', '' (drop (i + 2) p) @ [w]"
      using le by (intro less) simp
    ultimately show ?thesis using Some le
      by (subst split_on.simps, subst (2) split_on.simps) simp
  qed
qed

text \<open>
  Commas are not escaped: a device identifier that goes on with a second \<open>UID\<close> gets a certificate
  whose \<open>UID\<close> is the second one, so whoever may choose an identifier chooses the identity certified.
\<close>

theorem subject_injection:
  assumes "no_comma v"
  shows "map_of (parseDnString (device_subject (a @ '', UID='' @ v))) ''UID'' = Some v"
proof -
  let ?did = "a @ '', UID='' @ v" and ?head = "''O=Odysseus, OU=Devices, CN=Device ''"
  have "device_subject ?did = (?head @ take 12 ?did @ '', UID='' @ a) @ '', '' @ ''UID='' @ v"
    by (simp add: device_subject_def buildSubject_def subject_attributes_def present_def dn_text_def truthy_def)
  moreover have "no_comma (''UID='' @ v)" using assms by (simp add: no_comma_def)
  ultimately have "split_on '', '' (device_subject ?did) =
      split_on '', '' (?head @ take 12 ?did @ '', UID='' @ a) @ [''UID='' @ v]"
    using split_on_append by metis
  then have "parseDnString (device_subject ?did) =
      parse_part (parseDnString (?head @ take 12 ?did @ '', UID='' @ a)) (''UID'' @ ''='' @ v)"
    by (simp add: parseDnString_def)
  also have "\<dots> = AList.update ''UID'' v (parseDnString (?head @ take 12 ?did @ '', UID='' @ a))"
    by (rule parse_pair) (simp add: DN_ATTRIBUTE_KEYS_def)
  finally show ?thesis by (simp add: update_conv')
qed

theorem subject_injection_witness:
  "map_of (parseDnString (device_subject (''dev_0a'' @ '', UID='' @ ''dev_1b''))) ''UID'' = Some ''dev_1b''"
  by (rule subject_injection) (simp add: no_comma_def)

section \<open>Certificates, read back\<close>

text \<open>The first \<open>n\<close> values of a sequence and what follows them.\<close>

fun read_items :: "nat \<Rightarrow> bytes \<Rightarrow> ((8 word \<times> bytes) list \<times> bytes) option" where
  "read_items 0 bs = Some ([], bs)"
| "read_items (Suc n) bs =
     (case read_tlv bs of
        None \<Rightarrow> None
      | Some (tag, content, rest) \<Rightarrow> map_option (\<lambda>(xs, r). ((tag, content) # xs, r)) (read_items n rest))"

lemma read_items_wrap:
  "length data < 65536 \<Longrightarrow>
     read_items (Suc n) (derWrap tag data @ rest) = map_option (\<lambda>(xs, r). ((tag, data) # xs, r)) (read_items n rest)"
  by (simp add: read_derWrap)

lemma length_derWrap: "length (data :: bytes) < length (derWrap (tag :: 8 word) data)"
  by (simp add: derWrap_def)

lemma length_derWrap_data: "length (derWrap tag data) < n \<Longrightarrow> length data < n"
  using length_derWrap by (rule less_trans)

lemma derAlgId_seq: "\<exists>alg. derAlgId oid = derWrap 0x30 alg"
  by (auto simp: derAlgId_def derSeq_def)

lemma derName_seq: "\<exists>name. derName d = derWrap 0x30 name"
  by (auto simp: derName_def derSeq_def)

definition plain_authority :: certificate_authority where
  "plain_authority = \<lparr>ca_rootConfig = DEFAULT_ROOT_CA_CONFIG, ca_intermediateConfig = None, ca_sign = id,
     ca_signingSubject = ''CN=R'', ca_signatureAlgorithm = ''SHA256withRSA'', ca_sigAlgOid = ''1.2.840.113549.1.1.11'',
     ca_rootCertificate = [1], ca_intermediateCertificate = None\<rparr>"

definition plain_request :: signing_request where
  "plain_request = \<lparr>cr_deviceId = ''dev_0a'', cr_gatewayId = ''g'', cr_spki = [7], cr_fingerprintHex = '''',
     cr_validityMs = Some 0\<rparr>"

lemma epoch_time: "length (derUtcTime (utc_fields 0)) = 15"
proof -
  have f: "utc_fields 0 = \<lparr>ut_year = 1970, ut_month = 1, ut_day = 1, ut_hours = 0, ut_minutes = 0, ut_seconds = 0\<rparr>"
    by code_simp

  show ?thesis unfolding f by (simp add: derUtcTime_def utc_text_def pad2_def last2_def utf8_def utf8_char_def)
qed

lemmas oid_length = derOid_def oid_content_def oid_arc_def int32_shr7_def to_number_def high_digits.simps drop_bit_eq_div

lemma length_oids:
  "length (derOid ''2.5.4.3'') = 5" "length (derOid ''2.5.4.10'') = 5" "length (derOid ''2.5.4.11'') = 5"
  "length (derOid ''0.9.2342.19200300.100.1.1'') = 12" "length (derOid ''1.2.840.113549.1.1.11'') = 11"
  "length (derOid ''2.5.29.19'') = 5" "length (derOid ''2.5.29.15'') = 5"
  by (simp_all add: oid_length)

lemma plain_subject:
  "parseDnString (device_subject ''dev_0a'') =
     [(''O'', ''Odysseus''), (''OU'', ''Devices''), (''CN'', ''Device dev_0a''), (''UID'', ''dev_0a'')]"
  "parseDnString ''CN=R'' = [(''CN'', ''R'')]"
  by code_simp+

lemmas der_length = derName_def derSeq_def derSet_def derUtf8String_def derWrap_def derLength_def OID_MAP_def
  utf8_def utf8_char_def derAlgId_def derNull_def

lemma plain_lengths:
  "length (derName (parseDnString ''CN=R'')) = 14"
  "length (derName (parseDnString (device_subject ''dev_0a''))) < 200"
  "length (derAlgId ''1.2.840.113549.1.1.11'') = 15" 
  unfolding plain_subject by (simp_all add: der_length length_oids)

lemma plain_usage: "length (derKeyUsageBitString (KU_DIGITAL_SIGNATURE OR KU_KEY_ENCIPHERMENT)) = 4"
  by code_simp

lemma plain_extensions: "length (derExtensions False) < 200"
  by (simp add: derExtensions_def derExtension_def derBool_def derOctetStr_def der_length length_oids plain_usage)

lemma length_derWrap_le: "length (derWrap tag data) \<le> length data + 4"
  by (simp add: derWrap_def derLength_def)

lemma plain_short: "length (dc_certificate (issueDeviceCertificate (\<lambda>_. '''') 0 [9] ''0'' plain_request plain_authority)) < 65536"
proof -
  let ?tbs = "tbs_content [9] [7] (device_subject ''dev_0a'') ''CN=R'' 0 0 False ''1.2.840.113549.1.1.11''"
  let ?rest = "derAlgId ''1.2.840.113549.1.1.11'' @ derBitStr (derSeq ?tbs)"
  have "length (derSeq (derUtcTime (utc_fields 0) @ derUtcTime (utc_fields 0))) = 32"
    by (simp add: derSeq_def derWrap_def derLength_def epoch_time)
  moreover have "length (derExplicit 3 (derExtensions False)) < 204"
    using length_derWrap_le [of "0xa0 OR 3" "derExtensions False"] plain_extensions unfolding derExplicit_def by linarith
  moreover have "length (derExplicit 0 [0x02, 0x01, 0x02]) = 5" "length (encodePositiveDerInteger [9]) = 3"
    by code_simp+
  ultimately have tbs: "length ?tbs < 500" using plain_lengths unfolding tbs_content_def by simp
  then have "length (derSeq ?tbs) < 504"
    using length_derWrap_le [of "0x30" ?tbs] unfolding derSeq_def by linarith
  moreover have "length (derBitStr (derSeq ?tbs)) \<le> length (derSeq ?tbs) + 5"
    using length_derWrap_le [of "0x03" "0 # derSeq ?tbs"] unfolding derBitStr_def by simp
  ultimately have "length (derSeq ?tbs @ ?rest) < 60000" using plain_lengths(3) by simp
  moreover have cert: "dc_certificate (issueDeviceCertificate (\<lambda>_. '''') 0 [9] ''0'' plain_request plain_authority) =
      derWrap 0x30 (derSeq ?tbs @ ?rest)"
    unfolding issueDeviceCertificate_def buildAndSignTbs_def Let_def plain_authority_def plain_request_def
    by (simp add: derSeq_def)
  ultimately show ?thesis using length_derWrap_le [of "0x30" "derSeq ?tbs @ ?rest"] unfolding cert by linarith
qed

text \<open>
  The record returned for a device is the certificate: the DER in it splits into a signed part, and
  an algorithm and the signature of exactly those bytes; the signed part holds the serial number, the
  issuer, the validity and the subject of the record and ends in the device's key and the extensions
  of an end entity.
\<close>

theorem issued_certificate_signed:
  assumes "c = issueDeviceCertificate sha now random cid csr ca" "length (dc_certificate c) < 65536"
  shows "\<exists>tbs alg issuer subject.
    read_items 1 (dc_certificate c) =
      Some ([(0x30, derSeq tbs @ derAlgId (ca_sigAlgOid ca) @ derBitStr (ca_sign ca (derSeq tbs)))], []) \<and>
    read_items 1 (derSeq tbs @ derAlgId (ca_sigAlgOid ca) @ derBitStr (ca_sign ca (derSeq tbs))) =
      Some ([(0x30, tbs)], derAlgId (ca_sigAlgOid ca) @ derBitStr (ca_sign ca (derSeq tbs))) \<and>
    read_items 6 tbs =
      Some ([(0xa0, [0x02, 0x01, 0x02]), (0x02, integer_content random), (0x30, alg), (0x30, issuer),
             (0x30, derUtcTime (utc_fields (dc_issuedAt c)) @ derUtcTime (utc_fields (dc_expiresAt c))),
             (0x30, subject)],
            cr_spki csr @ derExplicit 3 (derExtensions False)) \<and>
    derAlgId (ca_sigAlgOid ca) = derSeq alg \<and>
    derName (parseDnString (dc_issuer c)) = derSeq issuer \<and>
    derName (parseDnString (dc_subject c)) = derSeq subject \<and>
    dc_serialNumber c = computeSerialNumber random \<and> dc_thumbprint c = sha (dc_certificate c)"
proof -
  let ?tbs = "tbs_content random (cr_spki csr) (dc_subject c) (dc_issuer c) (dc_issuedAt c) (dc_expiresAt c)
     False (ca_sigAlgOid ca)"
  let ?rest = "derAlgId (ca_sigAlgOid ca) @ derBitStr (ca_sign ca (derSeq ?tbs))"
  obtain alg where alg: "derAlgId (ca_sigAlgOid ca) = derWrap 0x30 alg" using derAlgId_seq by blast
  obtain iss where iss: "derName (parseDnString (dc_issuer c)) = derWrap 0x30 iss" using derName_seq by blast
  obtain subj where subj: "derName (parseDnString (dc_subject c)) = derWrap 0x30 subj" using derName_seq by blast
  let ?times = "derUtcTime (utc_fields (dc_issuedAt c)) @ derUtcTime (utc_fields (dc_expiresAt c))"
  have cert: "dc_certificate c = derWrap 0x30 (derSeq ?tbs @ ?rest)"
    unfolding assms(1) issueDeviceCertificate_def buildAndSignTbs_def Let_def by (simp add: derSeq_def)
  have all: "length (derSeq ?tbs @ ?rest) < 65536"
    using assms(2) length_derWrap [of "derSeq ?tbs @ ?rest" "0x30"] unfolding cert by linarith
  then have tbs: "length ?tbs < 65536"
    using length_derWrap [of ?tbs "0x30"] by (simp add: derSeq_def)
  have content: "?tbs = derWrap 0xa0 [0x02, 0x01, 0x02] @ derWrap 0x02 (integer_content random) @ derWrap 0x30 alg @
      derWrap 0x30 iss @ derWrap 0x30 ?times @ derWrap 0x30 subj @ cr_spki csr @ derExplicit 3 (derExtensions False)"
    unfolding tbs_content_def alg iss subj by (simp add: derExplicit_def encodePositiveDerInteger_def derSeq_def)
  have six: "6 = Suc (Suc (Suc (Suc (Suc (Suc 0)))))" by simp
  have version: "length ([0x02, 0x01, 0x02] :: bytes) < 65536" by simp
  have "length (integer_content random) < 65536" "length alg < 65536" "length iss < 65536"
    "length ?times < 65536" "length subj < 65536"
    using tbs length_derWrap [of "integer_content random" "0x02"] length_derWrap [of alg "0x30"]
      length_derWrap [of iss "0x30"] length_derWrap [of ?times "0x30"] length_derWrap [of subj "0x30"]
    unfolding content by simp_all
  then have "read_items 6 ?tbs = Some ([(0xa0, [0x02, 0x01, 0x02]), (0x02, integer_content random), (0x30, alg),
      (0x30, iss), (0x30, ?times), (0x30, subj)], cr_spki csr @ derExplicit 3 (derExtensions False))"
    unfolding content six by (simp only: read_items_wrap version read_items.simps(1) option.map prod.case)
  moreover have "read_items 1 (dc_certificate c) = Some ([(0x30, derSeq ?tbs @ ?rest)], [])"
    using read_items_wrap [OF all, of 0 "0x30" "[]"] unfolding cert by simp
  moreover have "read_items 1 (derSeq ?tbs @ ?rest) = Some ([(0x30, ?tbs)], ?rest)"
    using read_items_wrap [OF tbs, of 0 "0x30" ?rest] by (simp add: derSeq_def)
  moreover have "dc_serialNumber c = computeSerialNumber random" "dc_thumbprint c = sha (dc_certificate c)"
    unfolding assms(1) issueDeviceCertificate_def buildAndSignTbs_def Let_def by simp_all
  ultimately show ?thesis unfolding alg iss subj derSeq_def by blast
qed

theorem issued_certificate_signed_witness:
  "\<exists>tbs rest. read_items 1 (dc_certificate (issueDeviceCertificate (\<lambda>_. '''') 0 [9] ''0'' plain_request plain_authority)) =
     Some ([(0x30, derSeq tbs @ rest)], [])"
  using issued_certificate_signed [OF refl plain_short] by blast

section \<open>What verification accepts\<close>

lemma match_uid_meaning:
  "match_uid s = Some d \<Longrightarrow> \<exists>p q h. s = p @ ''UID='' @ d @ q \<and> d = ''dev_'' @ h \<and> h \<noteq> [] \<and> list_all lower_hex h"
proof (induction s)
  case (Cons c s)
  let ?h = "takeWhile lower_hex (drop 8 (c # s))"
  show ?case
  proof (cases "prefix ''UID=dev_'' (c # s) \<and> ?h \<noteq> []")
    case True
    then obtain r where r: "c # s = ''UID=dev_'' @ r" by (elim conjE prefixE)
    then have h: "?h = takeWhile lower_hex r" by simp
    have d: "d = ''dev_'' @ ?h" using Cons.prems True by simp
    have "c # s = [] @ ''UID='' @ d @ dropWhile lower_hex r" unfolding d h r by simp
    moreover have "list_all lower_hex ?h" by (auto simp: list_all_iff dest: set_takeWhileD)
    ultimately show ?thesis using True d by blast
  next
    case False
    then have "match_uid s = Some d" using Cons.prems by (simp only: match_uid.simps if_False)
    then obtain p q h where "s = p @ ''UID='' @ d @ q" "d = ''dev_'' @ h" "h \<noteq> []" "list_all lower_hex h"
      using Cons.IH by blast
    then show ?thesis by (metis append_Cons)
  qed
qed simp

lemma parsed_only: "(case y of Inl _ \<Rightarrow> False | Inr _ \<Rightarrow> P) \<Longrightarrow> P"
  by (cases y) simp_all

text \<open>
  C21: Nothing but a certificate that a certificate of this authority issued and whose signature its key
  verifies is accepted, and only while it is valid; the device reported is written in its subject.
\<close>

theorem accepted_certificate:
  assumes "vr_valid (verifyDeviceCertificate lib sha now cert ca)"
  shows "\<exists>x. xl_parse lib cert = Inr x \<and> x5_validFrom x \<le> now \<and> now < x5_validTo x \<and>
    (\<exists>c. (c = ca_rootCertificate ca \<or> ca_intermediateCertificate ca = Some c) \<and>
       xl_checkIssued lib cert c \<and> xl_verify lib cert c) \<and>
    (\<forall>d. vr_deviceId (verifyDeviceCertificate lib sha now cert ca) = Some d \<longrightarrow>
       (\<exists>s p q. x5_subject x = Some s \<and> s = p @ ''UID='' @ d @ q) \<and>
       (\<exists>h. d = ''dev_'' @ h \<and> h \<noteq> [] \<and> list_all lower_hex h))"
proof -
  let ?r = "verifyDeviceCertificate lib sha now cert ca"
  obtain x where x: "xl_parse lib cert = Inr x"
    using assms by (cases "xl_parse lib cert") (simp_all add: verifyDeviceCertificate_def)
  let ?s = "case x5_subject x of None \<Rightarrow> [] | Some s \<Rightarrow> s"
  let ?cas = "ca_rootCertificate ca # (case ca_intermediateCertificate ca of None \<Rightarrow> [] | Some c \<Rightarrow> [c])"
  note def = verifyDeviceCertificate_def x sum.case Let_def
  have "x5_validFrom x \<le> now" "now < x5_validTo x" and uid: "vr_deviceId ?r = match_uid ?s"
    using assms unfolding def by (auto split: if_splits simp del: not_None_eq)
  moreover have signed: "\<exists>c \<in> set ?cas. (case xl_parse lib c of Inl _ \<Rightarrow> False
      | Inr _ \<Rightarrow> xl_checkIssued lib cert c \<and> xl_verify lib cert c)"
    using assms unfolding def by (rule contrapos_pp) (simp only: if_not_P if_P not_False_eq_True not_True_eq_False verify_result.select_convs)
  then have "\<exists>c \<in> set ?cas. xl_checkIssued lib cert c \<and> xl_verify lib cert c"
    by (blast dest: parsed_only)
  then have "\<exists>c. (c = ca_rootCertificate ca \<or> ca_intermediateCertificate ca = Some c) \<and>
      xl_checkIssued lib cert c \<and> xl_verify lib cert c"
    by (cases "ca_intermediateCertificate ca") auto
  moreover have "(\<exists>s p q. x5_subject x = Some s \<and> s = p @ ''UID='' @ d @ q) \<and>
      (\<exists>h. d = ''dev_'' @ h \<and> h \<noteq> [] \<and> list_all lower_hex h)" if "vr_deviceId ?r = Some d" for d
  proof -
    have m: "match_uid ?s = Some d" using that uid by simp
    then obtain s where "x5_subject x = Some s" by (cases "x5_subject x") simp_all
    then show ?thesis using match_uid_meaning [OF m] by auto
  qed
  ultimately show ?thesis using x by blast
qed

definition honest_library :: x509_library where
  "honest_library = \<lparr>xl_parse = (\<lambda>_. Inr \<lparr>x5_subject = Some ''CN=Device dev_0a, UID=dev_0a'', x5_validFrom = 0, x5_validTo = 9\<rparr>),
     xl_checkIssued = (\<lambda>c i. c = [2] \<and> i = [1]), xl_verify = (\<lambda>c i. c = [2] \<and> i = [1])\<rparr>"

theorem accepted_certificate_witness:
  "vr_deviceId (verifyDeviceCertificate honest_library (\<lambda>_. ''t'') 5 [2] plain_authority) = Some ''dev_0a'' \<and>
   xl_verify honest_library [2] [1]"
proof -
  let ?r = "verifyDeviceCertificate honest_library (\<lambda>_. ''t'') 5 [2] plain_authority"
  have ok: "vr_valid ?r" and d: "vr_deviceId ?r = Some ''dev_0a''"
    by (simp_all add: verifyDeviceCertificate_def honest_library_def plain_authority_def lower_hex_def)
  have "ca_rootCertificate plain_authority = [1]" "ca_intermediateCertificate plain_authority = None"
    by (simp_all add: plain_authority_def)
  then show ?thesis using accepted_certificate [OF ok] d by auto
qed

end
