(* ===== verification/Revocation.thy ===== *)
theory Revocation
  imports Prelude
begin

text \<open>
  The gateway's revocation store and checker (\<open>gateway/certificate/src/revocation.ts\<close>).  Listeners have
  the type \<open>'l\<close>; what a listener does is a function on a world \<open>'w\<close> of its own, which may fail.  The
  remote client and the clock are arguments; a check is split where it awaits the client's answer.
\<close>

section \<open>Data\<close>

datatype revocation_reason =
  User_Initiated | Compromise_Suspected | Device_Replaced | Policy_Violation | Expired_Unrenewed

fun reason_text :: "revocation_reason \<Rightarrow> string" where
  "reason_text User_Initiated = ''user_initiated''"
| "reason_text Compromise_Suspected = ''compromise_suspected''"
| "reason_text Device_Replaced = ''device_replaced''"
| "reason_text Policy_Violation = ''policy_violation''"
| "reason_text Expired_Unrenewed = ''expired_unrenewed''"

record revocation_entry =
  rv_deviceId :: string
  rv_revokedAt :: int
  rv_reason :: revocation_reason
  rv_revokedBy :: string
  rv_revocationNote :: "string option"
  rv_affectedCertificates :: "string list"
  rv_effectiveImmediately :: bool

record revocation_status =
  rs_deviceId :: string
  rs_revoked :: bool
  rs_revokedAt :: "int option"
  rs_reason :: "revocation_reason option"
  rs_revokedBy :: "string option"
  rs_revocationNote :: "string option"
  rs_affectedCertificates :: "string list"

record 'l revocation_store =
  rt_cacheTtlMs :: int
  rt_maxEntries :: nat
  rt_entries :: "(string, revocation_entry) jmap"
  rt_lastRefreshAt :: "int option"
  rt_listeners :: "'l list"

definition DEFAULT_REVOCATION_CACHE_TTL_MS :: int where
  "DEFAULT_REVOCATION_CACHE_TTL_MS = 60 * 1000"

definition DEFAULT_MAX_ENTRIES :: nat where
  "DEFAULT_MAX_ENTRIES = 10000"

definition new_store :: "int option \<Rightarrow> nat option \<Rightarrow> 'l revocation_store" where
  "new_store ttl maxEntries =
     \<lparr>rt_cacheTtlMs = (case ttl of None \<Rightarrow> DEFAULT_REVOCATION_CACHE_TTL_MS | Some t \<Rightarrow> t),
      rt_maxEntries = (case maxEntries of None \<Rightarrow> DEFAULT_MAX_ENTRIES | Some n \<Rightarrow> n),
      rt_entries = [], rt_lastRefreshAt = None, rt_listeners = []\<rparr>"

section \<open>The store\<close>

definition record_entry :: "revocation_entry \<Rightarrow> 'l revocation_store \<Rightarrow> 'l revocation_store" where
  "record_entry e st =
     (let entries = (if rt_maxEntries st \<le> length (rt_entries st)
                     then (case rt_entries st of
                             [] \<Rightarrow> []
                           | (oldestKey, _) # _ \<Rightarrow>
                               if oldestKey \<noteq> [] then AList.delete oldestKey (rt_entries st) else rt_entries st)
                     else rt_entries st)
      in st\<lparr>rt_entries := AList.update (rv_deviceId e) e entries\<rparr>)"

text \<open>The listeners run in the order they registered; each outcome is collected.\<close>

type_synonym ('l, 'w) runner = "'l \<Rightarrow> revocation_entry \<Rightarrow> 'w \<Rightarrow> 'w \<times> string option"

fun settle_all :: "('l, 'w) runner \<Rightarrow> 'l list \<Rightarrow> revocation_entry \<Rightarrow> 'w \<Rightarrow> 'w \<times> string list" where
  "settle_all run [] e w = (w, [])"
| "settle_all run (l # ls) e w =
     (let (w', outcome) = run l e w; (w'', failures) = settle_all run ls e w'
      in (w'', case outcome of None \<Rightarrow> failures | Some msg \<Rightarrow> msg # failures))"

definition add_entry ::
  "('l, 'w) runner \<Rightarrow> revocation_entry \<Rightarrow> 'l revocation_store \<Rightarrow> 'w \<Rightarrow> 'l revocation_store \<times> 'w" where
  "add_entry run e st w = (record_entry e st, fst (settle_all run (rt_listeners st) e w))"

record notify_result =
  nr_delivered :: bool
  nr_failures :: "string list"

definition addAndNotify ::
  "('l, 'w) runner \<Rightarrow> revocation_entry \<Rightarrow> 'l revocation_store \<Rightarrow> 'w
     \<Rightarrow> 'l revocation_store \<times> 'w \<times> notify_result" where
  "addAndNotify run e st w =
     (let (w', failures) = settle_all run (rt_listeners st) e w
      in (record_entry e st, w', \<lparr>nr_delivered = (failures = []), nr_failures = failures\<rparr>))"

definition remove_entry :: "string \<Rightarrow> 'l revocation_store \<Rightarrow> 'l revocation_store \<times> bool" where
  "remove_entry did st =
     (st\<lparr>rt_entries := AList.delete did (rt_entries st)\<rparr>, map_of (rt_entries st) did \<noteq> None)"

definition get_entry :: "string \<Rightarrow> 'l revocation_store \<Rightarrow> revocation_entry option" where
  "get_entry did st = map_of (rt_entries st) did"

definition not_revoked :: "string \<Rightarrow> string list \<Rightarrow> revocation_status" where
  "not_revoked did affected = \<lparr>rs_deviceId = did, rs_revoked = False, rs_revokedAt = None, rs_reason = None,
     rs_revokedBy = None, rs_revocationNote = None, rs_affectedCertificates = affected\<rparr>"

definition cert_affected :: "string option \<Rightarrow> revocation_entry \<Rightarrow> bool" where
  "cert_affected thumb e \<longleftrightarrow> \<not> truthy thumb \<or> the thumb \<in> set (rv_affectedCertificates e) \<or>
     rv_affectedCertificates e = []"

definition isRevoked :: "string \<Rightarrow> string option \<Rightarrow> 'l revocation_store \<Rightarrow> revocation_status" where
  "isRevoked did thumb st =
     (case map_of (rt_entries st) did of
        None \<Rightarrow> not_revoked did []
      | Some e \<Rightarrow>
          if \<not> cert_affected thumb e then not_revoked did (rv_affectedCertificates e)
          else \<lparr>rs_deviceId = did, rs_revoked = True, rs_revokedAt = Some (rv_revokedAt e),
                rs_reason = Some (rv_reason e), rs_revokedBy = Some (rv_revokedBy e),
                rs_revocationNote = rv_revocationNote e,
                rs_affectedCertificates = rv_affectedCertificates e\<rparr>)"

definition getRevocationList :: "'l revocation_store \<Rightarrow> revocation_entry list" where
  "getRevocationList st = sort_key (\<lambda>e. - rv_revokedAt e) (map snd (rt_entries st))"

definition needsRefresh :: "int \<Rightarrow> 'l revocation_store \<Rightarrow> bool" where
  "needsRefresh now st =
     (case rt_lastRefreshAt st of None \<Rightarrow> True | Some t \<Rightarrow> rt_cacheTtlMs st \<le> now - t)"

definition markRefreshed :: "int \<Rightarrow> 'l revocation_store \<Rightarrow> 'l revocation_store" where
  "markRefreshed now st = st\<lparr>rt_lastRefreshAt := Some now\<rparr>"

definition onRevocation :: "'l \<Rightarrow> 'l revocation_store \<Rightarrow> 'l revocation_store" where
  "onRevocation l st =
     (if l \<in> set (rt_listeners st) then st else st\<lparr>rt_listeners := rt_listeners st @ [l]\<rparr>)"

definition unsubscribe :: "'l \<Rightarrow> 'l revocation_store \<Rightarrow> 'l revocation_store" where
  "unsubscribe l st = st\<lparr>rt_listeners := removeAll l (rt_listeners st)\<rparr>"

definition store_size :: "'l revocation_store \<Rightarrow> nat" where
  "store_size st = length (rt_entries st)"

definition clear_store :: "'l revocation_store \<Rightarrow> 'l revocation_store" where
  "clear_store st = st\<lparr>rt_entries := [], rt_lastRefreshAt := None\<rparr>"

fun importBatch ::
  "('l, 'w) runner \<Rightarrow> revocation_entry list \<Rightarrow> 'l revocation_store \<Rightarrow> 'w \<Rightarrow> ('l revocation_store \<times> 'w) \<times> nat" where
  "importBatch run [] st w = ((st, w), 0)"
| "importBatch run (e # es) st w =
     (let added = (if map_of (rt_entries st) (rv_deviceId e) = None then 1 else 0);
          (st', w') = add_entry run e st w; (r, n) = importBatch run es st' w'
      in (r, added + n))"

section \<open>The checker\<close>

record revocation_client =
  checkRevocation :: "string \<Rightarrow> string \<Rightarrow> string + revocation_status"
  fetchRevocationList :: "int option \<Rightarrow> string + revocation_entry list"

record 'l revocation_checker =
  rc_store :: "'l revocation_store"
  rc_client :: "revocation_client option"
  rc_refreshTimer :: "int option"

text \<open>The listener the constructor registers when it is given a session invalidator.\<close>

definition session_listener ::
  "(string \<Rightarrow> string \<Rightarrow> 'w \<Rightarrow> 'w \<times> string option) \<Rightarrow> revocation_entry \<Rightarrow> 'w \<Rightarrow> 'w \<times> string option" where
  "session_listener invalidate e w =
     (if \<not> rv_effectiveImmediately e then (w, None)
      else invalidate (rv_deviceId e)
             (''Device revoked: '' @ reason_text (rv_reason e) @
              (if truthy (rv_revocationNote e) then '' - '' @ the (rv_revocationNote e) else [])) w)"

definition new_checker ::
  "'l revocation_store \<Rightarrow> revocation_client option \<Rightarrow> 'l option \<Rightarrow> 'l revocation_checker" where
  "new_checker st client invalidator =
     \<lparr>rc_store = (case invalidator of None \<Rightarrow> st | Some l \<Rightarrow> onRevocation l st),
      rc_client = client, rc_refreshTimer = None\<rparr>"

definition setClient :: "revocation_client option \<Rightarrow> 'l revocation_checker \<Rightarrow> 'l revocation_checker" where
  "setClient client c = c\<lparr>rc_client := client\<rparr>"

text \<open>Until the client is asked: the cached status, and the question if one is asked.\<close>

definition check_started ::
  "int \<Rightarrow> string \<Rightarrow> string option \<Rightarrow> 'l revocation_checker \<Rightarrow> revocation_status \<times> (string + revocation_status) option" where
  "check_started now did thumb c =
     (let status = isRevoked did thumb (rc_store c)
      in (status,
          case rc_client c of
            None \<Rightarrow> None
          | Some client \<Rightarrow>
              if \<not> rs_revoked status \<and> needsRefresh now (rc_store c)
              then Some (checkRevocation client did (case thumb of None \<Rightarrow> [] | Some t \<Rightarrow> t)) else None))"

definition fresh_entry :: "int \<Rightarrow> revocation_status \<Rightarrow> revocation_entry" where
  "fresh_entry now fresh =
     \<lparr>rv_deviceId = rs_deviceId fresh,
      rv_revokedAt = (case rs_revokedAt fresh of None \<Rightarrow> now | Some t \<Rightarrow> t),
      rv_reason = (case rs_reason fresh of None \<Rightarrow> Policy_Violation | Some r \<Rightarrow> r),
      rv_revokedBy = (case rs_revokedBy fresh of None \<Rightarrow> ''system'' | Some b \<Rightarrow> b),
      rv_revocationNote = rs_revocationNote fresh,
      rv_affectedCertificates = rs_affectedCertificates fresh,
      rv_effectiveImmediately = True\<rparr>"

definition check_answered ::
  "('l, 'w) runner \<Rightarrow> int \<Rightarrow> string + revocation_status \<Rightarrow> revocation_status \<Rightarrow> 'l revocation_checker \<Rightarrow> 'w
     \<Rightarrow> revocation_status \<times> 'l revocation_checker \<times> 'w" where
  "check_answered run now answer status c w =
     (case answer of
        Inl err \<Rightarrow> (status, c, w)
      | Inr fresh \<Rightarrow>
          if rs_revoked fresh
          then (let (st, w', r) = addAndNotify run (fresh_entry now fresh) (rc_store c) w
                in (fresh, c\<lparr>rc_store := markRefreshed now st\<rparr>, w'))
          else (status, c\<lparr>rc_store := markRefreshed now (rc_store c)\<rparr>, w))"

definition check_device ::
  "('l, 'w) runner \<Rightarrow> int \<Rightarrow> int \<Rightarrow> string \<Rightarrow> string option \<Rightarrow> 'l revocation_checker \<Rightarrow> 'w
     \<Rightarrow> revocation_status \<times> 'l revocation_checker \<times> 'w" where
  "check_device run now later did thumb c w =
     (case check_started now did thumb c of
        (status, None) \<Rightarrow> (status, c, w)
      | (status, Some answer) \<Rightarrow> check_answered run later answer status c w)"

definition refreshFromSource ::
  "('l, 'w) runner \<Rightarrow> int \<Rightarrow> int option \<Rightarrow> 'l revocation_checker \<Rightarrow> 'w \<Rightarrow> nat \<times> 'l revocation_checker \<times> 'w" where
  "refreshFromSource run now since c w =
     (case rc_client c of
        None \<Rightarrow> (0, c, w)
      | Some client \<Rightarrow>
          (case fetchRevocationList client since of
             Inl err \<Rightarrow> (0, c, w)
           | Inr entries \<Rightarrow>
               (let ((st, w'), added) = importBatch run entries (rc_store c) w
                in (added, c\<lparr>rc_store := markRefreshed now st\<rparr>, w'))))"

definition stopAutoRefresh :: "'l revocation_checker \<Rightarrow> 'l revocation_checker" where
  "stopAutoRefresh c = c\<lparr>rc_refreshTimer := None\<rparr>"

definition startAutoRefresh :: "int \<Rightarrow> 'l revocation_checker \<Rightarrow> 'l revocation_checker" where
  "startAutoRefresh intervalMs c = (stopAutoRefresh c)\<lparr>rc_refreshTimer := Some intervalMs\<rparr>"

definition shutdown_checker :: "'l revocation_checker \<Rightarrow> 'l revocation_checker" where
  "shutdown_checker c = (stopAutoRefresh c)\<lparr>rc_store := clear_store (rc_store c)\<rparr>"

section \<open>What the store keeps\<close>

definition own_entry :: "string \<times> revocation_entry \<Rightarrow> bool" where
  "own_entry = (\<lambda>(k, e). rv_deviceId e = k \<and> k \<noteq> [])"

definition store_ok :: "'l revocation_store \<Rightarrow> bool" where
  "store_ok st \<longleftrightarrow> entries_ok own_entry (rt_entries st) \<and> length (rt_entries st) \<le> max 1 (rt_maxEntries st)"

lemma store_ok_new: "store_ok (new_store ttl n)"
  by (simp add: store_ok_def new_store_def)

lemma record_fields [simp]:
  "rt_maxEntries (record_entry e st) = rt_maxEntries st" "rt_listeners (record_entry e st) = rt_listeners st"
  "rt_cacheTtlMs (record_entry e st) = rt_cacheTtlMs st" "rt_lastRefreshAt (record_entry e st) = rt_lastRefreshAt st"
  by (simp_all add: record_entry_def Let_def)

lemma length_update: "length (AList.update k v m) = (if k \<in> fst ` set m then length m else Suc (length m))"
  by (induction m) auto

lemma record_entries:
  "length (rt_entries st) < rt_maxEntries st \<Longrightarrow>
     rt_entries (record_entry e st) = AList.update (rv_deviceId e) e (rt_entries st)"
  by (simp add: record_entry_def)

lemma get_record: "get_entry (rv_deviceId e) (record_entry e st) = Some e"
  by (simp add: get_entry_def record_entry_def Let_def store_simps)

lemma delete_oldest: "k \<notin> fst ` set m \<Longrightarrow> AList.delete k ((k, v) # m) = m"
  by (induction m) (auto simp: AList.delete_eq)

lemma record_store_ok:
  assumes "store_ok st" "rv_deviceId e \<noteq> []" shows "store_ok (record_entry e st)"
proof (cases "rt_maxEntries st \<le> length (rt_entries st)")
  case False
  then have "entries_ok own_entry (rt_entries (record_entry e st))"
    using assms unfolding store_ok_def by (simp add: record_entries entries_ok_put own_entry_def)
  then show ?thesis using False unfolding store_ok_def by (simp add: record_entries length_update)
next
  case True
  show ?thesis
  proof (cases "rt_entries st")
    case Nil
    have "rt_entries (record_entry e st) = [(rv_deviceId e, e)]" using Nil by (simp add: record_entry_def)
    then show ?thesis using assms(2) by (simp add: store_ok_def entries_ok_def own_entry_def)
  next
    case (Cons x rest)
    obtain k v where x: "x = (k, v)" by (cases x)
    have ok: "entries_ok own_entry ((k, v) # rest)" using assms(1) unfolding store_ok_def Cons x by simp
    then have k: "k \<noteq> []" "k \<notin> fst ` set rest" by (auto simp: entries_ok_def own_entry_def)
    then have "AList.delete k ((k, v) # rest) = rest"
      by (simp add: delete_oldest)
    then have "rt_entries (record_entry e st) = AList.update (rv_deviceId e) e rest"
      using True k(1) unfolding record_entry_def Cons x by (simp add: Let_def)
    moreover have "entries_ok own_entry rest" using ok unfolding entries_ok_def by simp
    moreover have "Suc (length rest) \<le> max 1 (rt_maxEntries st)" using assms(1) Cons unfolding store_ok_def by simp
    ultimately show ?thesis using assms(2)
      unfolding store_ok_def by (simp add: entries_ok_put own_entry_def length_update)
  qed
qed

lemma settle_ignored: "fst (add_entry run e st w) = record_entry e st"
  by (simp add: add_entry_def)

lemma import_store:
  "fst (fst (importBatch run es st w)) = foldl (\<lambda>st e. record_entry e st) st es"
proof (induction es arbitrary: st w)
  case (Cons e es)
  then show ?case using settle_ignored [of run e st w]
    by (simp add: Let_def split: prod.splits) (metis fst_conv)
qed simp

text \<open>
  The store never holds more entries than its limit, whatever is imported, and each entry stays
  under the device it names, once.
\<close>

theorem revocation_store_bounded:
  assumes "store_ok st" "\<forall>e \<in> set es. rv_deviceId e \<noteq> []"
  shows "store_ok (fst (fst (importBatch run es st w)))"
  unfolding import_store using assms
  by (induction es arbitrary: st) (auto intro: record_store_ok)

definition laptop :: "string \<Rightarrow> revocation_entry" where
  "laptop did = \<lparr>rv_deviceId = did, rv_revokedAt = 0, rv_reason = Device_Replaced, rv_revokedBy = ''u'',
     rv_revocationNote = None, rv_affectedCertificates = [], rv_effectiveImmediately = True\<rparr>"

theorem revocation_store_bounded_witness:
  "store_ok (fst (fst (importBatch (\<lambda>(l :: nat) e (w :: unit). (w, None)) [laptop ''a'', laptop ''b'', laptop ''c'']
     (new_store None (Some 2)) ())))"
  by (rule revocation_store_bounded [OF store_ok_new]) (simp add: laptop_def)

lemma record_room:
  assumes "length (rt_entries st) < rt_maxEntries st" "get_entry did st = Some e" "cert_affected thumb e"
    and "rv_deviceId x = did \<longrightarrow> cert_affected thumb x"
  shows "\<exists>e. get_entry did (record_entry x st) = Some e \<and> cert_affected thumb e"
  using assms by (simp add: get_entry_def record_entries store_simps)

lemma import_room:
  assumes "length (rt_entries st) + length es \<le> rt_maxEntries st" "get_entry did st = Some e" "cert_affected thumb e"
    and "\<forall>x \<in> set es. rv_deviceId x = did \<longrightarrow> cert_affected thumb x"
  shows "\<exists>e. get_entry did (foldl (\<lambda>st e. record_entry e st) st es) = Some e \<and> cert_affected thumb e"
  using assms
proof (induction es arbitrary: st e)
  case (Cons x es)
  have room: "length (rt_entries st) < rt_maxEntries st" using Cons.prems(1) by simp
  have "length (rt_entries (record_entry x st)) \<le> Suc (length (rt_entries st))"
    using room by (simp add: record_entries length_update)
  then have "length (rt_entries (record_entry x st)) + length es \<le> rt_maxEntries (record_entry x st)"
    using Cons.prems(1) by simp
  moreover obtain e' where "get_entry did (record_entry x st) = Some e'" "cert_affected thumb e'"
    using record_room [OF room Cons.prems(2,3)] Cons.prems(4) by auto
  ultimately show ?case using Cons.IH Cons.prems(4) by simp
qed simp

lemma isRevoked_iff:
  "rs_revoked (isRevoked did thumb st) \<longleftrightarrow> (\<exists>e. get_entry did st = Some e \<and> cert_affected thumb e)"
  by (simp add: isRevoked_def get_entry_def not_revoked_def split: option.splits)



text \<open>
  When the store is full, revoking a device that is already listed still drops the oldest entry:
  that other device counts as not revoked from then on, and the store is no longer full.
\<close>

theorem readding_drops_another:
  assumes "rt_entries st = (old, x) # rest" "rt_maxEntries st \<le> length (rt_entries st)" "jmap_ok (rt_entries st)"
    and "old \<noteq> []" "rv_deviceId e \<in> fst ` set rest"
  shows "rs_revoked (isRevoked old None st) \<and> \<not> rs_revoked (isRevoked old None (record_entry e st)) \<and>
    store_size (record_entry e st) < store_size st"
proof -
  have "old \<notin> fst ` set rest" using assms(1,3) by simp
  then have del: "AList.delete old ((old, x) # rest) = rest"
    by (simp add: delete_oldest)
  then have ent: "rt_entries (record_entry e st) = AList.update (rv_deviceId e) e rest"
    using assms(1,2,4) by (simp add: record_entry_def Let_def)
  have "rv_deviceId e \<noteq> old" using assms(5) \<open>old \<notin> fst ` set rest\<close> by blast
  then have "map_of (rt_entries (record_entry e st)) old = None"
    unfolding ent using \<open>old \<notin> fst ` set rest\<close> by (simp add: store_simps map_of_eq_None_iff)
  then show ?thesis
    using assms(1,5) ent by (simp add: isRevoked_iff get_entry_def cert_affected_def store_size_def length_update)
qed

theorem readding_drops_another_witness:
  "\<not> rs_revoked (isRevoked ''a'' None (record_entry (laptop ''b'')
     ((new_store None (Some 2) :: nat revocation_store)\<lparr>rt_entries := [(''a'', laptop ''a''), (''b'', laptop ''b'')]\<rparr>)))"
proof -
  let ?st = "(new_store None (Some 2) :: nat revocation_store)\<lparr>rt_entries := [(''a'', laptop ''a''), (''b'', laptop ''b'')]\<rparr>"
  have "rs_revoked (isRevoked ''a'' None ?st) \<and> \<not> rs_revoked (isRevoked ''a'' None (record_entry (laptop ''b'') ?st)) \<and>
      store_size (record_entry (laptop ''b'') ?st) < store_size ?st"
    by (rule readding_drops_another [where x = "laptop ''a''" and rest = "[(''b'', laptop ''b'')]"])
      (simp_all add: new_store_def laptop_def)
  then show ?thesis by blast
qed

section \<open>What a check reports\<close>

text \<open>A client that answers about the device and the certificate it was asked for.\<close>

definition answers_the_question :: "revocation_client \<Rightarrow> bool" where
  "answers_the_question client \<longleftrightarrow> (\<forall>did thumb s. checkRevocation client did thumb = Inr s \<longrightarrow>
     rs_revoked s \<longrightarrow> rs_deviceId s = did \<and>
       (thumb = [] \<or> thumb \<in> set (rs_affectedCertificates s) \<or> rs_affectedCertificates s = []))"

lemma check_asks:
  "check_device run now later did thumb c w =
     (case rc_client c of
        Some client \<Rightarrow>
          if \<not> rs_revoked (isRevoked did thumb (rc_store c)) \<and> needsRefresh now (rc_store c)
          then check_answered run later (checkRevocation client did (case thumb of None \<Rightarrow> [] | Some t \<Rightarrow> t))
                 (isRevoked did thumb (rc_store c)) c w
          else (isRevoked did thumb (rc_store c), c, w)
      | None \<Rightarrow> (isRevoked did thumb (rc_store c), c, w))"
  by (simp add: check_device_def check_started_def Let_def split: option.splits)

text \<open>
  A device that a check reports as revoked is revoked in the store from then on, whoever reported
  it; when the client fails, or is not asked, the answer and the store are those of before.
\<close>

theorem check_remembers:
  assumes "\<forall>client. rc_client c = Some client \<longrightarrow> answers_the_question client"
    and r: "check_device run now later did thumb c w = (status, c', w')"
  shows "(rs_revoked status \<longrightarrow> rs_revoked (isRevoked did thumb (rc_store c'))) \<and>
    ((\<nexists>client s. rc_client c = Some client \<and>
        checkRevocation client did (case thumb of None \<Rightarrow> [] | Some t \<Rightarrow> t) = Inr s) \<longrightarrow>
      status = isRevoked did thumb (rc_store c) \<and> c' = c \<and> w' = w)"
proof (cases "\<exists>client. rc_client c = Some client \<and> \<not> rs_revoked (isRevoked did thumb (rc_store c)) \<and> needsRefresh now (rc_store c)")
  case False
  then have "status = isRevoked did thumb (rc_store c) \<and> c' = c \<and> w' = w"
    using r unfolding check_asks by (auto split: option.splits if_splits)
  then show ?thesis by simp
next
  case True
  then obtain client where client: "rc_client c = Some client"
    and miss: "\<not> rs_revoked (isRevoked did thumb (rc_store c))" and due: "needsRefresh now (rc_store c)" by blast
  let ?t = "case thumb of None \<Rightarrow> [] | Some t \<Rightarrow> t"
  have step: "check_answered run later (checkRevocation client did ?t) (isRevoked did thumb (rc_store c)) c w = (status, c', w')"
    using r client miss due unfolding check_asks by simp
  show ?thesis
  proof (cases "checkRevocation client did ?t")
    case (Inl err)
    then show ?thesis using step by (auto simp: check_answered_def)
  next
    case (Inr s)
    show ?thesis
    proof (cases "rs_revoked s")
      case True
      then have own: "rs_deviceId s = did" and "?t = [] \<or> ?t \<in> set (rs_affectedCertificates s) \<or> rs_affectedCertificates s = []"
        using assms(1) client Inr unfolding answers_the_question_def by blast+
      then have "cert_affected thumb (fresh_entry later s)"
        by (cases thumb) (auto simp: cert_affected_def fresh_entry_def)
      moreover have "get_entry did (rc_store c') = Some (fresh_entry later s)"
        using step Inr True get_record [of "fresh_entry later s" "rc_store c"] own
        by (auto simp: check_answered_def addAndNotify_def markRefreshed_def get_entry_def fresh_entry_def split: prod.splits)
      ultimately show ?thesis using client Inr by (simp add: isRevoked_iff)
    next
      case False
      then show ?thesis using step Inr miss client by (auto simp: check_answered_def)
    qed
  qed
qed

definition revoking_client :: revocation_client where
  "revoking_client = \<lparr>checkRevocation = (\<lambda>did thumb. Inr (if did = ''b''
       then \<lparr>rs_deviceId = did, rs_revoked = True, rs_revokedAt = None, rs_reason = None, rs_revokedBy = None,
             rs_revocationNote = None, rs_affectedCertificates = []\<rparr>
       else not_revoked did [])),
     fetchRevocationList = (\<lambda>_. Inr [])\<rparr>"

definition fresh_checker :: "nat revocation_checker" where
  "fresh_checker = new_checker (new_store None None) (Some revoking_client) None"

theorem check_remembers_witness:
  "\<exists>status c'. check_device (\<lambda>l e (w :: unit). (w, None)) 0 1 ''b'' None fresh_checker () = (status, c', ()) \<and>
     rs_revoked status \<and> rs_revoked (isRevoked ''b'' None (rc_store c'))"
proof -
  let ?r = "check_device (\<lambda>l e (w :: unit). (w, None)) 0 1 ''b'' None fresh_checker ()"
  have law: "\<forall>client. rc_client fresh_checker = Some client \<longrightarrow> answers_the_question client"
    by (simp add: fresh_checker_def new_checker_def revoking_client_def answers_the_question_def not_revoked_def)
  obtain status c' where r: "?r = (status, c', ())" using prod_cases3 [of ?r] by (metis old.unit.exhaust)
  have "rs_revoked (fst ?r)"
    by (simp add: check_asks fresh_checker_def new_checker_def new_store_def isRevoked_def not_revoked_def
      needsRefresh_def revoking_client_def check_answered_def addAndNotify_def)
  then have "rs_revoked status" using r by simp
  then show ?thesis using check_remembers [OF law r] r by blast
qed

text \<open>
  The time of the last refresh is one for all devices: once the client has cleared one device, a
  check of any other device within the cache's lifetime is answered from the cache alone, though the
  client would report that device as revoked and was never asked about it.
\<close>

theorem one_answer_silences_all:
  assumes "rc_client c = Some client" "\<not> rs_revoked (isRevoked d1 t1 (rc_store c))" "needsRefresh now (rc_store c)"
    and "checkRevocation client d1 (case t1 of None \<Rightarrow> [] | Some t \<Rightarrow> t) = Inr s" "\<not> rs_revoked s"
    and "check_device run now later d1 t1 c w = (s1, c1, w1)"
    and "time - later < rt_cacheTtlMs (rc_store c)"
  shows "check_device run time later' d2 t2 c1 w1 = (isRevoked d2 t2 (rc_store c), c1, w1)"
proof -
  have c1: "c1 = c\<lparr>rc_store := markRefreshed later (rc_store c)\<rparr>"
    using assms(1-6) by (simp add: check_asks check_answered_def)
  then have "\<not> needsRefresh time (rc_store c1)"
    using assms(7) by (simp add: needsRefresh_def markRefreshed_def)
  moreover have "isRevoked d2 t2 (rc_store c1) = isRevoked d2 t2 (rc_store c)"
    unfolding c1 by (simp add: isRevoked_def markRefreshed_def)
  ultimately show ?thesis using assms(1) unfolding c1 by (simp add: check_asks)
qed

theorem one_answer_silences_all_witness:
  "\<exists>c1. check_device (\<lambda>l e (w :: unit). (w, None)) 0 1 ''a'' None fresh_checker () = (not_revoked ''a'' [], c1, ()) \<and>
     check_device (\<lambda>l e (w :: unit). (w, None)) 59000 59001 ''b'' None c1 () = (not_revoked ''b'' [], c1, ())"
proof -
  let ?c1 = "fresh_checker\<lparr>rc_store := markRefreshed 1 (rc_store fresh_checker)\<rparr>"
  note defs = fresh_checker_def new_checker_def new_store_def isRevoked_def not_revoked_def
      needsRefresh_def revoking_client_def
  have first: "check_device (\<lambda>l e (w :: unit). (w, None)) 0 1 ''a'' None fresh_checker () = (not_revoked ''a'' [], ?c1, ())"
    by (simp add: check_asks check_answered_def defs)
  have cached: "isRevoked d t (rc_store fresh_checker) = not_revoked d []" for d t
    by (simp add: defs)
  have "check_device (\<lambda>l e (w :: unit). (w, None)) 59000 59001 ''b'' None ?c1 () =
      (isRevoked ''b'' None (rc_store fresh_checker), ?c1, ())"
    by (rule one_answer_silences_all [OF _ _ _ _ _ first, where client = revoking_client and s = "not_revoked ''a'' []"])
      (simp_all add: defs DEFAULT_REVOCATION_CACHE_TTL_MS_def)
  then show ?thesis using first cached by auto
qed

end
