(* ===== verification/CertManager.thy ===== *)
theory CertManager
  imports Certificates Revocation
begin

text \<open>
  The gateway's certificate manager (\<open>gateway/certificate/src/certificate-manager.ts\<close>): one current
  certificate, its renewal timer, and the listeners of revocations.  A request to the renewal client is
  split where it awaits the answer.  A pending timer is the time it is due; identifiers, random bytes
  and the clock are arguments.
\<close>

section \<open>Data\<close>

record cert_manager_options =
  co_autoRenew :: bool
  co_renewAtRemainingMs :: int
  co_autoRevokeCheck :: bool
  co_revocationCheckIntervalMs :: int
  co_defaultValidityMs :: int

definition DEFAULT_CERT_RENEW_AT_MS :: int where
  "DEFAULT_CERT_RENEW_AT_MS = DEFAULT_CERT_VALIDITY_MS * 7 div 10"

definition DEFAULT_CERT_MANAGER_OPTIONS :: cert_manager_options where
  "DEFAULT_CERT_MANAGER_OPTIONS = \<lparr>co_autoRenew = True, co_renewAtRemainingMs = DEFAULT_CERT_RENEW_AT_MS,
     co_autoRevokeCheck = True, co_revocationCheckIntervalMs = 60 * 1000,
     co_defaultValidityMs = DEFAULT_CERT_VALIDITY_MS\<rparr>"

record cert_identity =
  di_deviceId :: string
  di_gatewayId :: string
  di_publicKey :: bytes
  di_fingerprintHex :: string

text \<open>The two listeners a manager puts on its store.\<close>

datatype manager_listener = Manager_Listener | Checker_Listener

record cert_manager =
  cm_identity :: cert_identity
  cm_options :: cert_manager_options
  cm_revocationChecker :: "manager_listener revocation_checker"
  cm_embeddedCA :: "certificate_authority option"
  cm_currentCertificate :: "device_certificate option"
  cm_renewalTimer :: "int option"
  cm_renewalListeners :: "string list"
  cm_renewalsTold :: "(string \<times> device_certificate \<times> device_certificate) list"
  cm_revocationListeners :: "string list"
  cm_renewalClient :: bool
  cm_shuttingDown :: bool

text \<open>What the manager does to others: listeners told, sessions paused.\<close>

record revocation_log =
  rl_told :: "(string \<times> revocation_entry) list"
  rl_paused :: "(string \<times> string) list"

definition new_cert_manager ::
  "cert_identity \<Rightarrow> bool \<Rightarrow> cert_manager_options \<Rightarrow> certificate_authority option \<Rightarrow> cert_manager" where
  "new_cert_manager identity invalidator options ca =
     \<lparr>cm_identity = identity, cm_options = options,
      cm_revocationChecker = new_checker (onRevocation Manager_Listener (new_store None None)) None
        (if invalidator then Some Checker_Listener else None),
      cm_embeddedCA = ca, cm_currentCertificate = None, cm_renewalTimer = None, cm_renewalListeners = [],
      cm_renewalsTold = [], cm_revocationListeners = [], cm_renewalClient = False, cm_shuttingDown = False\<rparr>"

section \<open>Revocations\<close>

text \<open>The session invalidator: which pauses fail, and with what.\<close>

type_synonym invalidator = "string \<Rightarrow> string \<Rightarrow> string option"

definition tell :: "string list \<Rightarrow> revocation_entry \<Rightarrow> revocation_log \<Rightarrow> revocation_log" where
  "tell listeners e log = log\<lparr>rl_told := rl_told log @ map (\<lambda>l. (l, e)) listeners\<rparr>"

definition pauseAllSessions ::
  "invalidator \<Rightarrow> string \<Rightarrow> string \<Rightarrow> revocation_log \<Rightarrow> revocation_log \<times> string option" where
  "pauseAllSessions pause did reason log =
     (log\<lparr>rl_paused := rl_paused log @ [(did, reason)]\<rparr>, pause did reason)"

fun manager_runner ::
  "invalidator option \<Rightarrow> string list \<Rightarrow> (manager_listener, revocation_log) runner" where
  "manager_runner pause listeners Manager_Listener e log =
     (let log = tell listeners e log
      in case pause of
           Some p \<Rightarrow>
             if rv_effectiveImmediately e
             then pauseAllSessions p (rv_deviceId e) (''Device revoked: '' @ reason_text (rv_reason e)) log
             else (log, None)
         | None \<Rightarrow> (log, None))"
| "manager_runner pause listeners Checker_Listener e log =
     (case pause of
        None \<Rightarrow> (log, None)
      | Some p \<Rightarrow>
          session_listener (\<lambda>did reason log.
            (case pauseAllSessions p did reason log of
               (log, Some err) \<Rightarrow> (log, Some err)
             | (log, None) \<Rightarrow> (tell listeners e log, None))) e log)"

definition revoke_device ::
  "invalidator option \<Rightarrow> revocation_entry \<Rightarrow> cert_manager \<Rightarrow> revocation_log
     \<Rightarrow> cert_manager \<times> revocation_log \<times> notify_result" where
  "revoke_device pause e m log =
     (let (st, log', r) = addAndNotify (manager_runner pause (cm_revocationListeners m)) e
            (rc_store (cm_revocationChecker m)) log
      in (m\<lparr>cm_revocationChecker := (cm_revocationChecker m)\<lparr>rc_store := st\<rparr>\<rparr>, log', r))"

definition checkRevocation_of ::
  "invalidator option \<Rightarrow> int \<Rightarrow> int \<Rightarrow> string option \<Rightarrow> cert_manager \<Rightarrow> revocation_log
     \<Rightarrow> bool \<times> cert_manager \<times> revocation_log" where
  "checkRevocation_of pause now later thumb m log =
     (let thumbprint = (case thumb of Some t \<Rightarrow> t
            | None \<Rightarrow> (case cm_currentCertificate m of Some c \<Rightarrow> dc_thumbprint c | None \<Rightarrow> []));
          (status, checker, log') = check_device (manager_runner pause (cm_revocationListeners m)) now later
            (di_deviceId (cm_identity m)) (Some thumbprint) (cm_revocationChecker m) log
      in (rs_revoked status, m\<lparr>cm_revocationChecker := checker\<rparr>, log'))"

section \<open>The current certificate and its renewal\<close>

definition hasCertificate :: "cert_manager \<Rightarrow> bool" where
  "hasCertificate m \<longleftrightarrow> cm_currentCertificate m \<noteq> None"

definition isCertificateValidNow :: "int \<Rightarrow> cert_manager \<Rightarrow> bool" where
  "isCertificateValidNow now m \<longleftrightarrow>
     (case cm_currentCertificate m of None \<Rightarrow> False | Some c \<Rightarrow> isCertificateValid now c)"

definition needsRenewal :: "int \<Rightarrow> cert_manager \<Rightarrow> bool" where
  "needsRenewal now m \<longleftrightarrow>
     (case cm_currentCertificate m of None \<Rightarrow> True | Some c \<Rightarrow> shouldRenewCertificate now c)"

definition certificate_chain_of ::
  "(bytes \<Rightarrow> string) \<Rightarrow> int \<Rightarrow> bytes \<Rightarrow> string \<Rightarrow> cert_manager \<Rightarrow> certificate_chain option" where
  "certificate_chain_of sha now random cid m =
     (case (cm_currentCertificate m, cm_embeddedCA m) of
        (Some c, Some ca) \<Rightarrow> Some (getCertificateChain sha now random cid c ca)
      | _ \<Rightarrow> None)"

text \<open>\<open>setTimeout\<close> of node takes a delay that is not from 1 to 2147483647 milliseconds for 1.\<close>

definition timeout_delay :: "int \<Rightarrow> int" where
  "timeout_delay d = (if 1 \<le> d \<and> d \<le> 2147483647 then d else 1)"

definition clearRenewalTimer :: "cert_manager \<Rightarrow> cert_manager" where
  "clearRenewalTimer m = m\<lparr>cm_renewalTimer := None\<rparr>"

definition scheduleRenewal :: "int \<Rightarrow> cert_manager \<Rightarrow> cert_manager" where
  "scheduleRenewal now m =
     (let m = clearRenewalTimer m
      in case cm_currentCertificate m of
           None \<Rightarrow> m
         | Some c \<Rightarrow>
             if \<not> co_autoRenew (cm_options m) \<or> cm_shuttingDown m then m
             else (let renewAt = dc_expiresAt c - co_renewAtRemainingMs (cm_options m);
                       delay = max 0 (renewAt - now)
                   in m\<lparr>cm_renewalTimer := Some (now + timeout_delay delay)\<rparr>))"

definition request_of :: "cert_manager \<Rightarrow> signing_request" where
  "request_of m = \<lparr>cr_deviceId = di_deviceId (cm_identity m), cr_gatewayId = di_gatewayId (cm_identity m),
     cr_spki = di_publicKey (cm_identity m), cr_fingerprintHex = di_fingerprintHex (cm_identity m),
     cr_validityMs = Some (co_defaultValidityMs (cm_options m))\<rparr>"

datatype cert_outcome =
  Have device_certificate
| Ask_Initial signing_request
| Ask_Renewal device_certificate signing_request
| Cert_Error string

definition certificate_issued :: "int \<Rightarrow> device_certificate \<Rightarrow> cert_manager \<Rightarrow> cert_manager \<times> cert_outcome" where
  "certificate_issued now cert m =
     (let m = scheduleRenewal now (m\<lparr>cm_currentCertificate := Some cert\<rparr>);
          m = (if co_autoRevokeCheck (cm_options m)
               then m\<lparr>cm_revocationChecker :=
                 startAutoRefresh (co_revocationCheckIntervalMs (cm_options m)) (cm_revocationChecker m)\<rparr>
               else m)
      in (m, Have cert))"

definition issueInitialCertificate ::
  "(bytes \<Rightarrow> string) \<Rightarrow> int \<Rightarrow> bytes \<Rightarrow> string \<Rightarrow> cert_manager \<Rightarrow> cert_manager \<times> cert_outcome" where
  "issueInitialCertificate sha now random cid m =
     (if isCertificateValidNow now m then (m, Have (the (cm_currentCertificate m)))
      else case cm_embeddedCA m of
             Some ca \<Rightarrow> certificate_issued now (issueDeviceCertificate sha now random cid (request_of m) ca) m
           | None \<Rightarrow>
               if cm_renewalClient m then (m, Ask_Initial (request_of m))
               else (m, Cert_Error ''No CA available for issuing certificate. Configure embedded CA or renewal client.''))"

text \<open>The listeners of a renewal are told the old and the new certificate; their exceptions are swallowed.\<close>

definition certificate_renewed :: "int \<Rightarrow> device_certificate \<Rightarrow> cert_manager \<Rightarrow> cert_manager \<times> cert_outcome" where
  "certificate_renewed now newCert m =
     (scheduleRenewal now (m\<lparr>cm_currentCertificate := Some newCert,
        cm_renewalsTold := cm_renewalsTold m @
          map (\<lambda>l. (l, the (cm_currentCertificate m), newCert)) (cm_renewalListeners m)\<rparr>), Have newCert)"

definition renewCertificate ::
  "(bytes \<Rightarrow> string) \<Rightarrow> int \<Rightarrow> bytes \<Rightarrow> string \<Rightarrow> cert_manager \<Rightarrow> cert_manager \<times> cert_outcome" where
  "renewCertificate sha now random cid m =
     (case cm_currentCertificate m of
        None \<Rightarrow> issueInitialCertificate sha now random cid m
      | Some c \<Rightarrow>
          (case cm_embeddedCA m of
             Some ca \<Rightarrow> certificate_renewed now (issueDeviceCertificate sha now random cid (request_of m) ca) m
           | None \<Rightarrow>
               if cm_renewalClient m then (m, Ask_Renewal c (request_of m))
               else (m, Cert_Error ''No CA available for renewing certificate.'')))"

definition renewal_failed :: "int \<Rightarrow> cert_manager \<Rightarrow> cert_manager" where
  "renewal_failed now m = (clearRenewalTimer m)\<lparr>cm_renewalTimer := Some (now + timeout_delay (5 * 60 * 1000))\<rparr>"

text \<open>The timer fires; a request to the client is answered later.\<close>

definition autoRenewInternal ::
  "(bytes \<Rightarrow> string) \<Rightarrow> int \<Rightarrow> bytes \<Rightarrow> string \<Rightarrow> cert_manager \<Rightarrow> cert_manager \<times> cert_outcome option" where
  "autoRenewInternal sha now random cid m =
     (let m = m\<lparr>cm_renewalTimer := None\<rparr>
      in if cm_shuttingDown m then (m, None)
         else case renewCertificate sha now random cid m of
                (m', Cert_Error msg) \<Rightarrow> (renewal_failed now m', None)
              | (m', r) \<Rightarrow> (m', Some r))"

definition setRenewalClient :: "bool \<Rightarrow> cert_manager \<Rightarrow> cert_manager" where
  "setRenewalClient given m = m\<lparr>cm_renewalClient := given\<rparr>"

definition onRenewal :: "string \<Rightarrow> cert_manager \<Rightarrow> cert_manager" where
  "onRenewal l m =
     (if l \<in> set (cm_renewalListeners m) then m
      else m\<lparr>cm_renewalListeners := cm_renewalListeners m @ [l]\<rparr>)"

definition manager_onRevocation :: "string \<Rightarrow> cert_manager \<Rightarrow> cert_manager" where
  "manager_onRevocation l m =
     (if l \<in> set (cm_revocationListeners m) then m
      else m\<lparr>cm_revocationListeners := cm_revocationListeners m @ [l]\<rparr>)"

definition setEmbeddedCAForTesting ::
  "(bytes \<Rightarrow> string) \<Rightarrow> int \<Rightarrow> bytes \<Rightarrow> bytes \<Rightarrow> ca_key \<Rightarrow> ca_key \<Rightarrow> cert_manager \<Rightarrow> cert_manager" where
  "setEmbeddedCAForTesting sha now random1 random2 rootKey intermediateKey m =
     (if cm_embeddedCA m \<noteq> None then m
      else m\<lparr>cm_embeddedCA := Some (new_authority sha now random1 random2 rootKey DEFAULT_ROOT_CA_CONFIG
             (Some (intermediateKey, DEFAULT_INTERMEDIATE_CA_CONFIG)))\<rparr>)"

definition shutdown_cert_manager :: "cert_manager \<Rightarrow> cert_manager" where
  "shutdown_cert_manager m =
     (if cm_shuttingDown m then m
      else (clearRenewalTimer (m\<lparr>cm_shuttingDown := True\<rparr>))
             \<lparr>cm_revocationChecker := shutdown_checker (cm_revocationChecker m),
              cm_renewalListeners := [], cm_revocationListeners := []\<rparr>)"

section \<open>Renewal over time\<close>

text \<open>A run of the timer: it fires when it is due, with the bytes and the identifier given.\<close>

definition fire :: "(bytes \<Rightarrow> string) \<Rightarrow> cert_manager \<Rightarrow> bytes \<times> string \<Rightarrow> cert_manager" where
  "fire sha m x =
     (case cm_renewalTimer m of None \<Rightarrow> m | Some due \<Rightarrow> fst (autoRenewInternal sha due (fst x) (snd x) m))"

text \<open>The state between two firings: a certificate issued at \<open>t\<close>, and the timer a period later.\<close>

definition renewal_period :: "cert_manager_options \<Rightarrow> int" where
  "renewal_period opts = timeout_delay (max 0 (co_defaultValidityMs opts - co_renewAtRemainingMs opts))"

definition renewing :: "cert_manager_options \<Rightarrow> int \<Rightarrow> cert_manager \<Rightarrow> bool" where
  "renewing opts t m \<longleftrightarrow> cm_options m = opts \<and> co_autoRenew opts \<and> \<not> cm_shuttingDown m \<and>
     cm_embeddedCA m \<noteq> None \<and>
     (\<exists>c. cm_currentCertificate m = Some c \<and> dc_issuedAt c = t \<and> dc_expiresAt c = t + co_defaultValidityMs opts) \<and>
     cm_renewalTimer m = Some (t + renewal_period opts)"

lemma issued_times:
  "dc_issuedAt (issueDeviceCertificate sha now random cid (request_of m) ca) = now"
  "dc_expiresAt (issueDeviceCertificate sha now random cid (request_of m) ca) = now + co_defaultValidityMs (cm_options m)"
  by (simp_all add: issueDeviceCertificate_def request_of_def Let_def)

lemma fire_renewing:
  assumes "renewing opts t m" shows "renewing opts (t + renewal_period opts) (fire sha m x)"
  using assms unfolding renewing_def
  by (auto simp: fire_def autoRenewInternal_def renewCertificate_def certificate_renewed_def scheduleRenewal_def
    clearRenewalTimer_def issued_times renewal_period_def Let_def)

lemma issue_renewing:
  assumes "cm_currentCertificate m = None" "cm_embeddedCA m \<noteq> None" "co_autoRenew (cm_options m)" "\<not> cm_shuttingDown m"
  shows "renewing (cm_options m) now (fst (issueInitialCertificate sha now random cid m))"
  using assms unfolding renewing_def
  by (auto simp: issueInitialCertificate_def isCertificateValidNow_def certificate_issued_def scheduleRenewal_def
    clearRenewalTimer_def issued_times renewal_period_def Let_def
    split: if_splits)

lemma fires_renewing:
  "renewing opts t m \<Longrightarrow> renewing opts (t + int (length xs) * renewal_period opts) (foldl (fire sha) m xs)"
proof (induction xs arbitrary: t m)
  case (Cons x xs)
  from Cons.IH [OF fire_renewing [OF Cons.prems, of sha x]] show ?case
    by (simp add: algebra_simps)
qed simp


definition test_manager :: "cert_manager_options \<Rightarrow> cert_manager" where
  "test_manager opts = new_cert_manager
     \<lparr>di_deviceId = ''dev_0a'', di_gatewayId = ''g'', di_publicKey = [7], di_fingerprintHex = ''''\<rparr> True opts
     (Some plain_authority)"

text \<open>With a validity of thirty days the timer fires every millisecond.\<close>

definition month_options :: cert_manager_options where
  "month_options = DEFAULT_CERT_MANAGER_OPTIONS\<lparr>co_defaultValidityMs := 2592000000\<rparr>"


text \<open>
  When the manager is shut down while the first certificate is being requested, the answer starts the
  refresh timer of the revocation checker again, and no later shutdown stops it.
\<close>

theorem late_certificate_restarts_refresh:
  assumes "co_autoRevokeCheck (cm_options m)"
  shows "(let m1 = fst (certificate_issued now cert (shutdown_cert_manager m))
     in cm_shuttingDown m1 \<and> cm_renewalTimer m1 = None \<and>
        rc_refreshTimer (cm_revocationChecker m1) = Some (co_revocationCheckIntervalMs (cm_options m)) \<and>
        shutdown_cert_manager m1 = m1)"
  using assms
  by (simp add: certificate_issued_def shutdown_cert_manager_def scheduleRenewal_def clearRenewalTimer_def
    startAutoRefresh_def)

theorem late_certificate_restarts_refresh_witness:
  "rc_refreshTimer (cm_revocationChecker (shutdown_cert_manager (fst (certificate_issued 5
     (issueDeviceCertificate (\<lambda>_. '''') 0 [9] ''0'' plain_request plain_authority)
     (shutdown_cert_manager (test_manager DEFAULT_CERT_MANAGER_OPTIONS)))))) = Some 60000"
proof -
  have "co_autoRevokeCheck (cm_options (test_manager DEFAULT_CERT_MANAGER_OPTIONS))"
    by (simp add: test_manager_def new_cert_manager_def DEFAULT_CERT_MANAGER_OPTIONS_def)
  from late_certificate_restarts_refresh [OF this, of 5 "issueDeviceCertificate (\<lambda>_. '''') 0 [9] ''0'' plain_request plain_authority"]
  show ?thesis
    by (simp only: Let_def) (simp add: test_manager_def new_cert_manager_def DEFAULT_CERT_MANAGER_OPTIONS_def)
qed

text \<open>
  A manager with a session invalidator tells every revocation listener twice of one immediate
  revocation and pauses the device's sessions twice; it is delivered when neither pause fails.
\<close>

theorem revocation_told_twice:
  assumes "rv_effectiveImmediately e" "rt_listeners (rc_store (cm_revocationChecker m)) = [Manager_Listener, Checker_Listener]"
    and "\<And>did reason. pause did reason = None"
  shows "(let (m', log', r) = revoke_device (Some pause) e m log; told = map (\<lambda>l. (l, e)) (cm_revocationListeners m)
     in rl_told log' = rl_told log @ told @ told \<and>
        map fst (rl_paused log') = map fst (rl_paused log) @ [rv_deviceId e, rv_deviceId e] \<and> nr_delivered r \<and>
        get_entry (rv_deviceId e) (rc_store (cm_revocationChecker m')) = Some e)"
  using assms get_record [of e "rc_store (cm_revocationChecker m)"]
  by (simp add: revoke_device_def addAndNotify_def tell_def pauseAllSessions_def session_listener_def)

theorem revocation_told_twice_witness:
  "rl_told (fst (snd (revoke_device (Some (\<lambda>_ _. None)) (laptop ''dev_0a'')
     (manager_onRevocation ''ui'' (test_manager DEFAULT_CERT_MANAGER_OPTIONS)) \<lparr>rl_told = [], rl_paused = []\<rparr>))) =
   [(''ui'', laptop ''dev_0a''), (''ui'', laptop ''dev_0a'')]"
proof -
  let ?m = "manager_onRevocation ''ui'' (test_manager DEFAULT_CERT_MANAGER_OPTIONS)"
  have "rt_listeners (rc_store (cm_revocationChecker ?m)) = [Manager_Listener, Checker_Listener]"
    "cm_revocationListeners ?m = [''ui'']"
    by (simp_all add: manager_onRevocation_def test_manager_def new_cert_manager_def new_checker_def new_store_def
      onRevocation_def)
  moreover have "rv_effectiveImmediately (laptop ''dev_0a'')" by (simp add: laptop_def)
  ultimately show ?thesis
    using revocation_told_twice [of "laptop ''dev_0a''" ?m "\<lambda>_ _. None" "\<lparr>rl_told = [], rl_paused = []\<rparr>"]
    by (simp add: Let_def split: prod.splits)
qed

end
