(* ===== verification/DeviceAuth.thy ===== *)
theory DeviceAuth
  imports AuditTrail Connections Dates
begin

text \<open>
  The challenge-response authentication of gateways: \<open>DeviceAuthenticator\<close> with its nonce cache
  (\<open>control-plane/src/tunnel/device-auth.ts\<close>), the texts that are signed and their verification
  (\<open>control-plane/src/auth/device-signature.ts\<close>), and \<open>TunnelServer.handleAuthMessage\<close>
  (\<open>tunnel-server.ts\<close>), which registers the connection in the registry of Connections.  Node's crypto
  and \<open>Date.parse\<close>, which accepts more than ISO texts, are parameters; random texts and the clock are
  arguments.  A message is handled at once: a device's row is read and used in the same step.
\<close>

section \<open>Signatures\<close>

text \<open>
  The crypto library on the type \<open>'k\<close> of key objects: \<open>createPublicKey\<close>, which may throw, the bytes of a
  base64 text, and \<open>verify\<close> for a digest, a text in UTF-8, a key and a signature, which may throw.
\<close>

record 'k crypto_library =
  cl_createPublicKey :: "(string \<times> js_value) list \<Rightarrow> 'k option"
  cl_base64 :: "string \<Rightarrow> string"
  cl_verify :: "string option \<Rightarrow> string \<Rightarrow> 'k \<Rightarrow> string \<Rightarrow> bool option"

definition digestAlgorithmFor :: "(string \<times> js_value) list \<Rightarrow> string option" where
  "digestAlgorithmFor jwk =
     (if js_text (js_field (Some jwk) ''kty'') = ''OKP'' \<and> js_text (js_field (Some jwk) ''crv'') = ''Ed25519''
      then None else Some ''sha512'')"

definition isUsablePublicKeyJwk :: "js_value \<Rightarrow> bool" where
  "isUsablePublicKeyJwk jwk \<longleftrightarrow>
     (case jwk of
        JS_Object r \<Rightarrow> js_text (js_field (Some r) ''kty'') \<noteq> [] \<and> \<not> is_text (js_field (Some r) ''d'')
      | _ \<Rightarrow> False)"

definition members_of :: "js_value \<Rightarrow> (string \<times> js_value) list" where
  "members_of jwk = (case jwk of JS_Object r \<Rightarrow> r | _ \<Rightarrow> [])"

definition verifyDeviceSignature :: "'k crypto_library \<Rightarrow> string \<Rightarrow> string \<Rightarrow> js_value \<Rightarrow> bool" where
  "verifyDeviceSignature lib data signature jwk \<longleftrightarrow>
     signature \<noteq> [] \<and> isUsablePublicKeyJwk jwk \<and>
     (case cl_createPublicKey lib (members_of jwk) of
        None \<Rightarrow> False
      | Some key \<Rightarrow>
          cl_base64 lib signature \<noteq> [] \<and>
          cl_verify lib (digestAlgorithmFor (members_of jwk)) data key (cl_base64 lib signature) = Some True)"

definition isSameDeviceKey :: "js_value \<Rightarrow> js_value \<Rightarrow> bool" where
  "isSameDeviceKey a b \<longleftrightarrow> isUsablePublicKeyJwk a \<and> isUsablePublicKeyJwk b \<and>
     list_all (\<lambda>k. js_field (Some (members_of a)) k = js_field (Some (members_of b)) k)
       [''kty'', ''crv'', ''x'', ''y'', ''n'', ''e''] \<and>
     is_text (js_field (Some (members_of a)) ''kty'')"

text \<open>\<open>JSON.stringify\<close> of an object of strings.\<close>

definition json_object :: "(string \<times> string) list \<Rightarrow> string" where
  "json_object kvs = ''{'' @ js_join '','' (map (\<lambda>(k, v). json_string k @ '':'' @ json_string v) kvs) @ ''}''"

definition initialAuthSignatureBase :: "string \<Rightarrow> string \<Rightarrow> string \<Rightarrow> string \<Rightarrow> string option \<Rightarrow> string" where
  "initialAuthSignatureBase did gid nonce timestamp thumb =
     json_object [(''deviceId'', did), (''gatewayId'', gid), (''nonce'', nonce), (''timestamp'', timestamp),
       (''certificateThumbprint'', case thumb of None \<Rightarrow> [] | Some t \<Rightarrow> t)]"

definition challengeSignatureBase :: "string \<Rightarrow> string \<Rightarrow> string \<Rightarrow> string" where
  "challengeSignatureBase challenge serverNonce issuedAt =
     json_object [(''challenge'', challenge), (''serverNonce'', serverNonce), (''issuedAt'', issuedAt)]"

definition pairingSignatureBase :: "string \<Rightarrow> string \<Rightarrow> string \<Rightarrow> string \<Rightarrow> string" where
  "pairingSignatureBase code did gid timestamp =
     json_object [(''purpose'', ''odysseus.pairing.v1''), (''code'', code), (''deviceId'', did),
       (''gatewayId'', gid), (''timestamp'', timestamp)]"

section \<open>Nonces\<close>

type_synonym nonce_cache = "(string, int) jmap"

text \<open>The loop over the entries in the order of insertion, up to the first that has not expired.\<close>

definition prune :: "int \<Rightarrow> nonce_cache \<Rightarrow> nonce_cache" where
  "prune now c = dropWhile (\<lambda>(k, expiresAt). expiresAt \<le> now) c"

definition admit :: "nat \<Rightarrow> string \<Rightarrow> int \<Rightarrow> int \<Rightarrow> nonce_cache \<Rightarrow> bool \<times> nonce_cache" where
  "admit maxEntries key expiresAt now c =
     (let c = prune now c in
      if map_of c key \<noteq> None then (False, c)
      else (let c = (if maxEntries \<le> length c then tl c else c) in (True, AList.update key expiresAt c)))"

section \<open>The authenticator\<close>

record pending_challenge =
  pc_challenge :: string
  pc_serverNonce :: string
  pc_issuedAtIso :: string
  pc_expiresAt :: int
  pc_deviceId :: string
  pc_gatewayId :: string
  pc_connectionId :: string

record initial_auth =
  ia_deviceId :: string
  ia_gatewayId :: string
  ia_connectionId :: string
  ia_nonce :: string
  ia_timestamp :: string
  ia_certificateThumbprint :: "string option"
  ia_signature :: string

datatype auth_code =
  Invalid_Credentials | Device_Not_Trusted | Device_Revoked | Device_Key_Missing | Clock_Skew
| Replayed_Nonce | Signature_Invalid | Challenge_Expired | Challenge_Mismatch

record auth_denial =
  ad_code :: auth_code
  ad_reason :: string
  ad_retryable :: bool
  ad_fatal :: bool

record device_authenticator =
  da_clockSkewToleranceMs :: int
  da_challengeTtlMs :: int
  da_maxEntries :: nat
  da_nonces :: nonce_cache

definition DEFAULT_CLOCK_SKEW_TOLERANCE_MS :: int where "DEFAULT_CLOCK_SKEW_TOLERANCE_MS = 120000"
definition DEFAULT_CHALLENGE_TTL_MS :: int where "DEFAULT_CHALLENGE_TTL_MS = 30000"

definition new_authenticator :: "int option \<Rightarrow> int option \<Rightarrow> device_authenticator" where
  "new_authenticator skew ttl =
     \<lparr>da_clockSkewToleranceMs = (case skew of None \<Rightarrow> DEFAULT_CLOCK_SKEW_TOLERANCE_MS | Some n \<Rightarrow> n),
      da_challengeTtlMs = (case ttl of None \<Rightarrow> DEFAULT_CHALLENGE_TTL_MS | Some n \<Rightarrow> n),
      da_maxEntries = 10000, da_nonces = []\<rparr>"

definition deny :: "auth_code \<Rightarrow> string \<Rightarrow> bool \<Rightarrow> bool \<Rightarrow> auth_denial" where
  "deny code reason retryable fatal =
     \<lparr>ad_code = code, ad_reason = reason, ad_retryable = retryable, ad_fatal = fatal\<rparr>"

definition nonce_key :: "initial_auth \<Rightarrow> string" where
  "nonce_key i = ia_deviceId i @ '':'' @ ia_nonce i"

definition initial_base :: "initial_auth \<Rightarrow> string" where
  "initial_base i = initialAuthSignatureBase (ia_deviceId i) (ia_gatewayId i) (ia_nonce i) (ia_timestamp i)
     (ia_certificateThumbprint i)"

definition beginAuth ::
  "'k crypto_library \<Rightarrow> (string \<Rightarrow> int option) \<Rightarrow> int \<Rightarrow> string \<times> string \<Rightarrow> initial_auth \<Rightarrow> js_value
     \<Rightarrow> device_authenticator \<Rightarrow> device_authenticator \<times> (auth_denial + pending_challenge)" where
  "beginAuth lib parse now random i jwk a =
     (if ia_deviceId i = [] \<or> ia_gatewayId i = []
      then (a, Inl (deny Invalid_Credentials ''Missing deviceId or gatewayId'' False True))
      else if \<not> isUsablePublicKeyJwk jwk
      then (a, Inl (deny Device_Key_Missing
        ''No public key is recorded for this device, so its identity cannot be verified. Re-pair the gateway to register its key.''
        False True))
      else if ia_signature i = [] \<or> ia_nonce i = [] \<or> ia_timestamp i = []
      then (a, Inl (deny Signature_Invalid ''Auth payload is missing nonce, timestamp or signature'' False True))
      else case parse (ia_timestamp i) of
        None \<Rightarrow> (a, Inl (deny Clock_Skew ''Auth timestamp is not a valid date'' False True))
      | Some ts \<Rightarrow>
          if \<bar>now - ts\<bar> > da_clockSkewToleranceMs a
          then (a, Inl (deny Clock_Skew (''Auth timestamp is '' @ show_int ((\<bar>now - ts\<bar> + 500) div 1000) @
                 ''s from server time; check the workstation clock'') True False))
          else (case admit (da_maxEntries a) (nonce_key i) (now + da_clockSkewToleranceMs a) now (da_nonces a) of
              (False, c) \<Rightarrow> (a\<lparr>da_nonces := c\<rparr>,
                Inl (deny Replayed_Nonce ''This auth nonce has already been used'' False True))
            | (True, c) \<Rightarrow>
                (a\<lparr>da_nonces := c\<rparr>,
                 if \<not> verifyDeviceSignature lib (initial_base i) (ia_signature i) jwk
                 then Inl (deny Signature_Invalid
                   ''Auth signature does not match the key registered for this device'' False True)
                 else Inr \<lparr>pc_challenge = fst random, pc_serverNonce = snd random, pc_issuedAtIso = toISOString now,
                   pc_expiresAt = now + da_challengeTtlMs a, pc_deviceId = ia_deviceId i,
                   pc_gatewayId = ia_gatewayId i, pc_connectionId = ia_connectionId i\<rparr>)))"

text \<open>A socket's payload: its fields read as texts, absent ones as the empty text.\<close>

type_synonym payload = "(string \<times> js_value) list"

definition text_field :: "payload \<Rightarrow> string \<Rightarrow> string" where
  "text_field p k = js_text (js_field (Some p) k)"

definition completeAuth ::
  "'k crypto_library \<Rightarrow> int \<Rightarrow> pending_challenge \<Rightarrow> payload \<Rightarrow> js_value \<Rightarrow> auth_denial option" where
  "completeAuth lib now pending response jwk =
     (if now > pc_expiresAt pending
      then Some (deny Challenge_Expired ''Challenge expired before a response arrived'' True True)
      else if text_field response ''challenge'' \<noteq> pc_challenge pending \<or>
              text_field response ''serverNonce'' \<noteq> pc_serverNonce pending \<or>
              (text_field response ''deviceId'' \<noteq> [] \<and> text_field response ''deviceId'' \<noteq> pc_deviceId pending)
      then Some (deny Challenge_Mismatch
        ''Challenge response does not match the challenge issued on this connection'' False True)
      else if \<not> verifyDeviceSignature lib (challengeSignatureBase (pc_challenge pending) (pc_serverNonce pending)
              (pc_issuedAtIso pending)) (text_field response ''signature'') jwk
      then Some (deny Signature_Invalid
        ''Challenge signature does not match the key registered for this device'' False True)
      else None)"

section \<open>The server\<close>

datatype stored_status = Ds_Unpaired | Ds_Pairing | Ds_Trusted | Ds_Suspended | Ds_Revoked

fun stored_status_name :: "stored_status \<Rightarrow> string" where
  "stored_status_name Ds_Unpaired = ''unpaired''"
| "stored_status_name Ds_Pairing = ''pairing''"
| "stored_status_name Ds_Trusted = ''trusted''"
| "stored_status_name Ds_Suspended = ''suspended''"
| "stored_status_name Ds_Revoked = ''revoked''"

record stored_device =
  sd_id :: string
  sd_userId :: string
  sd_gatewayId :: string
  sd_friendlyName :: string
  sd_platform :: string
  sd_publicKeyPem :: string
  sd_publicKeyJwk :: js_value
  sd_fingerprintHex :: string
  sd_fingerprintWords :: "string list"
  sd_status :: stored_status
  sd_defaultTrustProfile :: string
  sd_lastSeenAt :: "int option"
  sd_createdAt :: int
  sd_updatedAt :: int

datatype pairing_status = Ps_Pending | Ps_Code_Verified | Ps_Confirmed | Ps_Expired | Ps_Rejected

record stored_pairing =
  sp_deviceId :: string
  sp_userId :: "string option"
  sp_fingerprintHex :: string
  sp_fingerprintWords :: "string list"
  sp_publicKeyJwk :: js_value
  sp_publicKeyPem :: "string option"
  sp_status :: pairing_status

text \<open>
  \<open>sv_pending\<close> is the challenge held for each socket, \<open>sv_authed\<close> the device each socket has
  authenticated as, \<open>sv_rejected\<close> the sockets the server closed with their codes.
\<close>

record auth_server =
  sv_authenticator :: device_authenticator
  sv_pending :: "(nat, pending_challenge) jmap"
  sv_devices :: "(string, stored_device) jmap"
  sv_pairings :: "stored_pairing list"
  sv_registry :: registry
  sv_authed :: "(nat, string) jmap"
  sv_rejected :: "(nat \<times> nat) list"

text \<open>What the server answers; a success names the challenge, the key and the signature it rests on.\<close>

datatype auth_answer =
  Challenge_Sent pending_challenge
| Auth_Refused auth_denial
| Auth_Succeeded pending_challenge js_value string

definition findByDeviceId :: "string \<Rightarrow> stored_pairing list \<Rightarrow> stored_pairing option" where
  "findByDeviceId did ps =
     find (\<lambda>p. sp_deviceId p = did \<and> sp_status p \<noteq> Ps_Expired \<and> sp_status p \<noteq> Ps_Rejected) ps"

definition paired_device :: "int \<Rightarrow> string \<Rightarrow> string \<Rightarrow> stored_pairing \<Rightarrow> stored_device" where
  "paired_device now did gid p =
     \<lparr>sd_id = did, sd_userId = the (sp_userId p), sd_gatewayId = gid,
      sd_friendlyName = ''Device '' @ drop (length did - 6) did, sd_platform = ''unknown'',
      sd_publicKeyPem = (case sp_publicKeyPem p of None \<Rightarrow> [] | Some s \<Rightarrow> s),
      sd_publicKeyJwk = sp_publicKeyJwk p, sd_fingerprintHex = sp_fingerprintHex p,
      sd_fingerprintWords = sp_fingerprintWords p, sd_status = Ds_Trusted,
      sd_defaultTrustProfile = ''default'', sd_lastSeenAt = None, sd_createdAt = now, sd_updatedAt = now\<rparr>"

definition known_device :: "stored_device \<Rightarrow> auth_denial + stored_device" where
  "known_device d =
     (if sd_status d = Ds_Revoked \<or> sd_status d = Ds_Suspended
      then Inl (deny Device_Revoked (''Device status is '' @ stored_status_name (sd_status d)) False True)
      else Inr d)"

definition resolveAuthDevice ::
  "int \<Rightarrow> string \<Rightarrow> string \<Rightarrow> auth_server \<Rightarrow> auth_server \<times> (auth_denial + stored_device)" where
  "resolveAuthDevice now did gid s =
     (if did = [] \<or> gid = []
      then (s, Inl (deny Invalid_Credentials ''Missing deviceId or gatewayId'' False True))
      else case map_of (sv_devices s) did of
        Some d \<Rightarrow> (s, known_device d)
      | None \<Rightarrow>
          (case findByDeviceId did (sv_pairings s) of
             None \<Rightarrow> (s, Inl (deny Device_Not_Trusted ''Device is not yet paired or trusted by a user'' True False))
           | Some p \<Rightarrow>
               if sp_status p \<noteq> Ps_Confirmed \<or> \<not> truthy (sp_userId p)
               then (s, Inl (deny Device_Not_Trusted ''Device is not yet paired or trusted by a user'' True False))
               else if \<not> isUsablePublicKeyJwk (sp_publicKeyJwk p)
               then (s, Inl (deny Device_Key_Missing
                 ''This pairing recorded no device public key, so the gateway cannot prove its identity. Re-run pairing with an up-to-date gateway.''
                 False True))
               else (let d = paired_device now did gid p
                     in (s\<lparr>sv_devices := AList.update did d (sv_devices s)\<rparr>, known_device d))))"

definition denyAuth :: "nat \<Rightarrow> auth_denial \<Rightarrow> auth_server \<Rightarrow> auth_server \<times> auth_answer" where
  "denyAuth sock d s =
     (s\<lparr>sv_pending := AList.delete sock (sv_pending s),
        sv_rejected := sv_rejected s @
          (if ad_fatal d then [(sock, if ad_code d = Device_Revoked then 4003 else 4001)] else [])\<rparr>,
      Auth_Refused d)"

definition gateway_of :: "nat \<Rightarrow> int \<Rightarrow> string option \<Rightarrow> pending_challenge \<Rightarrow> gateway_connection" where
  "gateway_of sock now remote p =
     \<lparr>gc_deviceId = pc_deviceId p, gc_gatewayId = pc_gatewayId p, gc_socket = sock, gc_connectedAt = now,
      gc_lastHeartbeatAt = now, gc_remoteAddress = remote,
      gc_capabilities = [''sessions'', ''approvals'', ''commands''], gc_admissionPhase = None,
      gc_connectionId = Some (pc_connectionId p), gc_inFlight = None\<rparr>"

definition initial_of :: "payload \<Rightarrow> initial_auth" where
  "initial_of p =
     \<lparr>ia_deviceId = text_field p ''deviceId'', ia_gatewayId = text_field p ''gatewayId'',
      ia_connectionId = (if is_text (js_field (Some p) ''connectionId'') then text_field p ''connectionId''
        else ''default''),
      ia_nonce = text_field p ''nonce'', ia_timestamp = text_field p ''timestamp'',
      ia_certificateThumbprint = (if is_text (js_field (Some p) ''certificateThumbprint'')
        then Some (text_field p ''certificateThumbprint'') else None),
      ia_signature = text_field p ''signature''\<rparr>"

definition answer_challenge ::
  "'k crypto_library \<Rightarrow> int \<Rightarrow> nat \<Rightarrow> string option \<Rightarrow> payload \<Rightarrow> pending_challenge \<Rightarrow> auth_server
     \<Rightarrow> auth_server \<times> auth_answer" where
  "answer_challenge lib now sock remote p pending s =
     (let s = s\<lparr>sv_pending := AList.delete sock (sv_pending s)\<rparr> in
      case map_of (sv_devices s) (pc_deviceId pending) of
        None \<Rightarrow> denyAuth sock
          (deny Device_Not_Trusted ''Device disappeared between challenge and response'' True True) s
      | Some d \<Rightarrow>
          (case completeAuth lib now pending p (sd_publicKeyJwk d) of
             Some denial \<Rightarrow> denyAuth sock denial s
           | None \<Rightarrow>
               (s\<lparr>sv_authed := AList.update sock (pc_deviceId pending) (sv_authed s),
                  sv_devices := AList.update (pc_deviceId pending) (d\<lparr>sd_lastSeenAt := Some now, sd_updatedAt := now\<rparr>) (sv_devices s),
                  sv_registry := registerGateway (gateway_of sock now remote pending) (sv_registry s)\<rparr>,
                Auth_Succeeded pending (sd_publicKeyJwk d) (text_field p ''signature''))))"

definition handleAuthMessage ::
  "'k crypto_library \<Rightarrow> (string \<Rightarrow> int option) \<Rightarrow> int \<Rightarrow> string \<times> string \<Rightarrow> nat \<Rightarrow> string option \<Rightarrow> payload
     \<Rightarrow> auth_server \<Rightarrow> auth_server \<times> auth_answer" where
  "handleAuthMessage lib parse now random sock remote p s =
     (case (map_of (sv_pending s) sock, is_text (js_field (Some p) ''challenge'')) of
        (Some pending, True) \<Rightarrow> answer_challenge lib now sock remote p pending s
      | _ \<Rightarrow>
          (let i = initial_of p in
           case resolveAuthDevice now (ia_deviceId i) (ia_gatewayId i) s of
             (s, Inl denial) \<Rightarrow> denyAuth sock denial s
           | (s, Inr d) \<Rightarrow>
               (case beginAuth lib parse now random i (sd_publicKeyJwk d) (sv_authenticator s) of
                  (a, Inl denial) \<Rightarrow> denyAuth sock denial (s\<lparr>sv_authenticator := a\<rparr>)
                | (a, Inr c) \<Rightarrow>
                    (s\<lparr>sv_authenticator := a, sv_pending := AList.update sock c (sv_pending s)\<rparr>,
                     Challenge_Sent c))))"

definition socket_closed :: "nat \<Rightarrow> auth_server \<Rightarrow> auth_server" where
  "socket_closed sock s =
     (case map_of (sv_authed s) sock of
        None \<Rightarrow> s
      | Some did \<Rightarrow> s\<lparr>sv_registry := snd (removeGatewaySocket did sock (sv_registry s))\<rparr>)"

section \<open>The texts that are signed\<close>

lemma json_pair_code:
  "json_string k @ CHR '':'' # json_string v @ x = json_string k' @ CHR '':'' # json_string v' @ y \<Longrightarrow>
     k = k' \<and> v = v' \<and> x = y"
proof -
  assume eq: "json_string k @ CHR '':'' # json_string v @ x = json_string k' @ CHR '':'' # json_string v' @ y"
  from prefix_codeD [OF json_string_code this] have "k = k'" "json_string v @ x = json_string v' @ y" by simp_all
  then show ?thesis using prefix_codeD [OF json_string_code, of v x v' y] by blast
qed

text \<open>The text of an object whose first member is given, up to the value of that member.\<close>

lemma json_object_Cons:
  "json_object ((k, v) # kvs) = ''{'' @ json_string k @ CHR '':'' # json_string v @
     (if kvs = [] then ''}'' else '','' @ tl (json_object kvs))"
  by (cases kvs) (auto simp: json_object_def)

lemma json_object_ConsD:
  assumes "json_object ((k, v) # kvs) = json_object ((k', v') # kvs')"
  shows "k = k' \<and> v = v' \<and> json_object kvs = json_object kvs'"
proof -
  let ?rest = "\<lambda>kvs. if kvs = [] then ''}'' else '','' @ tl (json_object kvs)"
  have "json_string k @ CHR '':'' # json_string v @ ?rest kvs = json_string k' @ CHR '':'' # json_string v' @ ?rest kvs'"
    using assms unfolding json_object_Cons by simp
  note eq = json_pair_code [OF this]
  then have "?rest kvs = ?rest kvs'" by blast
  then have "tl (json_object kvs) = tl (json_object kvs')"
    by (cases "kvs = []"; cases "kvs' = []") (simp_all add: json_object_def)
  then have "json_object kvs = json_object kvs'" by (simp add: json_object_def)
  then show ?thesis using eq by blast
qed

lemma json_object_Cons_neq: "json_object (x # xs) \<noteq> json_object []"
  by (cases x) (simp add: json_object_Cons, simp add: json_object_def json_string_def)

lemma json_object_inj: "json_object xs = json_object ys \<Longrightarrow> xs = ys"
proof (induction xs arbitrary: ys)
  case Nil
  then show ?case using json_object_Cons_neq by (cases ys) metis+
next
  case (Cons x xs)
  obtain k v where x: "x = (k, v)" by (cases x)
  show ?case
  proof (cases ys)
    case Nil
    then show ?thesis using Cons.prems json_object_Cons_neq by metis
  next
    case (Cons y ys')
    obtain k' v' where y: "y = (k', v')" by (cases y)
    from json_object_ConsD [of k v xs k' v' ys'] Cons.prems have "k = k'" "v = v'" "json_object xs = json_object ys'"
      unfolding x y Cons by blast+
    then show ?thesis using Cons.IH x y Cons by simp
  qed
qed

text \<open>
  C24: A signature for one purpose is never one for another, and says which: the texts signed for the
  first message, for the answer to a challenge and for a pairing determine their fields, and none of
  one kind is a text of another kind.
\<close>

theorem signed_texts_separate:
  "(initialAuthSignatureBase d g n ts th = initialAuthSignatureBase d' g' n' ts' th' \<longleftrightarrow>
      d = d' \<and> g = g' \<and> n = n' \<and> ts = ts' \<and> (case th of None \<Rightarrow> [] | Some t \<Rightarrow> t) = (case th' of None \<Rightarrow> [] | Some t \<Rightarrow> t)) \<and>
   (challengeSignatureBase c sn i = challengeSignatureBase c' sn' i' \<longleftrightarrow> c = c' \<and> sn = sn' \<and> i = i') \<and>
   (pairingSignatureBase p d g ts = pairingSignatureBase p' d' g' ts' \<longleftrightarrow> p = p' \<and> d = d' \<and> g = g' \<and> ts = ts') \<and>
   initialAuthSignatureBase d g n ts th \<noteq> challengeSignatureBase c sn i \<and>
   initialAuthSignatureBase d g n ts th \<noteq> pairingSignatureBase p d' g' ts' \<and>
   challengeSignatureBase c sn i \<noteq> pairingSignatureBase p d g ts"
  by (auto simp: initialAuthSignatureBase_def challengeSignatureBase_def pairingSignatureBase_def
    dest!: json_object_inj)

section \<open>Replays\<close>

text \<open>An entry that the cache still holds, with at most \<open>n\<close> entries after it.\<close>

definition held :: "nat \<Rightarrow> string \<Rightarrow> int \<Rightarrow> nonce_cache \<Rightarrow> bool" where
  "held n key e c \<longleftrightarrow> (\<exists>pre post. c = pre @ (key, e) # post \<and> length post \<le> n)"

lemma held_known: "held n key e c \<Longrightarrow> map_of c key \<noteq> None"
  by (auto simp: held_def map_of_eq_None_iff)

lemma held_mono: "held n key e c \<Longrightarrow> n \<le> m \<Longrightarrow> held m key e c"
  unfolding held_def using le_trans by blast

lemma dropWhile_stop: "\<not> P x \<Longrightarrow> \<exists>pre'. dropWhile P (pre @ x # post) = pre' @ x # post"
  by (induction pre) auto

lemma held_prune: "held n key e c \<Longrightarrow> now < e \<Longrightarrow> held n key e (prune now c)"
proof -
  assume "held n key e c" "now < e"
  then obtain pre post where c: "c = pre @ (key, e) # post" "length post \<le> n" unfolding held_def by blast
  obtain pre' where "prune now c = pre' @ (key, e) # post"
    using dropWhile_stop [of "\<lambda>(k, x). x \<le> now" "(key, e)" pre post] \<open>now < e\<close> unfolding prune_def c by auto
  then show ?thesis using c(2) unfolding held_def by blast
qed

lemma held_admit:
  assumes held: "held n key e c" and live: "now < e" and room: "Suc n < maxEntries"
    and r: "admit maxEntries k x now c = (ok, c')"
  shows "held (Suc n) key e c' \<and> (k = key \<longrightarrow> \<not> ok)"
proof -
  have p: "held n key e (prune now c)" by (rule held_prune [OF held live])
  then obtain pre post where c: "prune now c = pre @ (key, e) # post" "length post \<le> n" unfolding held_def by blast
  show ?thesis
  proof (cases "map_of (prune now c) k")
    case (Some v)
    then show ?thesis using r held_mono [OF p] by (auto simp: admit_def Let_def)
  next
    case None
    let ?c = "if maxEntries \<le> length (prune now c) then tl (prune now c) else prune now c"
    have new: "k \<noteq> key" "k \<notin> fst ` set (prune now c)"
      using None held_known [OF p] by (auto simp only: map_of_eq_None_iff)
    have "\<exists>pre'. ?c = pre' @ (key, e) # post"
    proof (cases pre)
      case Nil
      then have "length (prune now c) < maxEntries" using c room by simp
      then show ?thesis using c by auto
    qed (use c in auto)
    then obtain pre' where c': "?c = pre' @ (key, e) # post" by blast
    have "k \<notin> fst ` set ?c" using new(2) by (cases "prune now c") auto
    then have "AList.update k x ?c = pre' @ (key, e) # (post @ [(k, x)])"
      unfolding c' by (simp add: update_new)
    moreover have "length (post @ [(k, x)]) \<le> Suc n" using c by simp
    moreover have "c' = AList.update k x ?c" "ok" using r None by (auto simp: admit_def Let_def)
    ultimately show ?thesis using new(1) unfolding held_def by blast
  qed
qed

text \<open>A run of the authenticator on first messages, each with its time.\<close>

record auth_call =
  ac_now :: int
  ac_random :: "string \<times> string"
  ac_input :: initial_auth
  ac_key :: js_value

definition call_auth ::
  "'k crypto_library \<Rightarrow> (string \<Rightarrow> int option) \<Rightarrow> device_authenticator \<Rightarrow> auth_call \<Rightarrow> device_authenticator" where
  "call_auth lib parse a x = fst (beginAuth lib parse (ac_now x) (ac_random x) (ac_input x) (ac_key x) a)"

lemma beginAuth_options:
  "da_maxEntries (fst (beginAuth lib parse now r i jwk a)) = da_maxEntries a"
  "da_clockSkewToleranceMs (fst (beginAuth lib parse now r i jwk a)) = da_clockSkewToleranceMs a"
  "da_challengeTtlMs (fst (beginAuth lib parse now r i jwk a)) = da_challengeTtlMs a"
  by (auto simp: beginAuth_def split: option.splits prod.splits bool.splits)

lemma beginAuth_nonces:
  "da_nonces (fst (beginAuth lib parse now r i jwk a)) = da_nonces a \<or>
   da_nonces (fst (beginAuth lib parse now r i jwk a)) =
     snd (admit (da_maxEntries a) (nonce_key i) (now + da_clockSkewToleranceMs a) now (da_nonces a))"
  by (auto simp: beginAuth_def split: option.splits prod.splits bool.splits)

lemma beginAuth_accepts:
  assumes "beginAuth lib parse now r i jwk a = (a', Inr p)"
  shows "\<exists>ts c. parse (ia_timestamp i) = Some ts \<and> \<bar>now - ts\<bar> \<le> da_clockSkewToleranceMs a \<and>
    admit (da_maxEntries a) (nonce_key i) (now + da_clockSkewToleranceMs a) now (da_nonces a) = (True, c) \<and>
    a' = a\<lparr>da_nonces := c\<rparr> \<and> verifyDeviceSignature lib (initial_base i) (ia_signature i) jwk \<and>
    ia_deviceId i \<noteq> [] \<and> ia_gatewayId i \<noteq> [] \<and> isUsablePublicKeyJwk jwk \<and>
    p = \<lparr>pc_challenge = fst r, pc_serverNonce = snd r, pc_issuedAtIso = toISOString now,
      pc_expiresAt = now + da_challengeTtlMs a, pc_deviceId = ia_deviceId i,
      pc_gatewayId = ia_gatewayId i, pc_connectionId = ia_connectionId i\<rparr>"
  using assms by (auto simp: beginAuth_def split: if_splits option.splits prod.splits bool.splits)

lemma admit_held: "admit maxEntries key e now c = (True, c') \<Longrightarrow> held 0 key e c'"
proof -
  assume r: "admit maxEntries key e now c = (True, c')"
  let ?c = "if maxEntries \<le> length (prune now c) then tl (prune now c) else prune now c"
  have "map_of (prune now c) key = None" using r by (auto simp: admit_def Let_def split: if_splits)
  then have "key \<notin> fst ` set (prune now c)" by (simp add: map_of_eq_None_iff)
  then have "key \<notin> fst ` set ?c" by (cases "prune now c") auto
  moreover have "c' = AList.update key e ?c" using r by (auto simp: admit_def Let_def split: if_splits)
  ultimately show ?thesis unfolding held_def by (auto simp: update_new)
qed

lemma held_call:
  assumes "held n key e (da_nonces a)" "ac_now x < e" "Suc n < da_maxEntries a"
  shows "held (Suc n) key e (da_nonces (call_auth lib parse a x))"
proof -
  let ?r = "admit (da_maxEntries a) (nonce_key (ac_input x)) (ac_now x + da_clockSkewToleranceMs a) (ac_now x) (da_nonces a)"
  have "held (Suc n) key e (snd ?r)"
    using held_admit [OF assms, of "nonce_key (ac_input x)"] by (metis prod.collapse)
  then show ?thesis
    using beginAuth_nonces [of lib parse "ac_now x" "ac_random x" "ac_input x" "ac_key x" a]
      held_mono [OF assms(1), of "Suc n"] unfolding call_auth_def by auto
qed

lemma held_calls:
  "held n key e (da_nonces a) \<Longrightarrow> list_all (\<lambda>x. ac_now x < e) xs \<Longrightarrow> n + length xs < da_maxEntries a \<Longrightarrow>
     held (n + length xs) key e (da_nonces (foldl (call_auth lib parse) a xs))"
proof (induction xs arbitrary: n a)
  case (Cons x xs)
  have "held (Suc n) key e (da_nonces (call_auth lib parse a x))"
    using Cons.prems by (intro held_call) simp_all
  moreover have "Suc n + length xs < da_maxEntries (call_auth lib parse a x)"
    using Cons.prems(3) by (simp add: call_auth_def beginAuth_options)
  ultimately show ?case using Cons.IH [of "Suc n"] Cons.prems(2) by simp
qed simp

lemma calls_options:
  "da_clockSkewToleranceMs (foldl (call_auth lib parse) a xs) = da_clockSkewToleranceMs a"
  "da_maxEntries (foldl (call_auth lib parse) a xs) = da_maxEntries a"
  by (induction xs arbitrary: a) (simp_all add: call_auth_def beginAuth_options)

text \<open>A library whose signatures are the signed texts after a mark, and the message of a device.\<close>

definition toy_crypto :: "unit crypto_library" where
  "toy_crypto = \<lparr>cl_createPublicKey = (\<lambda>_. Some ()), cl_base64 = id,
     cl_verify = (\<lambda>alg data key sig. Some (sig = CHR ''S'' # data))\<rparr>"

definition toy_key :: js_value where
  "toy_key = JS_Object [(''kty'', JS_Str ''OKP''), (''crv'', JS_Str ''Ed25519'')]"

definition toy_message :: initial_auth where
  "toy_message = \<lparr>ia_deviceId = ''dev_0a'', ia_gatewayId = ''g'', ia_connectionId = ''default'', ia_nonce = ''n'',
     ia_timestamp = ''T'', ia_certificateThumbprint = None,
     ia_signature = CHR ''S'' # initialAuthSignatureBase ''dev_0a'' ''g'' ''n'' ''T'' None\<rparr>"

lemmas toy_defs = toy_crypto_def toy_key_def toy_message_def

lemma toy_usable: "isUsablePublicKeyJwk toy_key"
  by (simp add: toy_key_def isUsablePublicKeyJwk_def js_text_def is_text_def js_field_def)

lemma toy_verifies: "verifyDeviceSignature toy_crypto data sig toy_key \<longleftrightarrow> sig = CHR ''S'' # data"
  using toy_usable by (auto simp: verifyDeviceSignature_def toy_crypto_def)

lemma toy_accepted:
  assumes "\<bar>now - ts\<bar> \<le> 120000"
  shows "\<exists>a' p. beginAuth toy_crypto (\<lambda>_. Some ts) now r toy_message toy_key (new_authenticator None None) = (a', Inr p)"
proof -
  have "verifyDeviceSignature toy_crypto (initial_base toy_message) (ia_signature toy_message) toy_key"
    by (simp add: toy_verifies initial_base_def toy_message_def)
  then show ?thesis using assms toy_usable
    by (auto simp: beginAuth_def new_authenticator_def DEFAULT_CLOCK_SKEW_TOLERANCE_MS_def admit_def prune_def
      toy_message_def not_less split: prod.splits)
qed



text \<open>
  A first message whose time is ahead of the server's clock, as a workstation's may be by the whole
  tolerance, is accepted again from the moment its nonce is forgotten until its time is too old.
\<close>

theorem early_message_accepted_again:
  assumes first: "beginAuth lib parse t0 r0 i jwk a = (a0, Inr p)"
    and stamp: "parse (ia_timestamp i) = Some ts" "t0 \<le> ts"
    and window: "t0 + da_clockSkewToleranceMs a \<le> t" "t \<le> ts + da_clockSkewToleranceMs a"
    and alone: "da_nonces a = []"
  shows "\<exists>a' p'. beginAuth lib parse t r i jwk a0 = (a', Inr p')"
proof -
  from beginAuth_accepts [OF first] stamp(1) alone obtain c where c: "a0 = a\<lparr>da_nonces := c\<rparr>"
    "admit (da_maxEntries a) (nonce_key i) (t0 + da_clockSkewToleranceMs a) t0 [] = (True, c)"
    and tol: "\<bar>t0 - ts\<bar> \<le> da_clockSkewToleranceMs a"
    and sig: "verifyDeviceSignature lib (initial_base i) (ia_signature i) jwk"
    and ids: "ia_deviceId i \<noteq> []" "ia_gatewayId i \<noteq> []" "isUsablePublicKeyJwk jwk" by auto
  have some: "ia_signature i \<noteq> []" "ia_nonce i \<noteq> []" "ia_timestamp i \<noteq> []"
    using first by (auto simp: beginAuth_def split: if_splits)
  have "c = [(nonce_key i, t0 + da_clockSkewToleranceMs a)]" using c(2) by (auto simp: admit_def prune_def split: if_splits)
  then have "prune t (da_nonces a0) = []" using c(1) window(1) by (simp add: prune_def)
  then have "fst (admit (da_maxEntries a) (nonce_key i) (t + da_clockSkewToleranceMs a) t (da_nonces a0))"
    by (simp add: admit_def)
  moreover have "\<not> \<bar>t - ts\<bar> > da_clockSkewToleranceMs a" using tol window stamp(2) by linarith
  ultimately show ?thesis
    using ids some sig stamp(1) c(1) by (auto simp: beginAuth_def split: prod.splits bool.splits)
qed

theorem early_message_accepted_again_witness:
  "\<exists>a0 p. beginAuth toy_crypto (\<lambda>_. Some 60000) 0 (''c'', ''s'') toy_message toy_key (new_authenticator None None) = (a0, Inr p) \<and>
     (\<exists>a' p'. beginAuth toy_crypto (\<lambda>_. Some 60000) 180000 (''c'', ''s'') toy_message toy_key a0 = (a', Inr p'))"
proof -
  obtain a0 p where first: "beginAuth toy_crypto (\<lambda>_. Some 60000) 0 (''c'', ''s'') toy_message toy_key (new_authenticator None None) = (a0, Inr p)"
    using toy_accepted [of 0 60000 "(''c'', ''s'')"] by auto
  have "\<exists>a' p'. beginAuth toy_crypto (\<lambda>_. Some 60000) 180000 (''c'', ''s'') toy_message toy_key a0 = (a', Inr p')"
    by (rule early_message_accepted_again [OF first, of 60000])
      (simp_all add: new_authenticator_def DEFAULT_CLOCK_SKEW_TOLERANCE_MS_def)
  then show ?thesis using first by blast
qed

section \<open>Agreement\<close>

text \<open>
  Runs of the server: any message on any socket, at any time, with a challenge never sent before; a
  socket that closes; changes of the database and the registry by others.  The trace holds what was
  answered, with the time and the socket.
\<close>

type_synonym auth_trace = "(int \<times> nat \<times> auth_answer) list"

inductive auth_reach ::
  "'k crypto_library \<Rightarrow> (string \<Rightarrow> int option) \<Rightarrow> int \<Rightarrow> auth_server \<Rightarrow> auth_trace \<Rightarrow> bool"
  for lib parse ttl where
  Start: "sv_pending s = [] \<Longrightarrow> da_challengeTtlMs (sv_authenticator s) = ttl \<Longrightarrow> auth_reach lib parse ttl s []"
| Message: "auth_reach lib parse ttl s tr \<Longrightarrow> (\<And>t k p. (t, k, Challenge_Sent p) \<in> set tr \<Longrightarrow> pc_challenge p \<noteq> fst random) \<Longrightarrow>
    handleAuthMessage lib parse now random sock remote m s = (s', ans) \<Longrightarrow>
    auth_reach lib parse ttl s' (tr @ [(now, sock, ans)])"
| Closed: "auth_reach lib parse ttl s tr \<Longrightarrow> auth_reach lib parse ttl (socket_closed sock s) tr"
| Others: "auth_reach lib parse ttl s tr \<Longrightarrow>
    auth_reach lib parse ttl (s\<lparr>sv_devices := devices, sv_pairings := pairings, sv_registry := r\<rparr>) tr"

definition sent :: "auth_trace \<Rightarrow> (int \<times> nat \<times> pending_challenge) set" where
  "sent tr = {(t, k, p). (t, k, Challenge_Sent p) \<in> set tr}"

definition answered :: "auth_trace \<Rightarrow> string list" where
  "answered tr = concat (map (\<lambda>(t, k, a). case a of Auth_Succeeded p jwk sig \<Rightarrow> [pc_challenge p] | _ \<Rightarrow> []) tr)"

definition success_ok :: "'k crypto_library \<Rightarrow> int \<Rightarrow> auth_trace \<Rightarrow> bool" where
  "success_ok lib ttl tr \<longleftrightarrow> (\<forall>t k p jwk sig. (t, k, Auth_Succeeded p jwk sig) \<in> set tr \<longrightarrow>
     verifyDeviceSignature lib (challengeSignatureBase (pc_challenge p) (pc_serverNonce p) (pc_issuedAtIso p)) sig jwk \<and>
     (\<exists>t'. (t', k, p) \<in> sent tr \<and> t \<le> t' + ttl))"

definition agreement :: "'k crypto_library \<Rightarrow> int \<Rightarrow> auth_server \<Rightarrow> auth_trace \<Rightarrow> bool" where
  "agreement lib ttl s tr \<longleftrightarrow>
     da_challengeTtlMs (sv_authenticator s) = ttl \<and>
     success_ok lib ttl tr \<and> distinct (answered tr) \<and>
     (\<forall>(t, k, p) \<in> sent tr. pc_expiresAt p = t + ttl) \<and>
     (\<forall>x \<in> sent tr. \<forall>y \<in> sent tr. pc_challenge (snd (snd x)) = pc_challenge (snd (snd y)) \<longrightarrow> x = y) \<and>
     (\<forall>c \<in> set (answered tr). \<exists>x \<in> sent tr. pc_challenge (snd (snd x)) = c) \<and>
     (\<forall>k p. map_of (sv_pending s) k = Some p \<longrightarrow> (\<exists>t. (t, k, p) \<in> sent tr) \<and> pc_challenge p \<notin> set (answered tr))"

lemma sent_snoc:
  "sent (tr @ [(t, k, a)]) = (case a of Challenge_Sent p \<Rightarrow> insert (t, k, p) (sent tr) | _ \<Rightarrow> sent tr)"
  by (auto simp: sent_def split: auth_answer.splits)

lemma answered_snoc:
  "answered (tr @ [(t, k, a)]) = answered tr @ (case a of Auth_Succeeded p jwk sig \<Rightarrow> [pc_challenge p] | _ \<Rightarrow> [])"
  by (simp add: answered_def)

lemma success_snoc:
  "success_ok lib ttl tr \<Longrightarrow> (\<And>p jwk sig. a = Auth_Succeeded p jwk sig \<Longrightarrow>
     verifyDeviceSignature lib (challengeSignatureBase (pc_challenge p) (pc_serverNonce p) (pc_issuedAtIso p)) sig jwk \<and>
     (\<exists>t'. (t', k, p) \<in> sent tr \<and> t \<le> t' + ttl)) \<Longrightarrow> success_ok lib ttl (tr @ [(t, k, a)])"
proof -
  assume old: "success_ok lib ttl tr" and new: "\<And>p jwk sig. a = Auth_Succeeded p jwk sig \<Longrightarrow>
     verifyDeviceSignature lib (challengeSignatureBase (pc_challenge p) (pc_serverNonce p) (pc_issuedAtIso p)) sig jwk \<and>
     (\<exists>t'. (t', k, p) \<in> sent tr \<and> t \<le> t' + ttl)"
  have sub: "sent tr \<subseteq> sent (tr @ [(t, k, a)])" by (auto simp: sent_def)
  show ?thesis unfolding success_ok_def
  proof (intro allI impI)
    fix t1 k1 p jwk sig assume "(t1, k1, Auth_Succeeded p jwk sig) \<in> set (tr @ [(t, k, a)])"
    then consider "(t1, k1, Auth_Succeeded p jwk sig) \<in> set tr" | "t1 = t" "k1 = k" "a = Auth_Succeeded p jwk sig" by auto
    then show "verifyDeviceSignature lib (challengeSignatureBase (pc_challenge p) (pc_serverNonce p) (pc_issuedAtIso p)) sig jwk \<and>
       (\<exists>t'. (t', k1, p) \<in> sent (tr @ [(t, k, a)]) \<and> t1 \<le> t' + ttl)"
      using old new sub unfolding success_ok_def by cases blast+
  qed
qed

text \<open>What one message can do: refuse, dropping a challenge, send a new challenge, or accept an answer.\<close>

lemma resolve_keeps:
  "sv_pending (fst (resolveAuthDevice now d g s)) = sv_pending s \<and>
   sv_authenticator (fst (resolveAuthDevice now d g s)) = sv_authenticator s"
  by (auto simp: resolveAuthDevice_def Let_def split: option.splits)

lemma handle_cases:
  assumes "handleAuthMessage lib parse now random sock remote m s = (s', ans)"
  obtains
    (Refuse) d where "ans = Auth_Refused d" "sv_pending s' = AList.delete sock (sv_pending s)"
      "da_challengeTtlMs (sv_authenticator s') = da_challengeTtlMs (sv_authenticator s)"
  | (Send) p where "ans = Challenge_Sent p" "sv_pending s' = AList.update sock p (sv_pending s)"
      "pc_challenge p = fst random" "pc_expiresAt p = now + da_challengeTtlMs (sv_authenticator s)"
      "da_challengeTtlMs (sv_authenticator s') = da_challengeTtlMs (sv_authenticator s)"
  | (Accept) p jwk sig where "ans = Auth_Succeeded p jwk sig" "map_of (sv_pending s) sock = Some p"
      "sv_pending s' = AList.delete sock (sv_pending s)" "sv_authenticator s' = sv_authenticator s"
      "now \<le> pc_expiresAt p"
      "verifyDeviceSignature lib (challengeSignatureBase (pc_challenge p) (pc_serverNonce p) (pc_issuedAtIso p)) sig jwk"
proof (cases "\<exists>p. map_of (sv_pending s) sock = Some p \<and> is_text (js_field (Some m) ''challenge'')")
  case True
  then obtain p where p: "map_of (sv_pending s) sock = Some p" "is_text (js_field (Some m) ''challenge'')" by blast
  then have r: "answer_challenge lib now sock remote m p s = (s', ans)"
    using assms by (simp add: handleAuthMessage_def)
  then show thesis
  proof (cases "map_of (sv_devices s) (pc_deviceId p)")
    case None
    then show thesis using r Refuse by (auto simp: answer_challenge_def denyAuth_def Let_def delete_idem)
  next
    case (Some d)
    show thesis
    proof (cases "completeAuth lib now p m (sd_publicKeyJwk d)")
      case (Some denial)
      then show thesis using r Refuse \<open>map_of (sv_devices s) _ = Some d\<close>
        by (auto simp: answer_challenge_def denyAuth_def Let_def delete_idem)
    next
      case None
      then have "now \<le> pc_expiresAt p"
        "verifyDeviceSignature lib (challengeSignatureBase (pc_challenge p) (pc_serverNonce p) (pc_issuedAtIso p))
           (text_field m ''signature'') (sd_publicKeyJwk d)"
        by (auto simp: completeAuth_def split: if_splits)
      then show thesis using r None p(1) Accept \<open>map_of (sv_devices s) _ = Some d\<close>
        by (auto simp: answer_challenge_def Let_def)
    qed
  qed
next
  case False
  let ?i = "initial_of m"
  obtain s1 rd where res: "resolveAuthDevice now (ia_deviceId ?i) (ia_gatewayId ?i) s = (s1, rd)" by fastforce
  then have keep: "sv_pending s1 = sv_pending s" "sv_authenticator s1 = sv_authenticator s"
    using resolve_keeps [of now "ia_deviceId ?i" "ia_gatewayId ?i" s] by simp_all
  have r: "(case rd of Inl denial \<Rightarrow> denyAuth sock denial s1
      | Inr d \<Rightarrow> (case beginAuth lib parse now random ?i (sd_publicKeyJwk d) (sv_authenticator s1) of
           (a, Inl denial) \<Rightarrow> denyAuth sock denial (s1\<lparr>sv_authenticator := a\<rparr>)
         | (a, Inr c) \<Rightarrow> (s1\<lparr>sv_authenticator := a, sv_pending := AList.update sock c (sv_pending s1)\<rparr>,
             Challenge_Sent c))) = (s', ans)"
    using assms False res by (auto simp: handleAuthMessage_def Let_def split: option.splits bool.splits sum.splits)
  show thesis
  proof (cases rd)
    case (Inl denial)
    then show thesis using r keep Refuse by (auto simp: denyAuth_def)
  next
    case (Inr d)
    obtain a x where b: "beginAuth lib parse now random ?i (sd_publicKeyJwk d) (sv_authenticator s1) = (a, x)" by fastforce
    then have ttl: "da_challengeTtlMs a = da_challengeTtlMs (sv_authenticator s)"
      using beginAuth_options(3) [of lib parse now random ?i "sd_publicKeyJwk d" "sv_authenticator s1"] keep by simp
    show thesis
    proof (cases x)
      case (Inl denial)
      then show thesis using r Inr b keep ttl Refuse by (auto simp: denyAuth_def)
    next
      case (Inr c)
      then have "pc_challenge c = fst random \<and> pc_expiresAt c = now + da_challengeTtlMs (sv_authenticator s)"
        using beginAuth_accepts [of lib parse now random ?i "sd_publicKeyJwk d" "sv_authenticator s1" a c] b keep by auto
      then show thesis using r \<open>rd = Inr d\<close> Inr b keep ttl Send by auto
    qed
  qed
qed

lemma agreement_parts:
  assumes "agreement lib ttl s tr"
  shows "da_challengeTtlMs (sv_authenticator s) = ttl" "success_ok lib ttl tr" "distinct (answered tr)"
    and "(t, k, p) \<in> sent tr \<Longrightarrow> pc_expiresAt p = t + ttl"
    and "(t, k, p) \<in> sent tr \<Longrightarrow> (t', k', p') \<in> sent tr \<Longrightarrow> pc_challenge p = pc_challenge p' \<Longrightarrow>
      t = t' \<and> k = k' \<and> p = p'"
    and "c \<in> set (answered tr) \<Longrightarrow> \<exists>t k p. (t, k, p) \<in> sent tr \<and> pc_challenge p = c"
    and "map_of (sv_pending s) k = Some p \<Longrightarrow> \<exists>t. (t, k, p) \<in> sent tr"
    and "map_of (sv_pending s) k = Some p \<Longrightarrow> pc_challenge p \<notin> set (answered tr)"
proof -
  note a = assms [unfolded agreement_def]
  show "da_challengeTtlMs (sv_authenticator s) = ttl" "success_ok lib ttl tr" "distinct (answered tr)"
    using a by blast+
  show "(t, k, p) \<in> sent tr \<Longrightarrow> pc_expiresAt p = t + ttl" using a by blast
  show "map_of (sv_pending s) k = Some p \<Longrightarrow> \<exists>t. (t, k, p) \<in> sent tr"
    "map_of (sv_pending s) k = Some p \<Longrightarrow> pc_challenge p \<notin> set (answered tr)" using a by blast+
  have inj: "\<forall>x \<in> sent tr. \<forall>y \<in> sent tr. pc_challenge (snd (snd x)) = pc_challenge (snd (snd y)) \<longrightarrow> x = y"
    using a by blast
  show "(t, k, p) \<in> sent tr \<Longrightarrow> (t', k', p') \<in> sent tr \<Longrightarrow> pc_challenge p = pc_challenge p' \<Longrightarrow>
      t = t' \<and> k = k' \<and> p = p'"
    using inj [rule_format, of "(t, k, p)" "(t', k', p')"] by simp
  have "\<forall>c \<in> set (answered tr). \<exists>x \<in> sent tr. pc_challenge (snd (snd x)) = c" using a by blast
  then show "c \<in> set (answered tr) \<Longrightarrow> \<exists>t k p. (t, k, p) \<in> sent tr \<and> pc_challenge p = c" by force
qed

lemma agreement_refuse:
  assumes "agreement lib ttl s tr" "sv_pending s' = AList.delete sock (sv_pending s)"
    and "da_challengeTtlMs (sv_authenticator s') = da_challengeTtlMs (sv_authenticator s)"
  shows "agreement lib ttl s' (tr @ [(now, sock, Auth_Refused d)])"
proof -
  have sent: "sent (tr @ [(now, sock, Auth_Refused d)]) = sent tr" and
    ans: "answered (tr @ [(now, sock, Auth_Refused d)]) = answered tr" by (simp_all add: sent_snoc answered_snoc)
  note a = agreement_parts [OF assms(1)]
  have ok: "success_ok lib ttl (tr @ [(now, sock, Auth_Refused d)])"
    by (rule success_snoc [OF a(2)]) simp
  have pend: "(\<exists>t. (t, k, q) \<in> sent tr) \<and> pc_challenge q \<notin> set (answered tr)" if "map_of (sv_pending s') k = Some q" for k q
    using that a(7,8) unfolding assms(2) by (auto simp: store_simps split: if_splits)
  show ?thesis unfolding agreement_def sent ans using assms(1,3) ok pend unfolding agreement_def by simp
qed

lemma agreement_send:
  assumes "agreement lib ttl s tr" "sv_pending s' = AList.update sock p (sv_pending s)"
    and "da_challengeTtlMs (sv_authenticator s') = da_challengeTtlMs (sv_authenticator s)"
    and exp: "pc_expiresAt p = now + da_challengeTtlMs (sv_authenticator s)"
    and fresh: "\<And>t k q. (t, k, q) \<in> sent tr \<Longrightarrow> pc_challenge q \<noteq> pc_challenge p"
  shows "agreement lib ttl s' (tr @ [(now, sock, Challenge_Sent p)])"
proof -
  note a = agreement_parts [OF assms(1)]
  let ?tr = "tr @ [(now, sock, Challenge_Sent p)]"
  have sent: "sent ?tr = insert (now, sock, p) (sent tr)" and
    ans: "answered ?tr = answered tr" by (simp_all add: sent_snoc answered_snoc)
  have new: "pc_challenge p \<notin> set (answered tr)" using a(6) fresh by blast
  have ok: "success_ok lib ttl ?tr" by (rule success_snoc [OF a(2)]) simp
  have exps: "\<forall>(t, k, q) \<in> sent ?tr. pc_expiresAt q = t + ttl" using exp a(1,4) unfolding sent by auto
  have inj: "\<forall>x \<in> sent ?tr. \<forall>y \<in> sent ?tr. pc_challenge (snd (snd x)) = pc_challenge (snd (snd y)) \<longrightarrow> x = y"
    unfolding sent using a(5) by (auto dest: fresh fresh [symmetric])
  have subset: "\<forall>c \<in> set (answered ?tr). \<exists>x \<in> sent ?tr. pc_challenge (snd (snd x)) = c"
    unfolding sent ans using a(6) by force
  have pend: "(\<exists>t. (t, k, q) \<in> sent ?tr) \<and> pc_challenge q \<notin> set (answered ?tr)" if "map_of (sv_pending s') k = Some q" for k q
    using that a(7,8) new unfolding assms(2) sent ans by (auto simp: store_simps split: if_splits)
  show ?thesis unfolding agreement_def using a(1,3) assms(3) ok exps inj subset pend ans by simp
qed

lemma agreement_accept:
  assumes "agreement lib ttl s tr" "sv_pending s' = AList.delete sock (sv_pending s)"
    and "sv_authenticator s' = sv_authenticator s" "map_of (sv_pending s) sock = Some p" "now \<le> pc_expiresAt p"
    and "verifyDeviceSignature lib (challengeSignatureBase (pc_challenge p) (pc_serverNonce p) (pc_issuedAtIso p)) sig jwk"
  shows "agreement lib ttl s' (tr @ [(now, sock, Auth_Succeeded p jwk sig)])"
proof -
  note a = agreement_parts [OF assms(1)]
  let ?tr = "tr @ [(now, sock, Auth_Succeeded p jwk sig)]"
  obtain t where t: "(t, sock, p) \<in> sent tr" using a(7) [OF assms(4)] by blast
  have new: "pc_challenge p \<notin> set (answered tr)" by (rule a(8) [OF assms(4)])
  have sent: "sent ?tr = sent tr" and ans: "answered ?tr = answered tr @ [pc_challenge p]"
    by (simp_all add: sent_snoc answered_snoc)
  have ok: "success_ok lib ttl ?tr"
  proof (rule success_snoc [OF a(2)])
    fix q jwk' sig' assume "Auth_Succeeded p jwk sig = Auth_Succeeded q jwk' sig'"
    then show "verifyDeviceSignature lib (challengeSignatureBase (pc_challenge q) (pc_serverNonce q) (pc_issuedAtIso q)) sig' jwk' \<and>
       (\<exists>t'. (t', sock, q) \<in> sent tr \<and> now \<le> t' + ttl)"
      using assms(5,6) t a(4) [OF t] by auto
  qed
  have pend: "(\<exists>t. (t, k, q) \<in> sent ?tr) \<and> pc_challenge q \<notin> set (answered ?tr)" if "map_of (sv_pending s') k = Some q" for k q
  proof -
    have k: "k \<noteq> sock" "map_of (sv_pending s) k = Some q"
      using that unfolding assms(2) by (auto simp: store_simps split: if_splits)
    obtain t2 where t2: "(t2, k, q) \<in> sent tr" using a(7) [OF k(2)] by blast
    have "pc_challenge q \<noteq> pc_challenge p" using a(5) [OF t2 t] k(1) by blast
    then show ?thesis using t2 a(8) [OF k(2)] unfolding sent ans by auto
  qed
  have subset: "\<forall>c \<in> set (answered ?tr). \<exists>x \<in> sent ?tr. pc_challenge (snd (snd x)) = c"
    unfolding sent ans using a(6) t by force
  have rest: "da_challengeTtlMs (sv_authenticator s') = ttl" "distinct (answered ?tr)"
    using a(1,3) new assms(3) ans by simp_all
  show ?thesis unfolding agreement_def using assms(1) rest ok subset pend sent unfolding agreement_def by simp
qed

lemma agreement_reach: "auth_reach lib parse ttl s tr \<Longrightarrow> agreement lib ttl s tr"
proof (induction rule: auth_reach.induct)
  case (Start s)
  then show ?case by (simp add: agreement_def success_ok_def answered_def sent_def)
next
  case (Message s tr random now sock remote m s' ans)
  have fresh: "pc_challenge q \<noteq> fst random" if "(t, k, q) \<in> sent tr" for t k q
    using Message.hyps(2) that unfolding sent_def by blast
  from Message.hyps(3) show ?case
  proof (cases rule: handle_cases)
    case (Refuse d)
    then show ?thesis using agreement_refuse [OF Message.IH] by simp
  next
    case (Send p)
    then show ?thesis using agreement_send [OF Message.IH] fresh by metis
  next
    case (Accept p jwk sig)
    then show ?thesis using agreement_accept [OF Message.IH] by metis
  qed
next
  case (Closed s tr sock)
  have "sv_pending (socket_closed sock s) = sv_pending s" "sv_authenticator (socket_closed sock s) = sv_authenticator s"
    by (simp_all add: socket_closed_def split: option.splits)
  then show ?case using Closed.IH unfolding agreement_def by simp
next
  case (Others s tr devices pairings r)
  then show ?case unfolding agreement_def by simp
qed

lemma count_distinct: "distinct xs \<Longrightarrow> x \<in> set xs \<Longrightarrow> count_list xs x = 1"
  by (induction xs) (auto simp: count_list_0_iff)


definition toy_device :: "stored_status \<Rightarrow> stored_device" where
  "toy_device st = \<lparr>sd_id = ''dev_0a'', sd_userId = ''u'', sd_gatewayId = ''g'', sd_friendlyName = [], sd_platform = [], sd_publicKeyPem = [],
     sd_publicKeyJwk = toy_key, sd_fingerprintHex = [], sd_fingerprintWords = [], sd_status = st,
     sd_defaultTrustProfile = ''default'', sd_lastSeenAt = None, sd_createdAt = 0, sd_updatedAt = 0\<rparr>"

definition toy_challenge :: pending_challenge where
  "toy_challenge = \<lparr>pc_challenge = ''c'', pc_serverNonce = ''s'', pc_issuedAtIso = toISOString 0, pc_expiresAt = 30000,
     pc_deviceId = ''dev_0a'', pc_gatewayId = ''g'', pc_connectionId = ''default''\<rparr>"

definition toy_server :: "stored_status \<Rightarrow> (nat, pending_challenge) jmap \<Rightarrow> auth_server" where
  "toy_server st pending = \<lparr>sv_authenticator = new_authenticator None None, sv_pending = pending,
     sv_devices = [(''dev_0a'', toy_device st)], sv_pairings = [], sv_registry = empty_registry (\<lambda>_. 1),
     sv_authed = [], sv_rejected = []\<rparr>"

definition toy_first :: payload where
  "toy_first = [(''deviceId'', JS_Str ''dev_0a''), (''gatewayId'', JS_Str ''g''), (''nonce'', JS_Str ''n''),
     (''timestamp'', JS_Str ''T''), (''signature'', JS_Str (ia_signature toy_message))]"

definition toy_signature :: string where
  "toy_signature = CHR ''S'' # challengeSignatureBase ''c'' ''s'' (toISOString 0)"

definition toy_answer :: payload where
  "toy_answer = [(''challenge'', JS_Str ''c''), (''serverNonce'', JS_Str ''s''), (''signature'', JS_Str toy_signature)]"

lemmas text_defs = text_field_def js_text_def is_text_def js_field_def

lemma toy_first_fields: "initial_of toy_first = toy_message"
  by (simp add: initial_of_def toy_first_def toy_message_def text_defs)

lemma toy_begin: "snd (handleAuthMessage toy_crypto (\<lambda>_. Some 0) 0 (''c'', ''s'') 7 None toy_first (toy_server Ds_Trusted [])) =
    Challenge_Sent toy_challenge \<and>
  sv_pending (fst (handleAuthMessage toy_crypto (\<lambda>_. Some 0) 0 (''c'', ''s'') 7 None toy_first (toy_server Ds_Trusted []))) =
    [(7, toy_challenge)] \<and>
  sv_devices (fst (handleAuthMessage toy_crypto (\<lambda>_. Some 0) 0 (''c'', ''s'') 7 None toy_first (toy_server Ds_Trusted []))) =
    [(''dev_0a'', toy_device Ds_Trusted)]"
proof -
  let ?m = "toy_message"
  have res: "resolveAuthDevice 0 (ia_deviceId ?m) (ia_gatewayId ?m) (toy_server Ds_Trusted []) =
      (toy_server Ds_Trusted [], Inr (toy_device Ds_Trusted))"
    by (simp add: resolveAuthDevice_def toy_server_def toy_device_def toy_message_def known_device_def)
  obtain a p where b: "beginAuth toy_crypto (\<lambda>_. Some 0) 0 (''c'', ''s'') ?m toy_key (new_authenticator None None) = (a, Inr p)"
    using toy_accepted [of 0 0 "(''c'', ''s'')"] by auto
  from beginAuth_accepts [OF this] have "p = toy_challenge"
    by (auto simp: toy_challenge_def toy_message_def new_authenticator_def DEFAULT_CHALLENGE_TTL_MS_def)
  moreover have "sv_pending (toy_server Ds_Trusted []) = []" "sv_authenticator (toy_server Ds_Trusted []) = new_authenticator None None"
    "sv_devices (toy_server Ds_Trusted []) = [(''dev_0a'', toy_device Ds_Trusted)]" "sd_publicKeyJwk (toy_device Ds_Trusted) = toy_key"
    by (simp_all add: toy_server_def toy_device_def)
  ultimately show ?thesis using b by (simp add: handleAuthMessage_def toy_first_fields Let_def res)
qed

lemma toy_complete:
  assumes "map_of (sv_pending s) 7 = Some toy_challenge" "map_of (sv_devices s) ''dev_0a'' = Some (toy_device st)"
  shows "snd (handleAuthMessage toy_crypto (\<lambda>_. Some 0) 9 (''d'', ''t'') 7 None toy_answer s) =
    Auth_Succeeded toy_challenge toy_key toy_signature"
proof -
  have "completeAuth toy_crypto 9 toy_challenge toy_answer toy_key = None"
    by (simp add: completeAuth_def toy_challenge_def toy_answer_def text_defs toy_verifies toy_signature_def)
  then have "snd (answer_challenge toy_crypto 9 7 None toy_answer toy_challenge s) =
      Auth_Succeeded toy_challenge toy_key toy_signature"
    using assms by (simp add: answer_challenge_def Let_def toy_device_def) (simp add: toy_challenge_def toy_answer_def text_defs)
  then show ?thesis using assms(1) by (simp add: handleAuthMessage_def toy_answer_def text_defs)
qed


section \<open>Revocation during the exchange\<close>

text \<open>
  The status of a device is checked only when the exchange begins: a device revoked or suspended
  while its challenge is out is still authenticated and registered when it answers.
\<close>

theorem revoked_while_challenged:
  assumes "map_of (sv_pending s) sock = Some p" "map_of (sv_devices s) (pc_deviceId p) = Some d"
    and "sd_status d = Ds_Revoked \<or> sd_status d = Ds_Suspended"
    and "is_text (js_field (Some m) ''challenge'')" "completeAuth lib now p m (sd_publicKeyJwk d) = None"
  shows "handleAuthMessage lib parse now random sock remote m s =
    (s\<lparr>sv_pending := AList.delete sock (sv_pending s), sv_authed := AList.update sock (pc_deviceId p) (sv_authed s),
       sv_devices := AList.update (pc_deviceId p) (d\<lparr>sd_lastSeenAt := Some now, sd_updatedAt := now\<rparr>) (sv_devices s),
       sv_registry := registerGateway (gateway_of sock now remote p) (sv_registry s)\<rparr>,
     Auth_Succeeded p (sd_publicKeyJwk d) (text_field m ''signature''))"
  using assms by (simp add: handleAuthMessage_def answer_challenge_def Let_def)

theorem revoked_while_challenged_witness:
  "snd (handleAuthMessage toy_crypto (\<lambda>_. Some 0) 9 (''d'', ''t'') 7 None toy_answer (toy_server Ds_Revoked [(7, toy_challenge)])) =
     Auth_Succeeded toy_challenge toy_key toy_signature"
proof -
  let ?s = "toy_server Ds_Revoked [(7, toy_challenge)]"
  have "map_of (sv_pending ?s) 7 = Some toy_challenge" "map_of (sv_devices ?s) (pc_deviceId toy_challenge) = Some (toy_device Ds_Revoked)"
    "sd_status (toy_device Ds_Revoked) = Ds_Revoked \<or> sd_status (toy_device Ds_Revoked) = Ds_Suspended"
    "is_text (js_field (Some toy_answer) ''challenge'')"
    by (simp_all add: toy_server_def toy_challenge_def toy_device_def toy_answer_def text_defs)
  moreover have "completeAuth toy_crypto 9 toy_challenge toy_answer (sd_publicKeyJwk (toy_device Ds_Revoked)) = None"
    by (simp add: completeAuth_def toy_challenge_def toy_answer_def text_defs toy_verifies toy_signature_def toy_device_def)
  ultimately show ?thesis
    using revoked_while_challenged [of ?s 7 toy_challenge "toy_device Ds_Revoked" toy_answer toy_crypto 9
      "\<lambda>_. Some 0" "(''d'', ''t'')" None]
    by (simp add: toy_device_def toy_answer_def text_defs)
qed

end
