(* ===== verification/Sessions.thy ===== *)
theory Sessions
  imports Gaps
begin

text \<open>
  The gateway's session registry (\<open>gateway/core/src/session-registry.ts\<close>) and event bus
  (\<open>gateway/core/src/event-bus.ts\<close>).  An adapter is the identifier its metadata gives; a project is its
  identifier.  The clock is an argument.  What a subscriber's callbacks return, and whether they throw,
  are functions of the event; they do not call the bus back.
\<close>

section \<open>Data\<close>

datatype session_state =
  Initializing | Running_State | Waiting_For_Approval | Paused | Completed | Failed | Cancelled | Crashed

record session_error =
  se_code :: string
  se_message :: string
  se_stack :: "string option"
  se_fatal :: bool
  se_retryable :: bool

record session_record =
  sn_id :: string
  sn_adapterSessionId :: "string option"
  sn_projectId :: string
  sn_adapterId :: string
  sn_config :: "(string, js_value) jmap"
  sn_state :: session_state
  sn_processId :: "int option"
  sn_startTime :: int
  sn_endTime :: "int option"
  sn_sandboxId :: "string option"
  sn_sequenceNumber :: int
  sn_eventBuffer :: "event_envelope list"
  sn_eventCount :: nat
  sn_lastEventAt :: "int option"
  sn_lastEventType :: "string option"
  sn_error :: "session_error option"
  sn_metadata :: "(string, js_value) jmap"

record create_session_options =
  cs_id :: string
  cs_adapterSessionId :: "string option"
  cs_config :: "(string, js_value) jmap"
  cs_metadata :: "(string, js_value) jmap option"
  cs_projectId :: string
  cs_adapterId :: string

record session_registry =
  sg_sessions :: "(string, session_record) jmap"
  sg_maxSessions :: nat
  sg_maxEventBufferSize :: nat

definition SESSION_REGISTRY_MAX_SESSIONS :: nat where "SESSION_REGISTRY_MAX_SESSIONS = 1000"
definition EVENT_BUFFER_MAX_SIZE :: nat where "EVENT_BUFFER_MAX_SIZE = 10000"

definition new_session_registry :: "nat option \<Rightarrow> nat option \<Rightarrow> session_registry" where
  "new_session_registry maxSessions maxBuffer =
     \<lparr>sg_sessions = [],
      sg_maxSessions = (case maxSessions of None \<Rightarrow> SESSION_REGISTRY_MAX_SESSIONS | Some n \<Rightarrow> n),
      sg_maxEventBufferSize = (case maxBuffer of None \<Rightarrow> EVENT_BUFFER_MAX_SIZE | Some n \<Rightarrow> n)\<rparr>"

section \<open>The registry\<close>

fun isTerminalState :: "session_state \<Rightarrow> bool" where
  "isTerminalState Completed = True"
| "isTerminalState Failed = True"
| "isTerminalState Cancelled = True"
| "isTerminalState Crashed = True"
| "isTerminalState _ = False"

definition list_sessions :: "session_registry \<Rightarrow> session_record list" where
  "list_sessions g = map snd (sg_sessions g)"

definition listByState :: "session_state list \<Rightarrow> session_registry \<Rightarrow> session_record list" where
  "listByState states g = filter (\<lambda>r. sn_state r \<in> set states) (list_sessions g)"

definition delete_session :: "string \<Rightarrow> session_registry \<Rightarrow> session_registry \<times> bool" where
  "delete_session i g =
     (g\<lparr>sg_sessions := AList.delete i (sg_sessions g)\<rparr>, map_of (sg_sessions g) i \<noteq> None)"

definition end_or_zero :: "session_record \<Rightarrow> int" where
  "end_or_zero r = (case sn_endTime r of None \<Rightarrow> 0 | Some t \<Rightarrow> t)"

definition evictOldestTerminal :: "session_registry \<Rightarrow> session_registry" where
  "evictOldestTerminal g =
     (case js_sort (\<lambda>a b. end_or_zero a - end_or_zero b)
             (listByState [Completed, Failed, Cancelled, Crashed] g) of
        [] \<Rightarrow> g
      | r # _ \<Rightarrow> fst (delete_session (sn_id r) g))"

definition new_record :: "int \<Rightarrow> create_session_options \<Rightarrow> session_record" where
  "new_record now opt =
     \<lparr>sn_id = cs_id opt, sn_adapterSessionId = cs_adapterSessionId opt, sn_projectId = cs_projectId opt,
      sn_adapterId = cs_adapterId opt, sn_config = cs_config opt, sn_state = Initializing, sn_processId = None,
      sn_startTime = now, sn_endTime = None, sn_sandboxId = None, sn_sequenceNumber = 0, sn_eventBuffer = [],
      sn_eventCount = 0, sn_lastEventAt = None, sn_lastEventType = None, sn_error = None,
      sn_metadata = (case cs_metadata opt of None \<Rightarrow> [] | Some m \<Rightarrow> m)\<rparr>"

definition create_session ::
  "int \<Rightarrow> create_session_options \<Rightarrow> session_registry \<Rightarrow> session_registry \<times> (string + session_record)" where
  "create_session now opt g =
     (let g' = (if sg_maxSessions g \<le> length (sg_sessions g) then evictOldestTerminal g else g)
      in if sg_maxSessions g \<le> length (sg_sessions g')
         then (g', Inl (''Session registry full ('' @ show_nat (sg_maxSessions g) @ ''). Cannot create new session.''))
         else (g'\<lparr>sg_sessions := AList.update (cs_id opt) (new_record now opt) (sg_sessions g')\<rparr>,
               Inr (new_record now opt)))"

definition get_session :: "string \<Rightarrow> session_registry \<Rightarrow> session_record option" where
  "get_session i g = map_of (sg_sessions g) i"

definition getOrThrow :: "string \<Rightarrow> session_registry \<Rightarrow> string + session_record" where
  "getOrThrow i g =
     (case get_session i g of None \<Rightarrow> Inl (''Session not found: '' @ i) | Some r \<Rightarrow> Inr r)"

text \<open>A patch is the function that spreads it over the record.\<close>

definition update_session ::
  "string \<Rightarrow> (session_record \<Rightarrow> session_record) \<Rightarrow> session_registry \<Rightarrow> session_registry \<times> (string + session_record)" where
  "update_session i patch g =
     (case getOrThrow i g of
        Inl e \<Rightarrow> (g, Inl e)
      | Inr r \<Rightarrow> (g\<lparr>sg_sessions := AList.update i (patch r) (sg_sessions g)\<rparr>, Inr (patch r)))"

definition state_patch :: "int \<Rightarrow> session_state \<Rightarrow> session_record \<Rightarrow> session_record" where
  "state_patch now st r =
     r\<lparr>sn_state := st, sn_endTime := (if isTerminalState st \<and> sn_endTime r = None then Some now else sn_endTime r)\<rparr>"

definition updateSessionState ::
  "int \<Rightarrow> string \<Rightarrow> session_state \<Rightarrow> session_registry \<Rightarrow> session_registry \<times> (string + session_record)" where
  "updateSessionState now i st g = update_session i (state_patch now st) g"

definition event_patch :: "nat \<Rightarrow> event_envelope \<Rightarrow> session_record \<Rightarrow> session_record" where
  "event_patch maxBuffer e r =
     (let buffer = sn_eventBuffer r @ [e];
          buffer = (if maxBuffer < length buffer then drop (length buffer - maxBuffer) buffer else buffer)
      in r\<lparr>sn_eventBuffer := buffer, sn_eventCount := sn_eventCount r + 1,
           sn_sequenceNumber := max (sn_sequenceNumber r) (ev_sequence e + 1),
           sn_lastEventAt := Some (ev_occurredAt e), sn_lastEventType := Some (ev_eventType e)\<rparr>)"

definition appendEvent ::
  "string \<Rightarrow> event_envelope \<Rightarrow> session_registry \<Rightarrow> session_registry \<times> (string + session_record)" where
  "appendEvent i e g = update_session i (event_patch (sg_maxEventBufferSize g) e) g"

definition listByAdapter :: "string \<Rightarrow> session_registry \<Rightarrow> session_record list" where
  "listByAdapter a g = filter (\<lambda>r. sn_adapterId r = a) (list_sessions g)"

definition listByProject :: "string \<Rightarrow> session_registry \<Rightarrow> session_record list" where
  "listByProject p g = filter (\<lambda>r. sn_projectId r = p) (list_sessions g)"

record session_filter =
  sf_projectId :: "string option"
  sf_adapterId :: "string option"
  sf_state :: "session_state list option"
  sf_startedAfter :: "int option"
  sf_startedBefore :: "int option"
  sf_limit :: "int option"
  sf_offset :: "int option"

text \<open>\<open>slice\<close>: a negative position counts from the end.\<close>

definition slice_pos :: "int \<Rightarrow> 'a list \<Rightarrow> nat" where
  "slice_pos k xs = (if k < 0 then length xs - nat (- k) else min (nat k) (length xs))"

definition js_slice :: "int \<Rightarrow> int \<Rightarrow> 'a list \<Rightarrow> 'a list" where
  "js_slice a b xs = drop (slice_pos a xs) (take (slice_pos b xs) xs)"

definition filter_sessions :: "session_filter \<Rightarrow> session_registry \<Rightarrow> session_record list" where
  "filter_sessions f g =
     (let r1 = list_sessions g;
          r2 = (if truthy (sf_projectId f) then filter (\<lambda>r. sn_projectId r = the (sf_projectId f)) r1 else r1);
          r3 = (if truthy (sf_adapterId f) then filter (\<lambda>r. sn_adapterId r = the (sf_adapterId f)) r2 else r2);
          r4 = (case sf_state f of None \<Rightarrow> r3
                | Some states \<Rightarrow> if states = [] then r3 else filter (\<lambda>r. sn_state r \<in> set states) r3);
          r5 = (case sf_startedAfter f of None \<Rightarrow> r4 | Some t \<Rightarrow> filter (\<lambda>r. t \<le> sn_startTime r) r4);
          r6 = (case sf_startedBefore f of None \<Rightarrow> r5 | Some t \<Rightarrow> filter (\<lambda>r. sn_startTime r \<le> t) r5);
          results = js_sort (\<lambda>a b. sn_startTime b - sn_startTime a) r6;
          offset = (case sf_offset f of None \<Rightarrow> 0 | Some n \<Rightarrow> n);
          limit = (case sf_limit f of None \<Rightarrow> int (length results) | Some n \<Rightarrow> n)
      in js_slice offset (offset + limit) results)"

definition getActiveCount :: "session_registry \<Rightarrow> nat" where
  "getActiveCount g = length (listByState [Initializing, Running_State, Waiting_For_Approval, Paused] g)"

definition getTotalCount :: "session_registry \<Rightarrow> nat" where
  "getTotalCount g = length (sg_sessions g)"

definition getFailedCount :: "session_registry \<Rightarrow> nat" where
  "getFailedCount g = length (listByState [Failed, Crashed] g)"

definition getEventsSince :: "string \<Rightarrow> int \<Rightarrow> session_registry \<Rightarrow> string + event_envelope list" where
  "getEventsSince i sequence g =
     (case getOrThrow i g of
        Inl e \<Rightarrow> Inl e
      | Inr r \<Rightarrow> Inr (filter (\<lambda>e. ev_sequence e > sequence) (sn_eventBuffer r)))"

definition clear_sessions :: "session_registry \<Rightarrow> session_registry" where
  "clear_sessions g = g\<lparr>sg_sessions := []\<rparr>"

record session_summary =
  sy_id :: string
  sy_state :: session_state
  sy_adapterId :: string
  sy_projectId :: string
  sy_startTime :: int
  sy_endTime :: "int option"
  sy_durationMs :: "int option"
  sy_eventCount :: nat
  sy_lastEventType :: "string option"

definition toSummary :: "session_record \<Rightarrow> session_summary" where
  "toSummary r =
     \<lparr>sy_id = sn_id r, sy_state = sn_state r, sy_adapterId = sn_adapterId r, sy_projectId = sn_projectId r,
      sy_startTime = sn_startTime r, sy_endTime = sn_endTime r,
      sy_durationMs = map_option (\<lambda>t. t - sn_startTime r) (sn_endTime r),
      sy_eventCount = sn_eventCount r, sy_lastEventType = sn_lastEventType r\<rparr>"

section \<open>The event bus\<close>

text \<open>
  A subscriber: whether its filter wants an event, or throws; whether its handlers throw.  A missing
  filter wants everything, a missing handler does nothing.
\<close>

record subscriber =
  su_id :: nat
  su_filter :: "(event_envelope \<Rightarrow> string + bool) option"
  su_onEvent :: "(event_envelope \<Rightarrow> string option) option"
  su_onError :: "(string \<Rightarrow> string option) option"

datatype delivery = Delivered nat event_envelope | Told_Error nat string | Handled_Error nat string

text \<open>
  The sets of session listeners are objects: the map names the set of a session, \<open>eb_sets\<close> holds their
  members, and the function that unsubscribes keeps the set it was made with.
\<close>

record event_bus =
  eb_globalListeners :: "subscriber list"
  eb_sessionListeners :: "(string, nat) jmap"
  eb_sets :: "nat \<Rightarrow> subscriber list"
  eb_nextSet :: nat
  eb_eventHistory :: "event_envelope list"
  eb_maxHistorySize :: nat
  eb_errorHandlers :: "nat list"

definition new_bus :: "nat option \<Rightarrow> event_bus" where
  "new_bus n = \<lparr>eb_globalListeners = [], eb_sessionListeners = [], eb_sets = (\<lambda>_. []),
     eb_nextSet = 0, eb_eventHistory = [], eb_maxHistorySize = (case n of None \<Rightarrow> 10000 | Some k \<Rightarrow> k), eb_errorHandlers = []\<rparr>"

text \<open>
  One entry: what is delivered and, when the filter or the handler throws, how the error is reported;
  \<open>Some\<close> is an exception of \<open>onError\<close>, which leaves the loop.
\<close>

definition dispatch_error :: "nat list \<Rightarrow> subscriber \<Rightarrow> string \<Rightarrow> delivery list \<times> string option" where
  "dispatch_error handlers s err =
     (case su_onError s of
        None \<Rightarrow> (map (\<lambda>h. Handled_Error h err) handlers, None)
      | Some f \<Rightarrow>
          (case f err of
             Some err' \<Rightarrow> ([Told_Error (su_id s) err], Some err')
           | None \<Rightarrow> (Told_Error (su_id s) err # map (\<lambda>h. Handled_Error h err) handlers, None)))"

definition wants :: "subscriber \<Rightarrow> event_envelope \<Rightarrow> string + bool" where
  "wants s e = (case su_filter s of None \<Rightarrow> Inr True | Some f \<Rightarrow> f e)"

definition dispatch_one :: "nat list \<Rightarrow> subscriber \<Rightarrow> event_envelope \<Rightarrow> delivery list \<times> string option" where
  "dispatch_one handlers s e =
     (case wants s e of
        Inl err \<Rightarrow> dispatch_error handlers s err
      | Inr False \<Rightarrow> ([], None)
      | Inr True \<Rightarrow>
          (case su_onEvent s of
             None \<Rightarrow> ([], None)
           | Some f \<Rightarrow>
               (case f e of
                  None \<Rightarrow> ([Delivered (su_id s) e], None)
                | Some err \<Rightarrow>
                    (let (ds, x) = dispatch_error handlers s err in (Delivered (su_id s) e # ds, x)))))"

fun dispatchToListeners :: "nat list \<Rightarrow> subscriber list \<Rightarrow> event_envelope \<Rightarrow> delivery list \<times> string option" where
  "dispatchToListeners handlers [] e = ([], None)"
| "dispatchToListeners handlers (s # ss) e =
     (case dispatch_one handlers s e of
        (ds, Some err) \<Rightarrow> (ds, Some err)
      | (ds, None) \<Rightarrow> (let (ds', x) = dispatchToListeners handlers ss e in (ds @ ds', x)))"

definition session_listeners :: "string \<Rightarrow> event_bus \<Rightarrow> subscriber list" where
  "session_listeners i b = (case map_of (eb_sessionListeners b) i of None \<Rightarrow> [] | Some n \<Rightarrow> eb_sets b n)"

definition remember_event :: "event_envelope \<Rightarrow> event_bus \<Rightarrow> event_bus" where
  "remember_event e b =
     b\<lparr>eb_eventHistory :=
       (if eb_maxHistorySize b \<le> length (eb_eventHistory b) then tl (eb_eventHistory b) else eb_eventHistory b) @ [e]\<rparr>"

definition publish :: "event_envelope \<Rightarrow> event_bus \<Rightarrow> event_bus \<times> delivery list \<times> string option" where
  "publish e b =
     (remember_event e b,
      case dispatchToListeners (eb_errorHandlers b) (eb_globalListeners b) e of
        (ds, Some err) \<Rightarrow> (ds, Some err)
      | (ds, None) \<Rightarrow>
          (let (ds', x) = dispatchToListeners (eb_errorHandlers b) (session_listeners (ev_sessionId e) b) e
           in (ds @ ds', x)))"

text \<open>Each subscription is a new entry, named by its number; the function returned removes it.\<close>

definition subscribeGlobal :: "subscriber \<Rightarrow> event_bus \<Rightarrow> event_bus" where
  "subscribeGlobal s b = b\<lparr>eb_globalListeners := eb_globalListeners b @ [s]\<rparr>"

definition unsubscribeGlobal :: "nat \<Rightarrow> event_bus \<Rightarrow> event_bus" where
  "unsubscribeGlobal k b = b\<lparr>eb_globalListeners := filter (\<lambda>s. su_id s \<noteq> k) (eb_globalListeners b)\<rparr>"

text \<open>The set a subscription is in comes back with the bus, for the function that unsubscribes.\<close>

definition subscribeSession :: "string \<Rightarrow> subscriber \<Rightarrow> event_bus \<Rightarrow> event_bus \<times> nat" where
  "subscribeSession i s b =
     (case map_of (eb_sessionListeners b) i of
        Some n \<Rightarrow> (b\<lparr>eb_sets := (eb_sets b)(n := eb_sets b n @ [s])\<rparr>, n)
      | None \<Rightarrow>
          (let n = eb_nextSet b in
           (b\<lparr>eb_sessionListeners := AList.update i n (eb_sessionListeners b),
              eb_sets := (eb_sets b)(n := [s]), eb_nextSet := n + 1\<rparr>, n)))"

definition unsubscribeSession :: "string \<Rightarrow> nat \<Rightarrow> nat \<Rightarrow> event_bus \<Rightarrow> event_bus" where
  "unsubscribeSession i n k b =
     (let ss = filter (\<lambda>s. su_id s \<noteq> k) (eb_sets b n);
          b = b\<lparr>eb_sets := (eb_sets b)(n := ss)\<rparr>
      in if ss = [] then b\<lparr>eb_sessionListeners := AList.delete i (eb_sessionListeners b)\<rparr> else b)"

definition subscribeTypes :: "string list \<Rightarrow> subscriber \<Rightarrow> event_bus \<Rightarrow> event_bus" where
  "subscribeTypes types s b =
     subscribeGlobal (s\<lparr>su_filter := Some (\<lambda>e. if ev_eventType e \<notin> set types then Inr False else wants s e)\<rparr>) b"

definition onError :: "nat \<Rightarrow> event_bus \<Rightarrow> event_bus" where
  "onError h b = (if h \<in> set (eb_errorHandlers b) then b else b\<lparr>eb_errorHandlers := eb_errorHandlers b @ [h]\<rparr>)"

definition getHistory :: "string option \<Rightarrow> int option \<Rightarrow> event_bus \<Rightarrow> event_envelope list" where
  "getHistory sid limit b =
     (let results = (if truthy sid then filter (\<lambda>e. ev_sessionId e = the sid) (eb_eventHistory b)
                     else eb_eventHistory b)
      in case limit of None \<Rightarrow> results | Some n \<Rightarrow> drop (slice_pos (- n) results) results)"

definition getHistorySince :: "int \<Rightarrow> string option \<Rightarrow> event_bus \<Rightarrow> event_envelope list" where
  "getHistorySince sequence sid b = filter (\<lambda>e. ev_sequence e > sequence) (getHistory sid None b)"

fun replay_events :: "nat list \<Rightarrow> subscriber list \<Rightarrow> event_envelope list \<Rightarrow> delivery list \<times> string option" where
  "replay_events handlers ss [] = ([], None)"
| "replay_events handlers ss (e # es) =
     (case dispatchToListeners handlers ss e of
        (ds, Some err) \<Rightarrow> (ds, Some err)
      | (ds, None) \<Rightarrow> (let (ds', x) = replay_events handlers ss es in (ds @ ds', x)))"

definition replaySince :: "int \<Rightarrow> string option \<Rightarrow> event_bus \<Rightarrow> delivery list \<times> (string + nat)" where
  "replaySince sequence sid b =
     (let events = getHistorySince sequence sid b;
          listeners = (if truthy sid then session_listeners (the sid) b else eb_globalListeners b);
          (ds, x) = replay_events (eb_errorHandlers b) listeners events
      in (ds, case x of Some err \<Rightarrow> Inl err | None \<Rightarrow> Inr (length events)))"

definition clearHistory :: "string option \<Rightarrow> event_bus \<Rightarrow> event_bus" where
  "clearHistory sid b =
     b\<lparr>eb_eventHistory := (if truthy sid then filter (\<lambda>e. ev_sessionId e \<noteq> the sid) (eb_eventHistory b) else [])\<rparr>"

definition clear_bus :: "event_bus \<Rightarrow> event_bus" where
  "clear_bus b = b\<lparr>eb_globalListeners := [], eb_sessionListeners := [], eb_eventHistory := [], eb_errorHandlers := []\<rparr>"

definition getGlobalListenerCount :: "event_bus \<Rightarrow> nat" where
  "getGlobalListenerCount b = length (eb_globalListeners b)"

definition getSessionListenerCount :: "string \<Rightarrow> event_bus \<Rightarrow> nat" where
  "getSessionListenerCount i b = length (session_listeners i b)"

section \<open>What the registry keeps\<close>

definition record_ok :: "nat \<Rightarrow> string \<times> session_record \<Rightarrow> bool" where
  "record_ok maxBuffer = (\<lambda>(i, r). sn_id r = i \<and> length (sn_eventBuffer r) \<le> maxBuffer \<and>
     length (sn_eventBuffer r) \<le> sn_eventCount r \<and> (\<forall>e \<in> set (sn_eventBuffer r). ev_sequence e < sn_sequenceNumber r))"

definition sessions_inv :: "session_registry \<Rightarrow> bool" where
  "sessions_inv g \<longleftrightarrow> entries_ok (record_ok (sg_maxEventBufferSize g)) (sg_sessions g) \<and>
     length (sg_sessions g) \<le> sg_maxSessions g"

datatype session_op =
  Create_Session int create_session_options
| Update_State int string session_state
| Append_Event string event_envelope
| Delete_Session string
| Clear_Sessions

fun session_step :: "session_registry \<Rightarrow> session_op \<Rightarrow> session_registry" where
  "session_step g (Create_Session now opt) = fst (create_session now opt g)"
| "session_step g (Update_State now i st) = fst (updateSessionState now i st g)"
| "session_step g (Append_Event i e) = fst (appendEvent i e g)"
| "session_step g (Delete_Session i) = fst (delete_session i g)"
| "session_step g Clear_Sessions = clear_sessions g"

lemma update_length: "map_of m k \<noteq> None \<Longrightarrow> length (AList.update k v m) = length m"
  by (induction m) auto

lemma update_length_le: "length (AList.update k v m) \<le> Suc (length m)"
  by (induction m) auto

lemma delete_length: "length (AList.delete k m) \<le> length m"
  by (simp add: AList.delete_eq)

lemma evict_cases:
  "evictOldestTerminal g = g \<or> (\<exists>r. r \<in> set (list_sessions g) \<and> isTerminalState (sn_state r) \<and>
     evictOldestTerminal g = fst (delete_session (sn_id r) g))"
proof (cases "js_sort (\<lambda>a b. end_or_zero a - end_or_zero b) (listByState [Completed, Failed, Cancelled, Crashed] g)")
  case (Cons r rs)
  then have "r \<in> set (js_sort (\<lambda>a b. end_or_zero a - end_or_zero b) (listByState [Completed, Failed, Cancelled, Crashed] g))"
    by simp
  then have "r \<in> set (list_sessions g)" "isTerminalState (sn_state r)" by (auto simp: listByState_def)
  then show ?thesis using Cons by (auto simp: evictOldestTerminal_def)
qed (simp add: evictOldestTerminal_def)

lemma delete_inv: "sessions_inv g \<Longrightarrow> sessions_inv (fst (delete_session i g))"
  unfolding sessions_inv_def delete_session_def
  using delete_length [of i "sg_sessions g"] by (auto intro: entries_ok_delete)

lemma evict_inv: "sessions_inv g \<Longrightarrow> sessions_inv (evictOldestTerminal g)"
  using evict_cases [of g] delete_inv by metis

lemma evict_fields [simp]: "sg_maxSessions (evictOldestTerminal g) = sg_maxSessions g"
  "sg_maxEventBufferSize (evictOldestTerminal g) = sg_maxEventBufferSize g"
  by (auto simp: evictOldestTerminal_def delete_session_def split: list.splits)

lemma create_inv: "sessions_inv g \<Longrightarrow> sessions_inv (fst (create_session now opt g))"
proof -
  let ?g = "if sg_maxSessions g \<le> length (sg_sessions g) then evictOldestTerminal g else g"
  assume "sessions_inv g"
  then have inv: "sessions_inv ?g" by (simp add: evict_inv)
  have new: "record_ok n (cs_id opt, new_record now opt)" for n by (simp add: record_ok_def new_record_def)
  show ?thesis
  proof (cases "sg_maxSessions g \<le> length (sg_sessions ?g)")
    case True
    then show ?thesis using inv by (simp add: create_session_def Let_def)
  next
    case False
    then have "fst (create_session now opt g) =
        ?g\<lparr>sg_sessions := AList.update (cs_id opt) (new_record now opt) (sg_sessions ?g)\<rparr>"
      by (simp add: create_session_def Let_def)
    moreover have "length (AList.update (cs_id opt) (new_record now opt) (sg_sessions ?g)) \<le> sg_maxSessions ?g"
      using False update_length_le [of "cs_id opt" "new_record now opt" "sg_sessions ?g"] by (simp split: if_splits)
    ultimately show ?thesis using inv new unfolding sessions_inv_def by (simp add: entries_ok_put)
  qed
qed

lemma update_inv:
  assumes "sessions_inv g" "\<And>r. record_ok (sg_maxEventBufferSize g) (i, r) \<Longrightarrow> record_ok (sg_maxEventBufferSize g) (i, patch r)"
  shows "sessions_inv (fst (update_session i patch g))"
proof (cases "get_session i g")
  case None
  then show ?thesis using assms(1) by (simp add: update_session_def getOrThrow_def)
next
  case (Some r)
  then have m: "map_of (sg_sessions g) i = Some r" by (simp add: get_session_def)
  have ok: "entries_ok (record_ok (sg_maxEventBufferSize g)) (sg_sessions g)" using assms(1) by (simp add: sessions_inv_def)
  have "record_ok (sg_maxEventBufferSize g) (i, patch r)" by (rule assms(2) [OF entries_ok_get [OF ok m]])
  then show ?thesis using assms(1) m Some ok update_length [of "sg_sessions g" i "patch r"]
    unfolding sessions_inv_def by (simp add: update_session_def getOrThrow_def entries_ok_put)
qed

lemma event_patch_ok: "record_ok n (i, r) \<Longrightarrow> record_ok n (i, event_patch n e r)"
  by (auto simp: record_ok_def event_patch_def Let_def dest!: in_set_dropD)

interpretation sessions: transition_system session_step sessions_inv
proof unfold_locales
  fix g x assume inv: "sessions_inv g"
  show "sessions_inv (session_step g x)"
  proof (cases x)
    case (Create_Session now opt)
    then show ?thesis using create_inv [OF inv] by simp
  next
    case (Update_State now i st)
    then show ?thesis using update_inv [OF inv, of i "state_patch now st"]
      by (simp add: updateSessionState_def record_ok_def state_patch_def)
  next
    case (Append_Event i e)
    then show ?thesis using update_inv [OF inv, of i "event_patch (sg_maxEventBufferSize g) e"] event_patch_ok
      by (simp add: appendEvent_def)
  next
    case (Delete_Session i)
    then show ?thesis using delete_inv [OF inv] by simp
  next
    case Clear_Sessions
    then show ?thesis by (simp add: clear_sessions_def sessions_inv_def)
  qed
qed

lemma new_sessions_inv: "sessions_inv (new_session_registry m n)"
  by (simp add: sessions_inv_def new_session_registry_def)


lemma js_sort_Nil: "js_sort cmp xs = [] \<longleftrightarrow> xs = []"
  by (simp flip: length_0_conv)

lemma terminal_iff: "isTerminalState s \<longleftrightarrow> s \<in> set [Completed, Failed, Cancelled, Crashed]"
  by (cases s) simp_all

text \<open>The sessions lost when one is created.\<close>

lemma terminal_first:
  assumes "js_sort cmp (listByState [Completed, Failed, Cancelled, Crashed] g) = x # xs" "sessions_inv g"
  shows "x \<in> set (list_sessions g) \<and> isTerminalState (sn_state x) \<and> map_of (sg_sessions g) (sn_id x) = Some x"
proof -
  have "x \<in> set (listByState [Completed, Failed, Cancelled, Crashed] g)"
    using assms(1) set_js_sort [of cmp] by (metis list.set_intros(1))
  then have x: "x \<in> set (list_sessions g)" "isTerminalState (sn_state x)" by (auto simp: listByState_def)
  then obtain k where "(k, x) \<in> set (sg_sessions g)" by (auto simp: list_sessions_def)
  note k = entries_ok_member [OF _ this, of "record_ok (sg_maxEventBufferSize g)"]
  have "map_of (sg_sessions g) k = Some x \<and> record_ok (sg_maxEventBufferSize g) (k, x)"
    by (rule k) (use assms(2) in \<open>simp add: sessions_inv_def\<close>)
  then have "sn_id x = k" "map_of (sg_sessions g) k = Some x" by (simp_all add: record_ok_def)
  then show ?thesis using x by simp
qed

lemma evict_room:
  assumes "sessions_inv g" "sg_maxSessions g \<le> length (sg_sessions g)"
  shows "length (sg_sessions (evictOldestTerminal g)) < sg_maxSessions g \<longleftrightarrow>
    (\<exists>x \<in> set (list_sessions g). isTerminalState (sn_state x))"
proof (cases "js_sort (\<lambda>a b. end_or_zero a - end_or_zero b) (listByState [Completed, Failed, Cancelled, Crashed] g)")
  case Nil
  then have "listByState [Completed, Failed, Cancelled, Crashed] g = []" by (simp add: js_sort_Nil)
  then have "\<not> (\<exists>x \<in> set (list_sessions g). isTerminalState (sn_state x))"
    unfolding listByState_def filter_empty_conv terminal_iff by blast
  then show ?thesis using Nil assms(2) by (simp add: evictOldestTerminal_def)
next
  case (Cons y ys)
  note y = terminal_first [OF Cons assms(1)]
  then have "Suc (length (AList.delete (sn_id y) (sg_sessions g))) = length (sg_sessions g)"
    using jm.size_remove [OF _ domI, of "sg_sessions g" "sn_id y" y] assms(1) by (simp add: sessions_inv_def entries_ok_def)
  then have "length (sg_sessions (evictOldestTerminal g)) < length (sg_sessions g)"
    using Cons by (simp add: evictOldestTerminal_def delete_session_def)
  then show ?thesis using y assms by (auto simp: sessions_inv_def)
qed

lemma evicted_is_oldest:
  assumes "sessions_inv g" "get_session i g = Some r" "get_session i (evictOldestTerminal g) \<noteq> Some r"
  shows "isTerminalState (sn_state r) \<and> evictOldestTerminal g = fst (delete_session i g) \<and>
    (\<forall>r' \<in> set (list_sessions g). isTerminalState (sn_state r') \<longrightarrow> end_or_zero r \<le> end_or_zero r')"
proof -
  let ?cmp = "\<lambda>a b. end_or_zero a - end_or_zero b"
  let ?ts = "listByState [Completed, Failed, Cancelled, Crashed] g"
  have terminal: "x \<in> set ?ts \<longleftrightarrow> x \<in> set (list_sessions g) \<and> isTerminalState (sn_state x)" for x
    by (cases "sn_state x") (auto simp: listByState_def)
  obtain x xs where x: "js_sort ?cmp ?ts = x # xs"
    using assms(2,3) by (cases "js_sort ?cmp ?ts") (auto simp: evictOldestTerminal_def)
  then have ev: "evictOldestTerminal g = fst (delete_session (sn_id x) g)" by (simp add: evictOldestTerminal_def)
  then have i: "i = sn_id x" using assms(2,3) by (auto simp: delete_session_def get_session_def store_simps split: if_splits)
  note xin = terminal_first [OF x assms(1)]
  then have "r = x" using assms(2) i by (simp add: get_session_def)
  moreover have "consistent ?cmp" by (simp add: consistent_def)
  then have "sorted_wrt (\<lambda>a b. ?cmp b a \<ge> 0) (js_sort ?cmp ?ts)" by (rule sorted_js_sort)
  then have "\<forall>y \<in> set xs. end_or_zero x \<le> end_or_zero y" unfolding x by simp
  then have "\<forall>y \<in> set ?ts. end_or_zero x \<le> end_or_zero y"
    using x set_js_sort [of ?cmp ?ts] by (metis order_refl set_ConsD)
  ultimately show ?thesis using xin ev i terminal by blast
qed

text \<open>
  Creating a session succeeds exactly when there is room or a session has ended, stores it fresh, and
  costs at most one other session: one that has ended, and none ended before it.
\<close>

theorem create_costs_oldest_terminal:
  assumes "sessions_inv g" "create_session now opt g = (g', r)"
  shows "((\<exists>x. r = Inr x) \<longleftrightarrow> length (sg_sessions g) < sg_maxSessions g \<or>
      (\<exists>x \<in> set (list_sessions g). isTerminalState (sn_state x))) \<and>
    (\<forall>x. r = Inr x \<longrightarrow> get_session (cs_id opt) g' = Some x \<and> x = new_record now opt) \<and>
    (\<forall>i x. get_session i g = Some x \<and> i \<noteq> cs_id opt \<and> get_session i g' \<noteq> Some x \<longrightarrow>
      isTerminalState (sn_state x) \<and>
      (\<forall>y \<in> set (list_sessions g). isTerminalState (sn_state y) \<longrightarrow> end_or_zero x \<le> end_or_zero y) \<and>
      (\<forall>j y. get_session j g = Some y \<and> j \<noteq> cs_id opt \<and> get_session j g' \<noteq> Some y \<longrightarrow> j = i))"
proof -
  let ?full = "sg_maxSessions g \<le> length (sg_sessions g)"
  let ?g = "if ?full then evictOldestTerminal g else g"
  have r_cases: "r = Inr (new_record now opt) \<and> g' = ?g\<lparr>sg_sessions := AList.update (cs_id opt) (new_record now opt) (sg_sessions ?g)\<rparr> \<or>
      (\<exists>e. r = Inl e) \<and> g' = ?g \<and> sg_maxSessions g \<le> length (sg_sessions ?g)"
    using assms(2) by (cases "sg_maxSessions g \<le> length (sg_sessions ?g)") (auto simp: create_session_def Let_def simp del: show_nat.simps)
  have ok: "(\<exists>x. r = Inr x) \<longleftrightarrow> length (sg_sessions ?g) < sg_maxSessions g"
    using assms(2) by (cases "sg_maxSessions g \<le> length (sg_sessions ?g)") (auto simp: create_session_def Let_def simp del: show_nat.simps)
  have keep: "get_session i g' = get_session i ?g" if "i \<noteq> cs_id opt" for i
    using r_cases that by (elim disjE conjE) (simp_all add: get_session_def store_simps)
  have room: "length (sg_sessions ?g) < sg_maxSessions g \<longleftrightarrow> length (sg_sessions g) < sg_maxSessions g \<or>
      (\<exists>x \<in> set (list_sessions g). isTerminalState (sn_state x))"
    using evict_room [OF assms(1)] by (cases ?full) auto
  have lost: "?full \<and> get_session i (evictOldestTerminal g) \<noteq> Some x"
    if "get_session i g = Some x" "i \<noteq> cs_id opt" "get_session i g' \<noteq> Some x" for i x
    using that keep [of i] by (auto split: if_splits)
  have single: "j = i" if "get_session i g = Some x" "i \<noteq> cs_id opt" "get_session i g' \<noteq> Some x"
      "get_session j g = Some y" "j \<noteq> cs_id opt" "get_session j g' \<noteq> Some y" for i j x y
  proof -
    have "evictOldestTerminal g = fst (delete_session i g)" "get_session j (evictOldestTerminal g) \<noteq> Some y"
      using lost that evicted_is_oldest [OF assms(1)] by blast+
    then show ?thesis using that(4) by (auto simp: delete_session_def get_session_def store_simps split: if_splits)
  qed
  have costs: "\<forall>i x. get_session i g = Some x \<and> i \<noteq> cs_id opt \<and> get_session i g' \<noteq> Some x \<longrightarrow>
      isTerminalState (sn_state x) \<and>
      (\<forall>y \<in> set (list_sessions g). isTerminalState (sn_state y) \<longrightarrow> end_or_zero x \<le> end_or_zero y) \<and>
      (\<forall>j y. get_session j g = Some y \<and> j \<noteq> cs_id opt \<and> get_session j g' \<noteq> Some y \<longrightarrow> j = i)"
  proof (intro allI impI, elim conjE)
    fix i x assume i: "get_session i g = Some x" "i \<noteq> cs_id opt" "get_session i g' \<noteq> Some x"
    note old = evicted_is_oldest [OF assms(1) i(1) conjunct2 [OF lost [OF i]]]
    have "\<forall>j y. get_session j g = Some y \<and> j \<noteq> cs_id opt \<and> get_session j g' \<noteq> Some y \<longrightarrow> j = i"
    proof (intro allI impI, elim conjE)
      fix j y assume "get_session j g = Some y" "j \<noteq> cs_id opt" "get_session j g' \<noteq> Some y"
      then show "j = i" by (rule single [OF i])
    qed
    then show "isTerminalState (sn_state x) \<and>
      (\<forall>y \<in> set (list_sessions g). isTerminalState (sn_state y) \<longrightarrow> end_or_zero x \<le> end_or_zero y) \<and>
      (\<forall>j y. get_session j g = Some y \<and> j \<noteq> cs_id opt \<and> get_session j g' \<noteq> Some y \<longrightarrow> j = i)"
      using old by (elim conjE, intro conjI)
  qed
  have kept: "\<forall>x. r = Inr x \<longrightarrow> get_session (cs_id opt) g' = Some x \<and> x = new_record now opt"
    using r_cases by (intro allI impI, elim disjE conjE exE) (simp_all add: get_session_def store_simps)
  have room': "(\<exists>x. r = Inr x) \<longleftrightarrow> length (sg_sessions g) < sg_maxSessions g \<or>
      (\<exists>x \<in> set (list_sessions g). isTerminalState (sn_state x))"
    unfolding ok by (rule room)
  from conjI [OF room' conjI [OF kept costs]] show ?thesis .
qed

definition toy_options :: "string \<Rightarrow> create_session_options" where
  "toy_options i = \<lparr>cs_id = i, cs_adapterSessionId = None, cs_config = [], cs_metadata = None, cs_projectId = ''p'',
     cs_adapterId = ''a''\<rparr>"

definition toy_registry :: session_registry where
  "toy_registry = foldl session_step (new_session_registry (Some 2) (Some 3))
     [Create_Session 1 (toy_options ''s1''), Create_Session 2 (toy_options ''s2''), Update_State 5 ''s2'' Completed]"

lemma toy_registry_eq: "sg_sessions toy_registry =
    [(''s1'', new_record 1 (toy_options ''s1'')),
     (''s2'', (new_record 2 (toy_options ''s2''))\<lparr>sn_state := Completed, sn_endTime := Some 5\<rparr>)]"
  by (simp add: toy_registry_def new_session_registry_def create_session_def updateSessionState_def update_session_def
    getOrThrow_def get_session_def state_patch_def toy_options_def new_record_def)

theorem create_costs_oldest_terminal_witness:
  "get_session ''s3'' (fst (create_session 9 (toy_options ''s3'') toy_registry)) = Some (new_record 9 (toy_options ''s3'')) \<and>
   isTerminalState Completed"
proof -
  have inv: "sessions_inv toy_registry" unfolding toy_registry_def by (rule sessions.run_inv [OF new_sessions_inv])
  obtain g' r where r: "create_session 9 (toy_options ''s3'') toy_registry = (g', r)" by fastforce
  have "\<exists>x \<in> set (list_sessions toy_registry). isTerminalState (sn_state x)"
    by (simp add: list_sessions_def toy_registry_eq)
  then obtain x where "r = Inr x" using create_costs_oldest_terminal [OF inv r] by blast
  then show ?thesis using create_costs_oldest_terminal [OF inv r] r by (simp add: toy_options_def)
qed

section \<open>Events of a session\<close>

definition last_n :: "nat \<Rightarrow> 'a list \<Rightarrow> 'a list" where
  "last_n n xs = drop (length xs - n) xs"

lemma last_n_snoc: "last_n n (last_n n xs @ [x]) = last_n n (xs @ [x])"
  by (cases "n \<le> length xs") (simp_all add: last_n_def Suc_diff_le)

lemma buffer_patch: "length (sn_eventBuffer r) \<le> n \<Longrightarrow> sn_eventBuffer (event_patch n e r) = last_n n (sn_eventBuffer r @ [e])"
  by (simp add: event_patch_def last_n_def Let_def)

lemma append_get:
  assumes "get_session i g = Some r"
  shows "get_session i (fst (appendEvent i e g)) = Some (event_patch (sg_maxEventBufferSize g) e r)"
    and "sg_maxEventBufferSize (fst (appendEvent i e g)) = sg_maxEventBufferSize g"
  using assms by (simp_all add: appendEvent_def update_session_def getOrThrow_def get_session_def store_simps)

lemma appended_buffer:
  assumes "get_session i g = Some r" "sn_eventBuffer r = last_n (sg_maxEventBufferSize g) old"
  shows "\<exists>r'. get_session i (foldl (\<lambda>g e. fst (appendEvent i e g)) g es) = Some r' \<and>
    sn_eventBuffer r' = last_n (sg_maxEventBufferSize g) (old @ es) \<and> sn_eventCount r' = sn_eventCount r + length es \<and>
    sn_sequenceNumber r' = foldl max (sn_sequenceNumber r) (map (\<lambda>e. ev_sequence e + 1) es)"
  using assms
proof (induction es arbitrary: g r old)
  case (Cons e es)
  let ?n = "sg_maxEventBufferSize g" and ?g = "fst (appendEvent i e g)"
  have "length (sn_eventBuffer r) \<le> ?n" using Cons.prems(2) by (simp add: last_n_def)
  then have "sn_eventBuffer (event_patch ?n e r) = last_n (sg_maxEventBufferSize ?g) (old @ [e])"
    using Cons.prems by (simp add: buffer_patch append_get(2) last_n_snoc)
  from Cons.IH [OF append_get(1) [OF Cons.prems(1)] this] show ?case
    by (simp add: append_get(2) [OF Cons.prems(1)]) (simp add: event_patch_def Let_def)
qed simp

text \<open>
  A reader that asks for the events after a sequence number gets, in order, every event appended
  after it, as long as it lies among the last events the buffer holds; the session counts all of them, and
  its next sequence number never goes back.
\<close>

theorem events_since_complete:
  assumes "get_session i g = Some r" "sn_eventBuffer r = []"
  shows "let g' = foldl (\<lambda>g e. fst (appendEvent i e g)) g es in
    getEventsSince i k g' = Inr (filter (\<lambda>e. ev_sequence e > k) (last_n (sg_maxEventBufferSize g) es)) \<and>
    (\<exists>r'. get_session i g' = Some r' \<and> sn_eventCount r' = sn_eventCount r + length es \<and>
       sn_sequenceNumber r' = foldl max (sn_sequenceNumber r) (map (\<lambda>e. ev_sequence e + 1) es))"
proof -
  have "sn_eventBuffer r = last_n (sg_maxEventBufferSize g) []" using assms(2) by (simp add: last_n_def)
  from appended_buffer [OF assms(1) this, of es] show ?thesis
    by (auto simp: getEventsSince_def getOrThrow_def Let_def)
qed

theorem events_since_complete_witness:
  "getEventsSince ''s1'' 0 (foldl (\<lambda>g e. fst (appendEvent ''s1'' e g)) toy_registry []) = Inr []"
proof -
  have "get_session ''s1'' toy_registry = Some (new_record 1 (toy_options ''s1''))"
    by (simp add: get_session_def toy_registry_eq)
  from events_since_complete [OF this, of "[]" 0] show ?thesis by (simp add: new_record_def last_n_def)
qed

section \<open>Deliveries\<close>

definition quiet :: "subscriber \<Rightarrow> bool" where
  "quiet s \<longleftrightarrow> (case su_onError s of None \<Rightarrow> True | Some f \<Rightarrow> \<forall>err. f err = None)"

definition gets :: "event_envelope \<Rightarrow> subscriber \<Rightarrow> bool" where
  "gets e s \<longleftrightarrow> wants s e = Inr True \<and> su_onEvent s \<noteq> None"

fun delivered_to :: "delivery list \<Rightarrow> (nat \<times> event_envelope) list" where
  "delivered_to [] = []"
| "delivered_to (Delivered k e # ds) = (k, e) # delivered_to ds"
| "delivered_to (_ # ds) = delivered_to ds"

lemma delivered_append [simp]: "delivered_to (xs @ ys) = delivered_to xs @ delivered_to ys"
  by (induction xs rule: delivered_to.induct) simp_all

lemma delivered_handlers [simp]: "delivered_to (map (\<lambda>h. Handled_Error h err) hs) = []"
  by (induction hs) simp_all

lemma dispatch_error_none: "delivered_to (fst (dispatch_error hs s err)) = []"
  by (simp add: dispatch_error_def split: option.splits)

lemma dispatch_one_gets: "delivered_to (fst (dispatch_one hs s e)) = (if gets e s then [(su_id s, e)] else [])"
  using dispatch_error_none [of hs s]
  by (auto simp: dispatch_one_def gets_def Let_def split: sum.splits bool.splits option.splits prod.splits)
    (metis fst_conv)+

lemma dispatch_one_quiet: "quiet s \<Longrightarrow> snd (dispatch_one hs s e) = None"
  by (auto simp: dispatch_one_def dispatch_error_def quiet_def Let_def split: sum.splits bool.splits option.splits prod.splits)

lemma dispatch_all:
  "list_all quiet ss \<Longrightarrow> snd (dispatchToListeners hs ss e) = None \<and>
     delivered_to (fst (dispatchToListeners hs ss e)) = map (\<lambda>s. (su_id s, e)) (filter (gets e) ss)"
proof (induction ss)
  case (Cons s ss)
  obtain ds where d: "dispatch_one hs s e = (ds, None)"
    using dispatch_one_quiet [of s hs e] Cons.prems by (cases "dispatch_one hs s e") simp
  then have "delivered_to ds = (if gets e s then [(su_id s, e)] else [])"
    using dispatch_one_gets [of hs s e] by simp
  then show ?case using Cons d by (auto simp: Let_def split: prod.splits)
qed simp

text \<open>
  C28: Every published event reaches each subscriber that wants it exactly once, the global ones before
  those of its session, each group in the order of subscription, whichever of their handlers and filters
  throw, as long as no error callback throws.
\<close>

theorem publish_reaches_all:
  assumes "list_all quiet (eb_globalListeners b)" "list_all quiet (session_listeners (ev_sessionId e) b)"
  shows "case publish e b of (b', ds, err) \<Rightarrow> err = None \<and>
    delivered_to ds = map (\<lambda>s. (su_id s, e))
      (filter (gets e) (eb_globalListeners b @ session_listeners (ev_sessionId e) b)) \<and>
    b' = remember_event e b"
proof -
  let ?d1 = "dispatchToListeners (eb_errorHandlers b) (eb_globalListeners b) e"
  let ?d2 = "dispatchToListeners (eb_errorHandlers b) (session_listeners (ev_sessionId e) b) e"
  obtain ds1 where d1: "?d1 = (ds1, None)" using dispatch_all [OF assms(1)] by (metis prod.collapse)
  obtain ds2 where d2: "?d2 = (ds2, None)" using dispatch_all [OF assms(2)] by (metis prod.collapse)
  show ?thesis using d1 d2 dispatch_all [OF assms(1), of "eb_errorHandlers b" e] dispatch_all [OF assms(2), of "eb_errorHandlers b" e]
    by (simp add: publish_def Let_def)
qed

definition faulty_subscriber :: "nat \<Rightarrow> (string \<Rightarrow> string option) option \<Rightarrow> subscriber" where
  "faulty_subscriber k f = \<lparr>su_id = k, su_filter = None, su_onEvent = Some (\<lambda>_. Some ''boom''), su_onError = f\<rparr>"

definition toy_event :: event_envelope where
  "toy_event = \<lparr>ev_eventId = ''e'', ev_eventType = ''session.started'', ev_eventVersion = 1, ev_sessionId = ''s1'',
     ev_deviceId = None, ev_sequence = 0, ev_occurredAt = 0, ev_correlationId = None, ev_parentEventId = None,
     ev_payload = JS_Null\<rparr>"

theorem publish_reaches_all_witness:
  "delivered_to (fst (snd (publish toy_event (subscribeGlobal (faulty_subscriber 2 None)
     (subscribeGlobal (faulty_subscriber 1 None) (new_bus None)))))) = [(1, toy_event), (2, toy_event)]"
proof -
  let ?b = "subscribeGlobal (faulty_subscriber 2 None) (subscribeGlobal (faulty_subscriber 1 None) (new_bus None))"
  have "list_all quiet (eb_globalListeners ?b)" "list_all quiet (session_listeners (ev_sessionId toy_event) ?b)"
    by (simp_all add: subscribeGlobal_def new_bus_def faulty_subscriber_def quiet_def session_listeners_def)
  from publish_reaches_all [OF this] show ?thesis
    by (simp add: subscribeGlobal_def new_bus_def faulty_subscriber_def session_listeners_def gets_def wants_def split: prod.splits)
qed

section \<open>History\<close>

lemma remember_last:
  assumes "eb_eventHistory b = last_n (max 1 (eb_maxHistorySize b)) old"
  shows "eb_eventHistory (remember_event e b) = last_n (max 1 (eb_maxHistorySize b)) (old @ [e])"
proof -
  let ?n = "eb_maxHistorySize b"
  have "length (last_n (max 1 ?n) old) = min (length old) (max 1 ?n)" by (auto simp: last_n_def)
  then show ?thesis using assms
    by (cases "max 1 ?n \<le> length old"; cases "eb_eventHistory b = []")
      (auto simp: remember_event_def last_n_def Suc_diff_le tl_drop drop_Suc max_def min_def Suc_le_eq split: if_splits)
qed

lemma history_last:
  "eb_eventHistory b = last_n (max 1 (eb_maxHistorySize b)) old \<Longrightarrow>
     eb_eventHistory (foldl (\<lambda>b e. fst (publish e b)) b es) = last_n (max 1 (eb_maxHistorySize b)) (old @ es)"
proof (induction es arbitrary: b old)
  case (Cons e es)
  let ?b = "remember_event e b"
  have n: "eb_maxHistorySize ?b = eb_maxHistorySize b" by (simp add: remember_event_def)
  have "eb_eventHistory ?b = last_n (max 1 (eb_maxHistorySize ?b)) (old @ [e])"
    unfolding n by (rule remember_last [OF Cons.prems])
  from Cons.IH [OF this] show ?case by (simp add: publish_def n)
qed simp

text \<open>
  The history is the last events published, as many as it may hold and at least one, whoever
  listened and whatever failed; asking for the last 0 of them gives all of them.
\<close>

theorem history_is_last_events:
  "let b = foldl (\<lambda>b e. fst (publish e b)) (new_bus n) es;
       h = last_n (max 1 (case n of None \<Rightarrow> 10000 | Some k \<Rightarrow> k)) es
   in getHistory None None b = h \<and> getHistory None (Some (int (Suc k))) b = last_n (Suc k) h \<and>
      getHistory None (Some 0) b = h \<and> getHistorySince s None b = filter (\<lambda>e. ev_sequence e > s) h"
proof -
  let ?b = "foldl (\<lambda>b e. fst (publish e b)) (new_bus n) es"
  have "eb_eventHistory (new_bus n) = last_n (max 1 (eb_maxHistorySize (new_bus n))) []"
    by (simp add: new_bus_def last_n_def)
  from history_last [OF this, of es]
  have h: "eb_eventHistory ?b = last_n (max 1 (case n of None \<Rightarrow> 10000 | Some k \<Rightarrow> k)) es"
    by (simp add: new_bus_def)
  then show ?thesis by (simp add: getHistory_def getHistorySince_def slice_pos_def last_n_def Let_def nat_add_distrib)
qed

section \<open>Two failures of isolation\<close>

text \<open>
  An error callback that throws ends the publication: the subscribers after it do not get the event,
  and the publisher gets the exception.
\<close>

theorem throwing_error_callback:
  assumes "eb_globalListeners b = xs @ s # ys" "list_all quiet xs"
    and "wants s e = Inr True" "su_onEvent s = Some f" "f e = Some err" "su_onError s = Some g" "g err = Some err'"
  shows "\<exists>ds. publish e b = (remember_event e b, ds, Some err') \<and>
    delivered_to ds = map (\<lambda>s. (su_id s, e)) (filter (gets e) xs @ [s])"
proof -
  let ?hs = "eb_errorHandlers b"
  have one: "dispatch_one ?hs s e = ([Delivered (su_id s) e, Told_Error (su_id s) err], Some err')"
    using assms(3-7) by (simp add: dispatch_one_def dispatch_error_def)
  have "\<exists>ds. dispatchToListeners ?hs (xs @ s # ys) e = (ds, Some err') \<and>
      delivered_to ds = map (\<lambda>s. (su_id s, e)) (filter (gets e) xs @ [s])"
    using assms(2)
  proof (induction xs)
    case Nil
    then show ?case using one by simp
  next
    case (Cons x xs)
    obtain dx where dx: "dispatch_one ?hs x e = (dx, None)"
      using dispatch_one_quiet [of x ?hs e] Cons.prems by (cases "dispatch_one ?hs x e") simp
    then have "delivered_to dx = (if gets e x then [(su_id x, e)] else [])"
      using dispatch_one_gets [of ?hs x e] by simp
    then show ?case using Cons dx by (auto simp: Let_def)
  qed
  then show ?thesis using assms(1) by (auto simp: publish_def)
qed

theorem throwing_error_callback_witness:
  "delivered_to (fst (snd (publish toy_event (subscribeGlobal (faulty_subscriber 2 None)
     (subscribeGlobal (faulty_subscriber 1 (Some (\<lambda>_. Some ''bang''))) (new_bus None)))))) = [(1, toy_event)]"
proof -
  let ?s = "faulty_subscriber 1 (Some (\<lambda>_. Some ''bang''))"
  let ?b = "subscribeGlobal (faulty_subscriber 2 None) (subscribeGlobal ?s (new_bus None))"
  have "\<exists>ds. publish toy_event ?b = (remember_event toy_event ?b, ds, Some ''bang'') \<and>
      delivered_to ds = map (\<lambda>s. (su_id s, toy_event)) (filter (gets toy_event) [] @ [?s])"
    by (rule throwing_error_callback [where f = "\<lambda>_. Some ''boom''" and g = "\<lambda>_. Some ''bang''" and err = "''boom''"
          and ys = "[faulty_subscriber 2 None]"])
      (simp_all add: subscribeGlobal_def new_bus_def faulty_subscriber_def wants_def)
  then show ?thesis by (auto simp: faulty_subscriber_def)
qed

text \<open>
  The function that ends a session subscription, called again after the last subscriber of the
  session has gone, silences whoever subscribed since: it removes the session's new set of listeners.
\<close>

theorem stale_unsubscribe_silences:
  assumes "map_of (eb_sessionListeners b) i = None" "subscribeSession i x b = (b1, n)"
    and "subscribeSession i y (unsubscribeSession i n (su_id x) b1) = (b2, n')"
  shows "session_listeners i b2 = [y] \<and> session_listeners i (unsubscribeSession i n (su_id x) b2) = []"
  using assms
  by (auto simp: subscribeSession_def unsubscribeSession_def session_listeners_def Let_def store_simps)

theorem stale_unsubscribe_silences_witness:
  "session_listeners ''s1'' (unsubscribeSession ''s1'' 0 1 (fst (subscribeSession ''s1'' (faulty_subscriber 2 None)
     (unsubscribeSession ''s1'' 0 1 (fst (subscribeSession ''s1'' (faulty_subscriber 1 None) (new_bus None))))))) = []"
proof -
  obtain b1 n where b1: "subscribeSession ''s1'' (faulty_subscriber 1 None) (new_bus None) = (b1, n)" by fastforce
  obtain b2 n' where b2: "subscribeSession ''s1'' (faulty_subscriber 2 None)
      (unsubscribeSession ''s1'' n (su_id (faulty_subscriber 1 None)) b1) = (b2, n')" by fastforce
  have "map_of (eb_sessionListeners (new_bus None)) ''s1'' = None" by (simp add: new_bus_def)
  from stale_unsubscribe_silences [OF this b1 b2] show ?thesis
    using b1 b2 by (auto simp: subscribeSession_def new_bus_def faulty_subscriber_def)
qed

end
