(* ===== verification/Grants.thy ===== *)
theory Grants
  imports AuditTrail Dates
begin

text \<open>
  What an integration may read on a workstation: the signed grants
  (\<open>gateway/integrations/src/grant-store.ts\<close>), the confirmation code (\<open>confirmation.ts\<close>), the allowlist
  (\<open>allowlist.ts\<close>), paths (\<open>paths.ts\<close>) and the guard every read goes through (\<open>grant-guard.ts\<close>), with
  the catalogue of integrations of \<open>packages/protocol/src/types/integrations.ts\<close>.  The grants file may
  have been written by anyone, so its entries are dynamic values.  Parameters: the device's signer,
  SHA-256, \<open>Date.parse\<close> and the file system, which is a POSIX one.
\<close>

section \<open>Integrations\<close>

definition INTEGRATIONS :: "(string \<times> string list) list" where
  "INTEGRATIONS =
     [(''codex'', [''history.read'', ''usage.read'', ''session.run'']),
      (''antigravity'', [''history.read'', ''session.run'']),
      (''claude'', [''history.read'', ''usage.read'']),
      (''chatgpt-export'', [''history.read'']),
      (''openai-org'', [''usage.read''])]"

text \<open>The names every JavaScript object inherits, which \<open>in\<close> finds too.\<close>

definition inherited_names :: "string list" where
  "inherited_names =
     [''constructor'', ''__defineGetter__'', ''__defineSetter__'', ''hasOwnProperty'', ''__lookupGetter__'',
      ''__lookupSetter__'', ''isPrototypeOf'', ''propertyIsEnumerable'', ''toString'', ''valueOf'', ''__proto__'',
      ''toLocaleString'']"

definition isIntegrationId :: "js_value \<Rightarrow> bool" where
  "isIntegrationId v \<longleftrightarrow> is_text v \<and> js_text v \<in> set (map fst INTEGRATIONS @ inherited_names)"

definition isIntegrationScope :: "js_value \<Rightarrow> bool" where
  "isIntegrationScope v \<longleftrightarrow> v = JS_Str ''history.read'' \<or> v = JS_Str ''usage.read'' \<or> v = JS_Str ''session.run''"

definition GRANT_TTL_MS :: int where "GRANT_TTL_MS = 90 * 24 * 60 * 60 * 1000"
definition GRANT_REQUEST_TTL_MS :: int where "GRANT_REQUEST_TTL_MS = 10 * 60 * 1000"

section \<open>Values as text\<close>

text \<open>
  A property of a value that came out of \<open>JSON.parse\<close>; \<open>JSON.stringify\<close>; and the conversion to a string,
  which throws (\<open>None\<close>) on an object with a \<open>toString\<close> of its own, since that cannot be a function.
\<close>

definition js_member :: "js_value \<Rightarrow> string \<Rightarrow> js_value" where
  "js_member v k = (case v of JS_Object kvs \<Rightarrow> js_field (Some kvs) k | _ \<Rightarrow> JS_Undefined)"

definition js_elements :: "js_value \<Rightarrow> js_value list" where
  "js_elements v = (case v of JS_Array xs \<Rightarrow> xs | _ \<Rightarrow> [])"

definition is_array :: "js_value \<Rightarrow> bool" where
  "is_array v \<longleftrightarrow> (case v of JS_Array _ \<Rightarrow> True | _ \<Rightarrow> False)"

definition is_object :: "js_value \<Rightarrow> bool" where
  "is_object v \<longleftrightarrow> (case v of JS_Object _ \<Rightarrow> True | JS_Array _ \<Rightarrow> True | _ \<Rightarrow> False)"

fun json_text :: "js_value \<Rightarrow> string" where
  "json_text JS_Undefined = ''null''"
| "json_text JS_Null = ''null''"
| "json_text (JS_Bool b) = (if b then ''true'' else ''false'')"
| "json_text (JS_Num n) = show_int n"
| "json_text (JS_Str s) = json_string s"
| "json_text (JS_Array xs) = ''['' @ js_join '','' (map json_text xs) @ '']''"
| "json_text (JS_Object kvs) =
     ''{'' @ js_join '','' (map (\<lambda>(k, v). json_string k @ '':'' @ json_text v)
               (filter (\<lambda>(k, v). v \<noteq> JS_Undefined) kvs)) @ ''}''"

fun js_String :: "js_value \<Rightarrow> string option" where
  "js_String JS_Undefined = Some ''undefined''"
| "js_String JS_Null = Some ''null''"
| "js_String (JS_Bool b) = Some (if b then ''true'' else ''false'')"
| "js_String (JS_Num n) = Some (show_int n)"
| "js_String (JS_Str s) = Some s"
| "js_String (JS_Array xs) =
     map_option (js_join '','') (those (map (\<lambda>x. if x = JS_Null \<or> x = JS_Undefined then Some [] else js_String x) xs))"
| "js_String (JS_Object kvs) = (if ''toString'' \<in> fst ` set kvs then None else Some ''[object Object]'')"

text \<open>The order of strings by their code units, and \<open>Array.prototype.sort\<close> without a comparison.\<close>

fun text_cmp :: "string \<Rightarrow> string \<Rightarrow> int" where
  "text_cmp [] [] = 0"
| "text_cmp [] (d # t) = - 1"
| "text_cmp (c # s) [] = 1"
| "text_cmp (c # s) (d # t) =
     (if c = d then text_cmp s t else if (of_char c :: nat) < of_char d then - 1 else 1)"

definition sort_values :: "js_value list \<Rightarrow> js_value list option" where
  "sort_values xs =
     (if length xs \<le> 1 then Some xs
      else map_option (\<lambda>ts. map snd (js_sort (\<lambda>a b. text_cmp (fst a) (fst b)) (zip ts xs))) (those (map js_String xs)))"

section \<open>Signed grants\<close>

text \<open>The device's signer; \<open>verify\<close> may throw.\<close>

record device_signer =
  dg_deviceId :: string
  dg_sign :: "string \<Rightarrow> string"
  dg_verify :: "string \<Rightarrow> string \<Rightarrow> bool option"

record stored_grant =
  gr_grantId :: string
  gr_requestId :: string
  gr_deviceId :: string
  gr_userId :: string
  gr_integration :: string
  gr_scopes :: "string list"
  gr_roots :: "string list"
  gr_grantedAt :: string
  gr_expiresAt :: string
  gr_approvedOn :: string
  gr_signature :: string

text \<open>The object that is written to the file for a grant.\<close>

definition grant_json :: "stored_grant \<Rightarrow> js_value" where
  "grant_json g = JS_Object
     [(''grantId'', JS_Str (gr_grantId g)), (''requestId'', JS_Str (gr_requestId g)),
      (''deviceId'', JS_Str (gr_deviceId g)), (''userId'', JS_Str (gr_userId g)),
      (''integration'', JS_Str (gr_integration g)), (''scopes'', JS_Array (map JS_Str (gr_scopes g))),
      (''roots'', JS_Array (map JS_Str (gr_roots g))), (''grantedAt'', JS_Str (gr_grantedAt g)),
      (''expiresAt'', JS_Str (gr_expiresAt g)), (''approvedOn'', JS_Str (gr_approvedOn g)),
      (''signature'', JS_Str (gr_signature g))]"

definition grantSigningPayload :: "js_value \<Rightarrow> string option" where
  "grantSigningPayload g =
     map_option (\<lambda>scopes. json_text (JS_Array
        [JS_Str ''odysseus-grant-v1'', js_member g ''grantId'', js_member g ''requestId'', js_member g ''deviceId'',
         js_member g ''userId'', js_member g ''integration'', JS_Array scopes, js_member g ''roots'',
         js_member g ''grantedAt'', js_member g ''expiresAt'', js_member g ''approvedOn'']))
       (sort_values (js_elements (js_member g ''scopes'')))"

text \<open>Why a grant is not usable, or nothing when it is; the conversion of its expiry may throw.\<close>

definition verify_grant ::
  "device_signer \<Rightarrow> (string \<Rightarrow> int option) \<Rightarrow> int \<Rightarrow> js_value \<Rightarrow> string + string option" where
  "verify_grant sg parse now g =
     (if \<not> is_object g then Inr (Some ''malformed grant'')
      else if js_text (js_member g ''signature'') = [] then Inr (Some ''unsigned'')
      else if js_member g ''deviceId'' \<noteq> JS_Str (dg_deviceId sg) then Inr (Some ''issued for a different device'')
      else if js_member g ''approvedOn'' \<noteq> JS_Str ''workstation'' then Inr (Some ''not approved on the workstation'')
      else if \<not> is_array (js_member g ''scopes'') \<or> \<not> is_array (js_member g ''roots'')
      then Inr (Some ''malformed grant'')
      else if \<not> (case grantSigningPayload g of None \<Rightarrow> False
                  | Some p \<Rightarrow> dg_verify sg p (js_text (js_member g ''signature'')) = Some True)
      then Inr (Some ''signature does not verify'')
      else (case js_String (js_member g ''expiresAt'') of
              None \<Rightarrow> Inl ''TypeError''
            | Some t \<Rightarrow>
                (case parse t of
                   None \<Rightarrow> Inr (Some ''expired'')
                 | Some e \<Rightarrow> Inr (if e \<le> now then Some ''expired'' else None))))"

section \<open>The grants file\<close>

datatype json_file = No_File | Unreadable string | Corrupt | Content js_value

definition readJsonFile :: "js_value \<Rightarrow> json_file \<Rightarrow> string + js_value" where
  "readJsonFile fallback f =
     (case f of No_File \<Rightarrow> Inr fallback | Unreadable err \<Rightarrow> Inl err | Corrupt \<Rightarrow> Inr fallback | Content v \<Rightarrow> Inr v)"

definition grants_file :: "js_value list \<Rightarrow> js_value" where
  "grants_file gs = JS_Object [(''version'', JS_Num 1), (''grants'', JS_Array gs)]"

text \<open>The entries of the file; reading a property of \<open>null\<close> throws.\<close>

definition stored_entries :: "json_file \<Rightarrow> string + js_value list" where
  "stored_entries f =
     (case readJsonFile (grants_file []) f of
        Inl err \<Rightarrow> Inl err
      | Inr v \<Rightarrow> if v = JS_Null then Inl ''TypeError'' else Inr (js_elements (js_member v ''grants'')))"

record verified_grants =
  vg_valid :: "js_value list"
  vg_rejected :: "(string \<times> string \<times> string) list"

definition shown_member :: "js_value \<Rightarrow> string \<Rightarrow> string option" where
  "shown_member g k =
     (let v = js_member g k in if v = JS_Undefined \<or> v = JS_Null then Some ''?'' else js_String v)"

fun check_grants ::
  "device_signer \<Rightarrow> (string \<Rightarrow> int option) \<Rightarrow> int \<Rightarrow> js_value list \<Rightarrow> verified_grants \<Rightarrow> string + verified_grants" where
  "check_grants sg parse now [] r = Inr r"
| "check_grants sg parse now (g # gs) r =
     (case verify_grant sg parse now g of
        Inl err \<Rightarrow> Inl err
      | Inr None \<Rightarrow> check_grants sg parse now gs (r\<lparr>vg_valid := vg_valid r @ [g]\<rparr>)
      | Inr (Some reason) \<Rightarrow>
          (case (shown_member g ''grantId'', shown_member g ''integration'') of
             (Some i, Some n) \<Rightarrow>
               check_grants sg parse now gs (r\<lparr>vg_rejected := vg_rejected r @ [(i, n, reason)]\<rparr>)
           | _ \<Rightarrow> Inl ''TypeError''))"

definition loadGrants ::
  "device_signer \<Rightarrow> (string \<Rightarrow> int option) \<Rightarrow> int \<Rightarrow> json_file \<Rightarrow> string + verified_grants" where
  "loadGrants sg parse now f =
     (case stored_entries f of
        Inl err \<Rightarrow> Inl err
      | Inr gs \<Rightarrow> check_grants sg parse now gs \<lparr>vg_valid = [], vg_rejected = []\<rparr>)"

definition for_integration :: "string \<Rightarrow> js_value \<Rightarrow> bool" where
  "for_integration i g \<longleftrightarrow> js_member g ''integration'' = JS_Str i"

definition findActive ::
  "device_signer \<Rightarrow> (string \<Rightarrow> int option) \<Rightarrow> int \<Rightarrow> string \<Rightarrow> json_file \<Rightarrow> string + js_value option" where
  "findActive sg parse now i f =
     (case loadGrants sg parse now f of
        Inl err \<Rightarrow> Inl err
      | Inr r \<Rightarrow> Inr (find (for_integration i) (vg_valid r)))"

definition signed_grant :: "device_signer \<Rightarrow> stored_grant \<Rightarrow> stored_grant" where
  "signed_grant sg g = g\<lparr>gr_signature := dg_sign sg (the (grantSigningPayload (grant_json g)))\<rparr>"

definition saveGrant ::
  "device_signer \<Rightarrow> stored_grant \<Rightarrow> json_file \<Rightarrow> string + json_file \<times> stored_grant" where
  "saveGrant sg unsigned f =
     (let g = signed_grant sg unsigned in
      case stored_entries f of
        Inl err \<Rightarrow> Inl err
      | Inr gs \<Rightarrow>
          Inr (Content (grants_file (filter (\<lambda>x. \<not> for_integration (gr_integration g) x) gs @ [grant_json g])), g))"

definition removeGrant :: "string \<Rightarrow> json_file \<Rightarrow> string + json_file \<times> bool" where
  "removeGrant i f =
     (case stored_entries f of
        Inl err \<Rightarrow> Inl err
      | Inr gs \<Rightarrow>
          (let remaining = filter (\<lambda>x. \<not> for_integration i x) gs in
           if length remaining = length gs then Inr (f, False) else Inr (Content (grants_file remaining), True)))"

section \<open>The confirmation code\<close>

text \<open>
  A character of a code after \<open>toUpperCase\<close>, reduced to capital letters and digits; the upper case of
  the German sharp s is two letters.
\<close>

definition code_char :: "char \<Rightarrow> string" where
  "code_char c =
     (let n = (of_char c :: nat) in
      if 97 \<le> n \<and> n \<le> 122 then [char_of (n - 32)]
      else if (65 \<le> n \<and> n \<le> 90) \<or> (48 \<le> n \<and> n \<le> 57) then [c]
      else if n = 223 then ''SS'' else [])"

definition normaliseConfirmationCode :: "string \<Rightarrow> string" where
  "normaliseConfirmationCode code = concat (map code_char code)"

definition hashConfirmationCode :: "(string \<Rightarrow> string) \<Rightarrow> string \<Rightarrow> string \<Rightarrow> string" where
  "hashConfirmationCode sha code salt = sha (salt @ '':'' @ normaliseConfirmationCode code)"

definition lower_hex_digit :: "char \<Rightarrow> bool" where
  "lower_hex_digit c \<longleftrightarrow> (let n = (of_char c :: nat) in (48 \<le> n \<and> n \<le> 57) \<or> (97 \<le> n \<and> n \<le> 102))"

definition is_sha256_hex :: "string \<Rightarrow> bool" where
  "is_sha256_hex s \<longleftrightarrow> length s = 64 \<and> list_all lower_hex_digit s"

text \<open>The bytes of two lower-case hexadecimal texts are equal when the texts are.\<close>

definition confirmationMatches :: "(string \<Rightarrow> string) \<Rightarrow> string \<Rightarrow> string \<Rightarrow> string \<Rightarrow> bool" where
  "confirmationMatches sha typed salt sha256 \<longleftrightarrow>
     typed \<noteq> [] \<and> salt \<noteq> [] \<and> is_sha256_hex sha256 \<and> hashConfirmationCode sha typed salt = sha256"

definition MAX_CONFIRMATION_ATTEMPTS :: nat where "MAX_CONFIRMATION_ATTEMPTS = 5"

section \<open>The allowlist\<close>

definition digit_char :: "char \<Rightarrow> bool" where
  "digit_char c \<longleftrightarrow> (let n = (of_char c :: nat) in 48 \<le> n \<and> n \<le> 57)"

definition rollout_char :: "char \<Rightarrow> bool" where
  "rollout_char c \<longleftrightarrow>
     (let n = (of_char c :: nat) in
      (48 \<le> n \<and> n \<le> 57) \<or> (65 \<le> n \<and> n \<le> 90) \<or> (97 \<le> n \<and> n \<le> 122) \<or> c \<in> set '':._-'')"

definition digits :: "nat \<Rightarrow> string \<Rightarrow> bool" where
  "digits k s \<longleftrightarrow> length s = k \<and> list_all digit_char s"

text \<open>\<open>rollout-\<close>, one or more characters of the class, \<open>.jsonl\<close>.\<close>

definition rollout_name :: "string \<Rightarrow> bool" where
  "rollout_name s \<longleftrightarrow>
     prefix ''rollout-'' s \<and> suffix ''.jsonl'' s \<and> 14 < length s \<and>
     list_all rollout_char (drop 8 (take (length s - 6) s))"

text \<open>A UUID, and a UUID followed by \<open>.jsonl\<close>, without regard to case.\<close>

definition hex_group :: "nat \<Rightarrow> string \<Rightarrow> bool" where
  "hex_group k s \<longleftrightarrow> length s = k \<and> list_all (\<lambda>c. lower_hex_digit (js_lower_char c)) s"

definition uuid_text :: "string \<Rightarrow> bool" where
  "uuid_text s \<longleftrightarrow>
     (case js_split (CHR ''-'') s of
        [a, b, c, d, e] \<Rightarrow> hex_group 8 a \<and> hex_group 4 b \<and> hex_group 4 c \<and> hex_group 4 d \<and> hex_group 12 e
      | _ \<Rightarrow> False)"

definition uuid_jsonl :: "string \<Rightarrow> bool" where
  "uuid_jsonl s \<longleftrightarrow> length s = 42 \<and> uuid_text (take 36 s) \<and> js_lower (drop 36 s) = ''.jsonl''"

text \<open>
  The patterns, read on the path cut at its slashes: none of the other pieces of a pattern matches a
  slash.
\<close>

definition codex_file :: "string list \<Rightarrow> bool" where
  "codex_file ws \<longleftrightarrow> (case ws of [y, m, d, f] \<Rightarrow> digits 4 y \<and> digits 2 m \<and> digits 2 d \<and> rollout_name f | _ \<Rightarrow> False)"

definition antigravity_file :: "string list \<Rightarrow> bool" where
  "antigravity_file ws \<longleftrightarrow>
     (case ws of
        [u, s, l, f] \<Rightarrow> uuid_text u \<and> js_lower s = ''.system_generated'' \<and> js_lower l = ''logs'' \<and>
          (js_lower f = ''transcript.jsonl'' \<or> js_lower f = ''transcript_full.jsonl'')
      | _ \<Rightarrow> False)"

definition claude_file :: "string list \<Rightarrow> bool" where
  "claude_file ws \<longleftrightarrow> (case ws of [p, f] \<Rightarrow> p \<noteq> [] \<and> uuid_jsonl f | _ \<Rightarrow> False)"

definition allowedPatterns :: "string \<Rightarrow> string \<Rightarrow> (string list \<Rightarrow> bool) list" where
  "allowedPatterns i scope =
     (if i = ''codex'' \<and> scope \<in> {''history.read'', ''usage.read''} then [codex_file]
      else if i = ''antigravity'' \<and> scope = ''history.read'' then [antigravity_file]
      else if i = ''claude'' \<and> scope \<in> {''history.read'', ''usage.read''} then [claude_file]
      else [])"

definition isAllowedFile :: "string \<Rightarrow> string \<Rightarrow> string \<Rightarrow> bool" where
  "isAllowedFile i scope rel \<longleftrightarrow>
     (let ws = js_split (CHR ''/'') (map (\<lambda>c. if c = CHR 0x5C then CHR ''/'' else c) rel)
      in list_ex (\<lambda>p. p ws) (allowedPatterns i scope))"

section \<open>Paths\<close>

text \<open>
  A path is resolved against the working directory and cut at its slashes, empty pieces and \<open>.\<close> dropped
  and \<open>..\<close> taking one piece back; \<open>path.relative\<close> goes up from what the two have in common.
\<close>

definition isAbsolute :: "string \<Rightarrow> bool" where
  "isAbsolute p \<longleftrightarrow> prefix ''/'' p"

definition resolve_piece :: "string list \<Rightarrow> string \<Rightarrow> string list" where
  "resolve_piece acc w = (if w = [] \<or> w = ''.'' then acc else if w = ''..'' then butlast acc else acc @ [w])"

definition path_pieces :: "string \<Rightarrow> string \<Rightarrow> string list" where
  "path_pieces cwd p =
     foldl resolve_piece [] (js_split (CHR ''/'') (if isAbsolute p then p else cwd @ ''/'' @ p))"

definition path_relative :: "string \<Rightarrow> string \<Rightarrow> string \<Rightarrow> string" where
  "path_relative cwd from to =
     (let a = path_pieces cwd from; b = path_pieces cwd to; n = length (longest_common_prefix a b)
      in js_join ''/'' (replicate (length a - n) ''..'' @ drop n b))"

definition isInside :: "string \<Rightarrow> string \<Rightarrow> string \<Rightarrow> bool" where
  "isInside cwd child root \<longleftrightarrow>
     (let rel = path_relative cwd root child in rel = [] \<or> (\<not> prefix ''..'' rel \<and> \<not> isAbsolute rel))"

text \<open>\<open>path.join\<close> below an absolute directory.\<close>

definition join_path :: "string \<Rightarrow> string list \<Rightarrow> string" where
  "join_path dir ws = CHR ''/'' # js_join ''/'' (path_pieces [] dir @ ws)"

definition integrationRoots :: "string \<Rightarrow> string \<Rightarrow> string list" where
  "integrationRoots home i =
     (if i = ''codex'' then [join_path home [''.codex'', ''sessions'']]
      else if i = ''antigravity'' then [join_path home [''.gemini'', ''antigravity'', ''brain'']]
      else if i = ''claude'' then [join_path home [''.claude'', ''projects'']]
      else [])"

definition forward_slashes :: "string \<Rightarrow> string" where
  "forward_slashes s = map (\<lambda>c. if c = CHR 0x5C then CHR ''/'' else c) s"

definition displayPath :: "string \<Rightarrow> string \<Rightarrow> string" where
  "displayPath home path =
     (let p = forward_slashes path; h = forward_slashes home in
      if js_lower p = js_lower h then ''~''
      else if prefix (js_lower h @ ''/'') (js_lower p) then CHR ''~'' # drop (length h) p
      else p)"

section \<open>The guard\<close>

record file_info =
  fi_symbolicLink :: bool
  fi_file :: bool
  fi_size :: nat
  fi_dev :: nat
  fi_ino :: nat

record file_system =
  fs_cwd :: string
  fs_lstat :: "string \<Rightarrow> file_info option"
  fs_realpath :: "string \<Rightarrow> string option"
  fs_isDirectory :: "string \<Rightarrow> bool option"

record refusal =
  rf_integration :: string
  rf_scope :: string
  rf_reason :: string
  rf_target :: "string option"

record granted_file =
  gf_grant :: js_value
  gf_realPath :: string
  gf_relativePath :: string
  gf_size :: nat
  gf_identity :: "nat \<times> nat"

text \<open>
  A decision with the refusals reported while it was made; an exception of the store or of
  \<open>path.relative\<close>, which wants strings, is one of the caller.
\<close>

datatype access_decision = Access_Allowed js_value | Access_Refused string
datatype file_decision = File_Allowed granted_file | File_Refused string "string option"

definition refuse :: "string \<Rightarrow> string \<Rightarrow> string \<Rightarrow> access_decision \<times> refusal list" where
  "refuse i scope reason =
     (Access_Refused reason, [\<lparr>rf_integration = i, rf_scope = scope, rf_reason = reason, rf_target = None\<rparr>])"

definition refuseFile :: "string \<Rightarrow> string \<Rightarrow> string \<Rightarrow> string option \<Rightarrow> file_decision \<times> refusal list" where
  "refuseFile i scope reason rel =
     (File_Refused reason rel, [\<lparr>rf_integration = i, rf_scope = scope, rf_reason = reason, rf_target = rel\<rparr>])"

definition authorize ::
  "device_signer \<Rightarrow> (string \<Rightarrow> int option) \<Rightarrow> int \<Rightarrow> string \<Rightarrow> string \<Rightarrow> json_file
     \<Rightarrow> string + access_decision \<times> refusal list" where
  "authorize sg parse now i scope f =
     (case findActive sg parse now i f of
        Inl err \<Rightarrow> Inl err
      | Inr None \<Rightarrow> Inr (refuse i scope ''no active grant for this integration'')
      | Inr (Some g) \<Rightarrow>
          if JS_Str scope \<notin> set (js_elements (js_member g ''scopes''))
          then Inr (refuse i scope (''grant does not include '' @ scope))
          else Inr (Access_Allowed g, []))"

fun find_root :: "string \<Rightarrow> string \<Rightarrow> js_value list \<Rightarrow> string + string option" where
  "find_root cwd path [] = Inr None"
| "find_root cwd path (r # rs) =
     (if \<not> is_text r then Inl ''TypeError''
      else if isInside cwd path (js_text r) then Inr (Some (js_text r))
      else find_root cwd path rs)"

definition authorizeFile ::
  "device_signer \<Rightarrow> (string \<Rightarrow> int option) \<Rightarrow> int \<Rightarrow> file_system \<Rightarrow> string \<Rightarrow> string \<Rightarrow> string \<Rightarrow> json_file
     \<Rightarrow> string + file_decision \<times> refusal list" where
  "authorizeFile sg parse now fs i scope requested f =
     (case authorize sg parse now i scope f of
        Inl err \<Rightarrow> Inl err
      | Inr (Access_Refused reason, rs) \<Rightarrow> Inr (File_Refused reason None, rs)
      | Inr (Access_Allowed g, _) \<Rightarrow>
          if \<not> isAbsolute requested then Inr (refuseFile i scope ''path must be absolute'' None)
          else (case fs_lstat fs requested of
             None \<Rightarrow> Inr (refuseFile i scope ''file does not exist'' None)
           | Some info \<Rightarrow>
               if fi_symbolicLink info then Inr (refuseFile i scope ''symbolic links are not followed'' None)
               else if \<not> fi_file info then Inr (refuseFile i scope ''not a regular file'' None)
               else (case fs_realpath fs requested of
                  None \<Rightarrow> Inr (refuseFile i scope ''path could not be resolved'' None)
                | Some real \<Rightarrow>
                    (case find_root (fs_cwd fs) real (js_elements (js_member g ''roots'')) of
                       Inl err \<Rightarrow> Inl err
                     | Inr None \<Rightarrow> Inr (refuseFile i scope ''outside the granted folders'' None)
                     | Inr (Some root) \<Rightarrow>
                         (let rel = path_relative (fs_cwd fs) root real in
                          if \<not> isAllowedFile i scope rel
                          then Inr (refuseFile i scope ''file is not on the allowlist'' (Some rel))
                          else Inr (File_Allowed
                            \<lparr>gf_grant = g, gf_realPath = real, gf_relativePath = rel, gf_size = fi_size info,
                             gf_identity = (fi_dev info, fi_ino info)\<rparr>, []))))))"

section \<open>What is signed\<close>

lemma text_cmp_refl [simp]: "text_cmp s s = 0"
  by (induction s) auto

lemma text_cmp_zero: "text_cmp s t = 0 \<longleftrightarrow> s = t"
  by (induction s t rule: text_cmp.induct) auto

lemma text_cmp_antisym: "text_cmp s t = - text_cmp t s"
proof (induction s t rule: text_cmp.induct)
  case (4 c s d t)
  have "c \<noteq> d \<Longrightarrow> (of_char c :: nat) \<noteq> of_char d" by simp
  then show ?case using 4 by (auto simp: not_less)
qed auto

lemma text_cmp_trans: "text_cmp s t \<le> 0 \<Longrightarrow> text_cmp t u \<le> 0 \<Longrightarrow> text_cmp s u \<le> 0"
proof (induction s t arbitrary: u rule: text_cmp.induct)
  case (4 c s d t)
  show ?case
  proof (cases u)
    case (Cons e u')
    then show ?thesis using 4 by (auto split: if_splits)
  qed (use 4 in simp)
next
  case (1 u)
  then show ?case by simp
next
  case (2 d t)
  then show ?case by (cases u) auto
qed auto

lemma consistent_text_cmp: "consistent text_cmp"
  unfolding consistent_def
proof (intro conjI allI impI)
  fix x y z
  show "text_cmp x y < 0 \<Longrightarrow> text_cmp y x \<ge> 0" using text_cmp_antisym [of x y] by simp
  assume "text_cmp x y \<ge> 0" "text_cmp y z \<ge> 0"
  then show "text_cmp x z \<ge> 0"
    using text_cmp_trans [of z y x] text_cmp_antisym [of x y] text_cmp_antisym [of y z] text_cmp_antisym [of x z] by simp
qed

text \<open>Lists sorted by an antisymmetric order are determined by their elements.\<close>

lemma sorted_unique:
  assumes "\<And>a b. R a b \<Longrightarrow> R b a \<Longrightarrow> a = b"
  shows "sorted_wrt R xs \<Longrightarrow> sorted_wrt R ys \<Longrightarrow> mset xs = mset ys \<Longrightarrow> xs = ys"
proof (induction xs arbitrary: ys)
  case (Cons x xs)
  then obtain y ys' where ys: "ys = y # ys'" by (cases ys) auto
  have "x = y"
  proof (rule ccontr)
    assume "x \<noteq> y"
    have "set (x # xs) = set ys" using Cons.prems(3) by (rule mset_eq_setD)
    then have "y \<in> set xs" "x \<in> set ys'" using \<open>x \<noteq> y\<close> ys by auto
    then have "R x y" "R y x" using Cons.prems(1,2) ys by auto
    then show False using assms \<open>x \<noteq> y\<close> by blast
  qed
  then show ?case using Cons ys by auto
qed simp

lemma sort_texts_unique: "js_sort text_cmp xs = js_sort text_cmp ys \<longleftrightarrow> mset xs = mset ys"
proof
  assume "js_sort text_cmp xs = js_sort text_cmp ys"
  then show "mset xs = mset ys" using mset_js_sort [of text_cmp xs] mset_js_sort [of text_cmp ys] by simp
next
  assume "mset xs = mset ys"
  then have m: "mset (js_sort text_cmp xs) = mset (js_sort text_cmp ys)" by simp
  have "a = b" if "text_cmp b a \<ge> 0" "text_cmp a b \<ge> 0" for a b
    using that text_cmp_antisym [of a b] text_cmp_zero [of a b] by simp
  then show "js_sort text_cmp xs = js_sort text_cmp ys"
    by (rule sorted_unique [OF _ sorted_js_sort [OF consistent_text_cmp] sorted_js_sort [OF consistent_text_cmp] m])
qed

lemma js_insert_map: "js_insert (\<lambda>a b. cmp (g a) (g b)) (f x) (map f ys) = map f (js_insert (\<lambda>a b. cmp (g (f a)) (g (f b))) x ys)"
  by (induction ys) auto

lemma js_sort_map: "js_sort (\<lambda>a b. cmp (g a) (g b)) (map f xs) = map f (js_sort (\<lambda>a b. cmp (g (f a)) (g (f b))) xs)"
proof (induction xs rule: rev_induct)
  case (snoc x xs)
  then show ?case by (simp add: js_sort_snoc js_insert_map)
qed (simp add: js_sort_def)

lemma those_Some [simp]: "those (map (\<lambda>x. Some (f x)) xs) = Some (map f xs)"
  by (induction xs) auto

lemma sort_values_texts: "sort_values (map JS_Str xs) = Some (map JS_Str (js_sort text_cmp xs))"
proof (cases "length xs \<le> 1")
  case True
  then obtain x where "xs = [] \<or> xs = [x]" by (cases xs; cases "tl xs") auto
  then show ?thesis by (auto simp: sort_values_def js_sort_def)
next
  case False
  have z: "zip xs (map JS_Str xs) = map (\<lambda>x. (x, JS_Str x)) xs" by (induction xs) auto
  show ?thesis using False those_Some [of "\<lambda>x. x" xs] js_sort_map [of text_cmp fst "\<lambda>x. (x, JS_Str x)" xs]
    by (simp add: sort_values_def comp_def z)
qed

lemma json_string_cancel: "json_string a @ x = json_string b @ y \<longleftrightarrow> a = b \<and> x = y"
  using prefix_codeD [OF json_string_code] by blast

lemma json_strings_cancel: "json_strings a @ x = json_strings b @ y \<longleftrightarrow> a = b \<and> x = y"
  using prefix_codeD [OF json_strings_code] by blast

lemma json_string_eq: "json_string a = json_string b \<longleftrightarrow> a = b"
  using json_string_cancel [of a "[]" b "[]"] by simp

lemma json_text_texts: "json_text (JS_Array (map JS_Str xs)) = json_strings xs"
  by (simp add: json_strings_def comp_def)

lemma payload_text:
  "grantSigningPayload (grant_json g) = Some (''['' @ json_string ''odysseus-grant-v1'' @ '','' @
     json_string (gr_grantId g) @ '','' @ json_string (gr_requestId g) @ '','' @ json_string (gr_deviceId g) @ '','' @
     json_string (gr_userId g) @ '','' @ json_string (gr_integration g) @ '','' @
     json_strings (js_sort text_cmp (gr_scopes g)) @ '','' @ json_strings (gr_roots g) @ '','' @
     json_string (gr_grantedAt g) @ '','' @ json_string (gr_expiresAt g) @ '','' @ json_string (gr_approvedOn g) @ '']'')"
  by (simp add: grantSigningPayload_def grant_json_def js_member_def js_field_def js_elements_def sort_values_texts
      json_text_texts [simplified])

text \<open>
  C30: What is signed for a grant determines the grant up to the order of its scopes: no field can be
  changed, and no scope added, dropped or doubled, without changing the signed text.
\<close>

theorem signature_covers_grant:
  "grantSigningPayload (grant_json g) = grantSigningPayload (grant_json g') \<longleftrightarrow>
     gr_grantId g = gr_grantId g' \<and> gr_requestId g = gr_requestId g' \<and> gr_deviceId g = gr_deviceId g' \<and>
     gr_userId g = gr_userId g' \<and> gr_integration g = gr_integration g' \<and> mset (gr_scopes g) = mset (gr_scopes g') \<and>
     gr_roots g = gr_roots g' \<and> gr_grantedAt g = gr_grantedAt g' \<and> gr_expiresAt g = gr_expiresAt g' \<and>
     gr_approvedOn g = gr_approvedOn g'"
  by (auto simp: payload_text json_string_cancel json_string_eq json_strings_cancel sort_texts_unique)

section \<open>What the store finds\<close>

text \<open>An entry whose check does not throw.\<close>

definition entry_checks :: "device_signer \<Rightarrow> (string \<Rightarrow> int option) \<Rightarrow> int \<Rightarrow> js_value \<Rightarrow> bool" where
  "entry_checks sg parse now g \<longleftrightarrow>
     (case verify_grant sg parse now g of
        Inl _ \<Rightarrow> False
      | Inr None \<Rightarrow> True
      | Inr (Some _) \<Rightarrow> shown_member g ''grantId'' \<noteq> None \<and> shown_member g ''integration'' \<noteq> None)"

lemma check_grants_valid:
  "check_grants sg parse now gs r = Inr r' \<Longrightarrow>
     vg_valid r' = vg_valid r @ filter (\<lambda>g. verify_grant sg parse now g = Inr None) gs"
  by (induction gs arbitrary: r) (auto split: sum.splits option.splits prod.splits)

lemma check_grants_total:
  "(\<exists>r'. check_grants sg parse now gs r = Inr r') \<longleftrightarrow> list_all (entry_checks sg parse now) gs"
  by (induction gs arbitrary: r) (auto simp: entry_checks_def split: sum.splits option.splits prod.splits)

text \<open>The result of loading, when no check throws.\<close>

lemma findActive_eq:
  "stored_entries f = Inr gs \<Longrightarrow> list_all (entry_checks sg parse now) gs \<Longrightarrow>
     findActive sg parse now i f = Inr (find (\<lambda>g. verify_grant sg parse now g = Inr None \<and> for_integration i g) gs)"
proof -
  assume f: "stored_entries f = Inr gs" and ok: "list_all (entry_checks sg parse now) gs"
  then obtain r where "check_grants sg parse now gs \<lparr>vg_valid = [], vg_rejected = []\<rparr> = Inr r"
    using check_grants_total by blast
  moreover from check_grants_valid [OF this] have "vg_valid r = filter (\<lambda>g. verify_grant sg parse now g = Inr None) gs" by simp
  moreover have "find P (filter Q gs) = find (\<lambda>g. Q g \<and> P g) gs" for P Q by (induction gs) auto
  ultimately show ?thesis using f by (simp add: findActive_def loadGrants_def)
qed

lemma findActive_found:
  assumes "findActive sg parse now i f = Inr (Some g)"
  shows "verify_grant sg parse now g = Inr None \<and> for_integration i g \<and> (\<exists>gs. stored_entries f = Inr gs \<and> g \<in> set gs)"
proof -
  obtain gs where gs: "stored_entries f = Inr gs"
    using assms by (auto simp: findActive_def loadGrants_def split: sum.splits)
  have "list_all (entry_checks sg parse now) gs"
    using assms gs check_grants_total [of sg parse now gs "\<lparr>vg_valid = [], vg_rejected = []\<rparr>"]
    by (auto simp: findActive_def loadGrants_def split: sum.splits)
  from findActive_eq [OF gs this] assms
  have "find (\<lambda>g. verify_grant sg parse now g = Inr None \<and> for_integration i g) gs = Some g" by simp
  then show ?thesis using gs by (auto simp: find_Some_iff)
qed

lemma entries_saved [simp]: "stored_entries (Content (grants_file gs)) = Inr gs"
  by (simp add: stored_entries_def readJsonFile_def grants_file_def js_member_def js_field_def js_elements_def)

lemma grant_members:
  "js_member (grant_json g) ''integration'' = JS_Str (gr_integration g)"
  "js_member (grant_json g) ''signature'' = JS_Str (gr_signature g)"
  "js_member (grant_json g) ''deviceId'' = JS_Str (gr_deviceId g)"
  "js_member (grant_json g) ''approvedOn'' = JS_Str (gr_approvedOn g)"
  "js_member (grant_json g) ''expiresAt'' = JS_Str (gr_expiresAt g)"
  "js_member (grant_json g) ''grantId'' = JS_Str (gr_grantId g)"
  "js_member (grant_json g) ''scopes'' = JS_Array (map JS_Str (gr_scopes g))"
  "js_member (grant_json g) ''roots'' = JS_Array (map JS_Str (gr_roots g))"
  by (simp_all add: grant_json_def js_member_def js_field_def)

text \<open>What a signature is made over does not include the signature.\<close>

lemma payload_signature: "grantSigningPayload (grant_json (g\<lparr>gr_signature := s\<rparr>)) = grantSigningPayload (grant_json g)"
  by (simp add: payload_text)

lemma verify_signed:
  assumes "\<forall>t. dg_sign sg t \<noteq> [] \<and> dg_verify sg t (dg_sign sg t) = Some True"
    and "gr_deviceId g = dg_deviceId sg" "gr_approvedOn g = ''workstation''" "parse (gr_expiresAt g) = Some e"
  shows "verify_grant sg parse now (grant_json (signed_grant sg g)) = Inr (if e \<le> now then Some ''expired'' else None)"
proof -
  let ?g = "signed_grant sg g"
  obtain p where p: "grantSigningPayload (grant_json g) = Some p" by (simp add: payload_text)
  then have "grantSigningPayload (grant_json ?g) = Some p" "gr_signature ?g = dg_sign sg p"
    using payload_signature by (simp_all add: signed_grant_def)
  moreover have "is_object (grant_json ?g)" by (simp add: is_object_def grant_json_def)
  ultimately show ?thesis using assms
    by (simp add: verify_grant_def grant_members is_array_def js_text_def) (simp add: signed_grant_def)
qed

lemma find_filter_other: "(\<And>x. P x \<Longrightarrow> Q x) \<Longrightarrow> find P (filter Q gs) = find P gs"
  by (induction gs) auto

lemma find_append: "find P (xs @ ys) = (case find P xs of None \<Rightarrow> find P ys | r \<Rightarrow> r)"
  by (induction xs) auto

lemma saved_grant_active_lemma:
  assumes signer: "\<forall>t. dg_sign sg t \<noteq> [] \<and> dg_verify sg t (dg_sign sg t) = Some True"
    and g: "gr_deviceId g = dg_deviceId sg" "gr_approvedOn g = ''workstation''" "parse (gr_expiresAt g) = Some e"
    and f: "stored_entries f = Inr gs" "list_all (entry_checks sg parse now) gs"
  shows "\<exists>f'. saveGrant sg g f = Inr (f', signed_grant sg g) \<and>
    findActive sg parse now (gr_integration g) f' = Inr (if e \<le> now then None else Some (grant_json (signed_grant sg g))) \<and>
    (\<forall>j. j \<noteq> gr_integration g \<longrightarrow> findActive sg parse now j f' = findActive sg parse now j f) \<and>
    (\<exists>f''. removeGrant (gr_integration g) f' = Inr (f'', True) \<and> findActive sg parse now (gr_integration g) f'' = Inr None)"
proof -
  let ?i = "gr_integration g" let ?n = "grant_json (signed_grant sg g)"
  let ?others = "filter (\<lambda>x. \<not> for_integration ?i x) gs"
  let ?f = "Content (grants_file (?others @ [?n]))"
  have new: "verify_grant sg parse now ?n = Inr (if e \<le> now then Some ''expired'' else None)"
    using signer g by (intro verify_signed) auto
  have i: "gr_integration (signed_grant sg g) = ?i" by (simp add: signed_grant_def)
  have ni: "for_integration ?i ?n" by (simp add: for_integration_def grant_members i)
  have "entry_checks sg parse now ?n" by (simp add: entry_checks_def new shown_member_def grant_members)
  then have ok: "list_all (entry_checks sg parse now) (?others @ [?n])"
    using f(2) by (auto simp: list_all_iff)
  have s: "saveGrant sg g f = Inr (?f, signed_grant sg g)" by (simp add: saveGrant_def f Let_def i)
  note fa = findActive_eq [OF entries_saved ok]
  have none: "find (\<lambda>x. P x \<and> for_integration ?i x) ?others = None" for P by (auto simp: find_None_iff)
  have a: "findActive sg parse now ?i ?f = Inr (if e \<le> now then None else Some ?n)"
    using ni new by (simp add: fa find_append none)
  have b: "findActive sg parse now j ?f = findActive sg parse now j f" if "j \<noteq> ?i" for j
  proof -
    have "\<not> for_integration j ?n" using that by (simp add: for_integration_def grant_members i)
    moreover have "find (\<lambda>x. verify_grant sg parse now x = Inr None \<and> for_integration j x) ?others =
        find (\<lambda>x. verify_grant sg parse now x = Inr None \<and> for_integration j x) gs"
      by (rule find_filter_other) (use that in \<open>auto simp: for_integration_def\<close>)
    ultimately show ?thesis by (simp add: fa find_append findActive_eq [OF f] split: option.splits)
  qed
  have r: "removeGrant ?i ?f = Inr (Content (grants_file ?others), True)"
    using ni by (simp add: removeGrant_def Let_def filter_id_conv)
  have "list_all (entry_checks sg parse now) ?others" using f(2) by (auto simp: list_all_iff)
  from findActive_eq [OF entries_saved this, of ?i] none
  have "findActive sg parse now ?i (Content (grants_file ?others)) = Inr None" by simp
  then show ?thesis using s a b r by blast
qed

text \<open>
  A grant that is saved is the active one of its integration until it expires and not after, in a
  file that can be read; the grants of other integrations stay as they were, and after removing it its
  integration has none.
\<close>

theorem saved_grant_active:
  assumes signer: "\<forall>t. dg_sign sg t \<noteq> [] \<and> dg_verify sg t (dg_sign sg t) = Some True"
    and g: "gr_deviceId g = dg_deviceId sg" "gr_approvedOn g = ''workstation''" "parse (gr_expiresAt g) = Some e"
    and f: "stored_entries f = Inr gs" "list_all (entry_checks sg parse now) gs"
  shows "\<exists>f'. saveGrant sg g f = Inr (f', signed_grant sg g) \<and>
    findActive sg parse now (gr_integration g) f' = Inr (if e \<le> now then None else Some (grant_json (signed_grant sg g))) \<and>
    (\<forall>j. j \<noteq> gr_integration g \<longrightarrow> findActive sg parse now j f' = findActive sg parse now j f) \<and>
    (\<exists>f''. removeGrant (gr_integration g) f' = Inr (f'', True) \<and> findActive sg parse now (gr_integration g) f'' = Inr None)"
  using assms by (rule saved_grant_active_lemma)

definition toy_signer :: device_signer where
  "toy_signer = \<lparr>dg_deviceId = ''dev'', dg_sign = (\<lambda>t. CHR ''S'' # t), dg_verify = (\<lambda>t s. Some (s = CHR ''S'' # t))\<rparr>"

definition toy_grant :: stored_grant where
  "toy_grant = \<lparr>gr_grantId = ''g'', gr_requestId = ''r'', gr_deviceId = ''dev'', gr_userId = ''u'', gr_integration = ''codex'',
     gr_scopes = [''history.read''], gr_roots = [''/h''], gr_grantedAt = ''0'', gr_expiresAt = ''9'',
     gr_approvedOn = ''workstation'', gr_signature = []\<rparr>"

theorem saved_grant_active_witness:
  "\<exists>f'. saveGrant toy_signer toy_grant No_File = Inr (f', signed_grant toy_signer toy_grant) \<and>
    findActive toy_signer (\<lambda>_. Some 9) 5 ''codex'' f' = Inr (Some (grant_json (signed_grant toy_signer toy_grant)))"
proof -
  have "stored_entries No_File = Inr []"
    by (simp add: stored_entries_def readJsonFile_def grants_file_def js_member_def js_field_def js_elements_def)
  from saved_grant_active [of toy_signer toy_grant "\<lambda>_. Some 9" 9 No_File "[]" 5, OF _ _ _ _ this]
  show ?thesis by (fastforce simp: toy_signer_def toy_grant_def)
qed

section \<open>What the guard lets through\<close>

definition piece_ok :: "string \<Rightarrow> bool" where
  "piece_ok w \<longleftrightarrow> w \<noteq> [] \<and> w \<noteq> ''.'' \<and> w \<noteq> ''..'' \<and> CHR ''/'' \<notin> set w"

lemma split_no_slash: "w \<in> set (js_split d s) \<Longrightarrow> d \<notin> set w"
proof (induction s arbitrary: w)
  case (Cons c s)
  obtain v vs where sp: "js_split d s = v # vs" using js_split_nonempty by (metis neq_Nil_conv)
  then have "d \<notin> set v" "\<And>w. w \<in> set vs \<Longrightarrow> d \<notin> set w" using Cons.IH by auto
  then show ?case using Cons.prems Cons.IH sp by (auto split: if_splits)
qed simp

lemma resolve_pieces_ok:
  "list_all piece_ok acc \<Longrightarrow> \<forall>w \<in> set ws. CHR ''/'' \<notin> set w \<Longrightarrow> list_all piece_ok (foldl resolve_piece acc ws)"
proof (induction ws arbitrary: acc)
  case (Cons w ws)
  have "list_all piece_ok (resolve_piece acc w)"
    using Cons.prems by (auto simp: resolve_piece_def piece_ok_def list_all_iff dest: in_set_butlastD)
  then show ?case using Cons by simp
qed simp

lemma path_pieces_ok: "list_all piece_ok (path_pieces cwd p)"
  unfolding path_pieces_def by (intro resolve_pieces_ok ballI split_no_slash) simp_all

lemma prefix_same_length: "prefix a b \<Longrightarrow> length a = length b \<Longrightarrow> a = b"
  by (auto simp: prefix_def)

lemma lcp_prefix: "length (longest_common_prefix a b) = length a \<longleftrightarrow> prefix a b"
proof
  assume "length (longest_common_prefix a b) = length a"
  from prefix_same_length [OF longest_common_prefix_prefix1 this]
  show "prefix a b" using longest_common_prefix_prefix2 by metis
next
  assume "prefix a b"
  then have "prefix a (longest_common_prefix a b)"
    by (rule longest_common_prefix_max_prefix [OF prefix_order.refl])
  moreover have "prefix (longest_common_prefix a b) a" by (rule longest_common_prefix_prefix1)
  ultimately show "length (longest_common_prefix a b) = length a" by (metis prefix_order.antisym)
qed

lemma join_dots: "0 < k \<Longrightarrow> prefix ''..'' (js_join sep (replicate k ''..'' @ ws))"
  by (cases k; cases "replicate (k - 1) ''..'' @ ws") auto

lemma join_first: "\<exists>r. js_join ''/'' (w # ws) = w @ r \<and> (r = [] \<or> hd r = CHR ''/'')"
  by (cases ws) auto

lemma join_nonempty: "piece_ok w \<Longrightarrow> js_join ''/'' (w # ws) \<noteq> []"
  by (cases ws) (auto simp: piece_ok_def)

lemma join_up:
  assumes "piece_ok w"
  shows "prefix ''..'' (js_join ''/'' (w # ws)) \<longleftrightarrow> prefix ''..'' w"
proof -
  obtain r where r: "js_join ''/'' (w # ws) = w @ r" "r = [] \<or> hd r = CHR ''/''" using join_first by blast
  obtain c w' where w: "w = c # w'" using assms by (cases w) (auto simp: piece_ok_def)
  show ?thesis
  proof (cases w')
    case Nil
    then show ?thesis using assms w r by (cases r) (auto simp: piece_ok_def)
  qed (use w r in auto)
qed

lemma join_absolute: "piece_ok w \<Longrightarrow> \<not> isAbsolute (js_join ''/'' (w # ws))"
  using join_first [of w ws] by (cases w) (auto simp: piece_ok_def isAbsolute_def)

text \<open>
  A path is inside a directory when it lies below it, or is it; names just below the directory that
  begin with two dots are taken for a way out.
\<close>

lemma isInside_meaning:
  "isInside cwd child root \<longleftrightarrow>
     (\<exists>rest. path_pieces cwd child = path_pieces cwd root @ rest \<and> (rest = [] \<or> \<not> prefix ''..'' (hd rest)) \<and>
        path_relative cwd root child = js_join ''/'' rest)"
proof -
  let ?a = "path_pieces cwd root" let ?b = "path_pieces cwd child"
  let ?n = "length (longest_common_prefix ?a ?b)"
  have le: "?n \<le> length ?a" by (rule prefix_length_le [OF longest_common_prefix_prefix1])
  show ?thesis
  proof (cases "?n = length ?a")
    case True
    then obtain rest where b: "?b = ?a @ rest" using lcp_prefix [of ?a ?b] by (auto simp: prefix_def)
    have rel: "path_relative cwd root child = js_join ''/'' rest"
      using True b by (simp add: path_relative_def Let_def)
    have "list_all piece_ok rest" using path_pieces_ok [of cwd child] b by simp
    then show ?thesis using rel b
      by (cases rest) (auto simp: isInside_def join_up join_absolute join_nonempty)
  next
    case False
    then have "prefix ''..'' (path_relative cwd root child)"
      using le by (simp add: path_relative_def Let_def join_dots)
    moreover from this have "path_relative cwd root child \<noteq> []" by auto
    moreover have "\<not> prefix ?a ?b" using False lcp_prefix by blast
    ultimately show ?thesis by (auto simp: isInside_def prefix_def)
  qed
qed

lemma find_root_found: "find_root cwd path rs = Inr (Some root) \<Longrightarrow> JS_Str root \<in> set rs \<and> isInside cwd path root"
  by (induction rs) (auto simp: is_text_def js_text_def split: if_splits js_value.splits)

text \<open>Every pattern ends in \<open>.jsonl\<close>.\<close>

lemma lower_jsonl: "suffix ''.jsonl'' s \<Longrightarrow> suffix ''.jsonl'' (js_lower s)"
  by (auto simp: suffix_def js_lower_def js_lower_char_def Let_def)

lemma uuid_jsonl_suffix: "uuid_jsonl s \<Longrightarrow> suffix ''.jsonl'' (js_lower s)"
proof -
  assume "uuid_jsonl s"
  then have "js_lower s = js_lower (take 36 s) @ ''.jsonl''"
    unfolding uuid_jsonl_def js_lower_def by (metis append_take_drop_id map_append)
  then show ?thesis by (simp add: suffix_def)
qed

lemma pattern_last:
  assumes "p \<in> set (allowedPatterns i scope)" "p ws"
  shows "ws \<noteq> [] \<and> suffix ''.jsonl'' (js_lower (last ws))"
proof -
  have "codex_file ws \<or> antigravity_file ws \<or> claude_file ws"
    using assms by (auto simp: allowedPatterns_def split: if_splits)
  then show ?thesis
    by (auto simp: codex_file_def antigravity_file_def claude_file_def rollout_name_def intro: lower_jsonl uuid_jsonl_suffix
        split: list.splits) (auto simp: suffix_def)
qed

lemma split_last_suffix: "suffix (last (js_split d s)) s"
proof -
  have "js_join [d] (js_split d s) = s" by (rule js_split_join)
  moreover have "ws \<noteq> [] \<Longrightarrow> suffix (last ws) (js_join [d] ws)" for ws :: "string list"
    by (induction ws) (auto simp: js_join_Cons suffix_append, auto simp: suffix_def)
  ultimately show ?thesis by (metis js_split_nonempty)
qed

lemma lower_map: "js_lower (map f s) = map (js_lower_char \<circ> f) s"
  by (simp add: js_lower_def)

lemma suffix_pointwise:
  assumes "suffix t (map f s)" "\<And>c. f c \<in> set t \<Longrightarrow> f c = g c"
  shows "suffix t (map g s)"
proof -
  obtain us where us: "map f s = us @ t" using assms(1) by (auto simp: suffix_def)
  then obtain a b where ab: "s = a @ b" "map f b = t" by (auto simp: map_eq_append_conv)
  then have "map g b = t" using assms(2) by (auto intro!: map_cong)
  then show ?thesis using ab by (auto simp: suffix_def)
qed

lemma allowed_jsonl:
  assumes "isAllowedFile i scope rel"
  shows "suffix ''.jsonl'' (js_lower rel)"
proof -
  let ?f = "\<lambda>c. if c = CHR 0x5C then CHR ''/'' else c"
  have "suffix ''.jsonl'' (js_lower (last (js_split (CHR ''/'') (map ?f rel))))"
    using assms pattern_last by (auto simp: isAllowedFile_def list_ex_iff)
  moreover obtain us where us: "map ?f rel = us @ last (js_split (CHR ''/'') (map ?f rel))"
    using split_last_suffix [of "CHR ''/''" "map ?f rel"] by (auto simp: suffix_def)
  have "js_lower (map ?f rel) = js_lower us @ js_lower (last (js_split (CHR ''/'') (map ?f rel)))"
    by (subst us) (simp add: js_lower_def)
  ultimately have "suffix ''.jsonl'' (js_lower (map ?f rel))" by (auto simp: suffix_def)
  then have s: "suffix ''.jsonl'' (map (js_lower_char \<circ> ?f) rel)" by (simp only: lower_map)
  have "(js_lower_char \<circ> ?f) c = js_lower_char c" if "(js_lower_char \<circ> ?f) c \<in> set ''.jsonl''" for c
    using that by (auto simp: js_lower_char_def Let_def split: if_splits)
  from suffix_pointwise [OF s this] show ?thesis by (simp add: js_lower_def)
qed

text \<open>What makes a grant good for a scope of an integration now: the words of the module's comments.\<close>

definition good_grant ::
  "device_signer \<Rightarrow> (string \<Rightarrow> int option) \<Rightarrow> int \<Rightarrow> string \<Rightarrow> string \<Rightarrow> js_value \<Rightarrow> bool" where
  "good_grant sg parse now i scope g \<longleftrightarrow>
     js_member g ''deviceId'' = JS_Str (dg_deviceId sg) \<and> js_member g ''approvedOn'' = JS_Str ''workstation'' \<and>
     (\<exists>p. grantSigningPayload g = Some p \<and> dg_verify sg p (js_text (js_member g ''signature'')) = Some True) \<and>
     (\<exists>t e. js_String (js_member g ''expiresAt'') = Some t \<and> parse t = Some e \<and> now < e) \<and>
     js_member g ''integration'' = JS_Str i \<and> JS_Str scope \<in> set (js_elements (js_member g ''scopes''))"

lemma verify_grant_passes:
  assumes "verify_grant sg parse now g = Inr None" "for_integration i g" "JS_Str scope \<in> set (js_elements (js_member g ''scopes''))"
  shows "good_grant sg parse now i scope g"
  using assms unfolding good_grant_def for_integration_def verify_grant_def
  by (auto split: if_splits option.splits)

lemma authorize_allowed:
  "authorize sg parse now i scope f = Inr (Access_Allowed g, rs) \<Longrightarrow>
     good_grant sg parse now i scope g \<and> (\<exists>gs. stored_entries f = Inr gs \<and> g \<in> set gs)"
  using findActive_found [of sg parse now i f g] verify_grant_passes [of sg parse now g i scope]
  by (auto simp: authorize_def refuse_def split: sum.splits option.splits if_splits)

text \<open>
  C29: Whatever the grants file holds, a file is opened only under a grant in it that this device signed
  for the integration and the scope and that has not expired; the path asked for is absolute and names a
  regular file, no link; its real path lies below one of the grant's folders, and what is below is on
  the allowlist, so it ends in \<open>.jsonl\<close>.  Every refusal is reported.
\<close>

theorem reads_only_what_is_granted:
  assumes "authorizeFile sg parse now fs i scope requested f = Inr (r, rs)"
  shows "case r of
      File_Refused reason rel \<Rightarrow> rs = [\<lparr>rf_integration = i, rf_scope = scope, rf_reason = reason, rf_target = rel\<rparr>]
    | File_Allowed d \<Rightarrow>
        rs = [] \<and> (\<exists>gs. stored_entries f = Inr gs \<and> gf_grant d \<in> set gs) \<and> good_grant sg parse now i scope (gf_grant d) \<and>
        isAbsolute requested \<and> fs_realpath fs requested = Some (gf_realPath d) \<and>
        (\<exists>info. fs_lstat fs requested = Some info \<and> \<not> fi_symbolicLink info \<and> fi_file info) \<and>
        (\<exists>root below. JS_Str root \<in> set (js_elements (js_member (gf_grant d) ''roots'')) \<and>
           path_pieces (fs_cwd fs) (gf_realPath d) = path_pieces (fs_cwd fs) root @ below \<and>
           gf_relativePath d = js_join ''/'' below) \<and>
        isAllowedFile i scope (gf_relativePath d) \<and> suffix ''.jsonl'' (js_lower (gf_relativePath d))"
proof (cases "authorize sg parse now i scope f")
  case (Inr ar)
  obtain a as where ar: "ar = (a, as)" by fastforce
  show ?thesis
  proof (cases a)
    case (Access_Refused reason)
    then show ?thesis using assms Inr ar
      by (auto simp: authorizeFile_def authorize_def refuse_def split: sum.splits option.splits if_splits)
  next
    case (Access_Allowed g)
    note good = authorize_allowed [OF Inr [unfolded ar Access_Allowed]]
    show ?thesis
    proof (cases r)
      case (File_Refused reason rel)
      then show ?thesis using assms Inr ar Access_Allowed
        by (auto simp: authorizeFile_def refuseFile_def Let_def split: option.splits if_splits sum.splits)
    next
      case (File_Allowed d)
      obtain info real root where i: "isAbsolute requested" "fs_lstat fs requested = Some info" "\<not> fi_symbolicLink info"
        "fi_file info" "fs_realpath fs requested = Some real"
        "find_root (fs_cwd fs) real (js_elements (js_member g ''roots'')) = Inr (Some root)"
        "isAllowedFile i scope (path_relative (fs_cwd fs) root real)"
        and d: "d = \<lparr>gf_grant = g, gf_realPath = real, gf_relativePath = path_relative (fs_cwd fs) root real,
          gf_size = fi_size info, gf_identity = (fi_dev info, fi_ino info)\<rparr>" "rs = []"
        using assms Inr ar Access_Allowed File_Allowed
        by (auto simp: authorizeFile_def refuseFile_def Let_def split: option.splits if_splits sum.splits)
      note root = find_root_found [OF i(6)]
      then obtain below where "path_pieces (fs_cwd fs) real = path_pieces (fs_cwd fs) root @ below"
        "path_relative (fs_cwd fs) root real = js_join ''/'' below"
        unfolding isInside_meaning by blast
      then show ?thesis using good i d root allowed_jsonl [OF i(7)] File_Allowed by auto
    qed
  qed
qed (use assms in \<open>simp add: authorizeFile_def\<close>)

definition toy_fs :: file_system where
  "toy_fs = \<lparr>fs_cwd = ''/'', fs_lstat = (\<lambda>_. Some \<lparr>fi_symbolicLink = False, fi_file = True, fi_size = 1, fi_dev = 1, fi_ino = 2\<rparr>),
     fs_realpath = Some, fs_isDirectory = (\<lambda>_. Some True)\<rparr>"

definition toy_grants :: json_file where
  "toy_grants = Content (grants_file [grant_json (signed_grant toy_signer toy_grant)])"

lemma toy_grant_active: "findActive toy_signer (\<lambda>_. Some 9) 5 ''codex'' toy_grants =
    Inr (Some (grant_json (signed_grant toy_signer toy_grant)))"
proof -
  let ?g = "grant_json (signed_grant toy_signer toy_grant)"
  have v: "verify_grant toy_signer (\<lambda>_. Some 9) 5 ?g = Inr (if 9 \<le> (5::int) then Some ''expired'' else None)"
    by (rule verify_signed) (simp_all add: toy_signer_def toy_grant_def)
  moreover have "for_integration ''codex'' ?g"
    by (simp add: for_integration_def grant_members signed_grant_def toy_grant_def)
  moreover have "list_all (entry_checks toy_signer (\<lambda>_. Some 9) 5) [?g]" by (simp add: entry_checks_def v)
  ultimately show ?thesis unfolding toy_grants_def by (simp add: findActive_eq [OF entries_saved])
qed

theorem reads_only_what_is_granted_witness:
  "\<exists>d. authorizeFile toy_signer (\<lambda>_. Some 9) 5 toy_fs ''codex'' ''history.read'' ''/h/2025/01/02/rollout-a.jsonl'' toy_grants =
      Inr (File_Allowed d, []) \<and> gf_relativePath d = ''2025/01/02/rollout-a.jsonl'' \<and>
    good_grant toy_signer (\<lambda>_. Some 9) 5 ''codex'' ''history.read'' (gf_grant d)"
proof -
  let ?g = "grant_json (signed_grant toy_signer toy_grant)" let ?p = "''/h/2025/01/02/rollout-a.jsonl''"
  have a: "authorize toy_signer (\<lambda>_. Some 9) 5 ''codex'' ''history.read'' toy_grants = Inr (Access_Allowed ?g, [])"
    by (simp add: authorize_def toy_grant_active grant_members js_elements_def signed_grant_def toy_grant_def)
  have rel: "path_relative ''/'' ''/h'' ?p = ''2025/01/02/rollout-a.jsonl''" and inside: "isInside ''/'' ?p ''/h''"
    and al: "isAllowedFile ''codex'' ''history.read'' ''2025/01/02/rollout-a.jsonl''" by code_simp+
  have root: "find_root ''/'' ?p [JS_Str ''/h''] = Inr (Some ''/h'')" using inside by (simp add: is_text_def js_text_def)
  obtain d where d: "authorizeFile toy_signer (\<lambda>_. Some 9) 5 toy_fs ''codex'' ''history.read'' ?p toy_grants = Inr (File_Allowed d, [])"
    "gf_relativePath d = ''2025/01/02/rollout-a.jsonl''"
    using root rel al by (simp add: authorizeFile_def a toy_fs_def isAbsolute_def grant_members js_elements_def
        signed_grant_def toy_grant_def Let_def)
  from reads_only_what_is_granted [OF d(1)] d show ?thesis by auto
qed

end
