(* ===== verification/Integrations.thy ===== *)
theory Integrations
  imports Grants
begin

text \<open>
  Access requests on the workstation: \<open>IntegrationManager\<close>
  (\<open>gateway/integrations/src/integration-manager.ts\<close>) with the requests file of
  \<open>grant-store.ts\<close>.  The control plane may ask and revoke; only a person at this machine approves.  The
  gateway and the command \<open>pnpm grants\<close> are separate processes on the same files, so an approval is two
  halves between which the other process may act.  The requests file is only written by this code and is
  kept as typed records; a write succeeds; the reported snapshot is brought up to date at once.
\<close>

section \<open>Data\<close>

datatype request_status = Rq_Pending | Rq_Approved | Rq_Denied | Rq_Expired

fun request_status_name :: "request_status \<Rightarrow> string" where
  "request_status_name Rq_Pending = ''pending''"
| "request_status_name Rq_Approved = ''approved''"
| "request_status_name Rq_Denied = ''denied''"
| "request_status_name Rq_Expired = ''expired''"

record grant_request =
  rq_requestId :: string
  rq_integration :: string
  rq_scopes :: "string list"
  rq_userId :: string
  rq_email :: "string option"
  rq_salt :: string
  rq_sha256 :: string
  rq_expiresAt :: string

record pending_request =
  pq_command :: grant_request
  pq_status :: request_status
  pq_receivedAt :: string
  pq_attempts :: nat
  pq_decidedAt :: "string option"
  pq_reason :: "string option"

abbreviation pq_id :: "pending_request \<Rightarrow> string" where
  "pq_id r \<equiv> rq_requestId (pq_command r)"

datatype grant_status = Gs_Pending | Gs_Active | Gs_Denied | Gs_Revoked | Gs_Expired

record grant_state =
  gs_integration :: string
  gs_status :: grant_status
  gs_scopes :: "string list"
  gs_requestId :: "string option"
  gs_grantId :: "string option"
  gs_roots :: "string list option"
  gs_grantedAt :: "string option"
  gs_expiresAt :: "string option"
  gs_reason :: "string option"

text \<open>
  The machine: the device's signer, \<open>Date.parse\<close>, SHA-256, the file system and the home directory.  The
  manager: the two files, the files of local instructions, what the watcher remembers, and a record of
  what it told the outside.
\<close>

record workstation =
  ws_signer :: device_signer
  ws_parse :: "string \<Rightarrow> int option"
  ws_sha :: "string \<Rightarrow> string"
  ws_fs :: file_system
  ws_home :: string

record integration_manager =
  im_grants :: json_file
  im_requests :: "pending_request list"
  im_webFile :: json_file
  im_syncFile :: json_file
  im_watching :: bool
  im_snapshot :: "grant_state list option"
  im_webControl :: "string option"
  im_syncControl :: "string option"
  im_updates :: "grant_state list"
  im_disconnects :: "(string \<times> string) list"
  im_syncs :: "string list"

definition new_manager :: "json_file \<Rightarrow> pending_request list \<Rightarrow> integration_manager" where
  "new_manager grants requests =
     \<lparr>im_grants = grants, im_requests = requests, im_webFile = No_File, im_syncFile = No_File, im_watching = False,
      im_snapshot = None, im_webControl = None, im_syncControl = None, im_updates = [], im_disconnects = [],
      im_syncs = []\<rparr>"

section \<open>The requests file\<close>

definition DAY_MS :: int where "DAY_MS = 24 * 60 * 60 * 1000"

definition still_kept :: "workstation \<Rightarrow> int \<Rightarrow> pending_request \<Rightarrow> bool" where
  "still_kept ws now r \<longleftrightarrow>
     pq_status r = Rq_Pending \<or>
     (case ws_parse ws (case pq_decidedAt r of None \<Rightarrow> pq_receivedAt r | Some t \<Rightarrow> t) of
        None \<Rightarrow> False | Some t \<Rightarrow> t > now - DAY_MS)"

definition saveRequests :: "workstation \<Rightarrow> int \<Rightarrow> pending_request list \<Rightarrow> integration_manager \<Rightarrow> integration_manager" where
  "saveRequests ws now rs m = m\<lparr>im_requests := filter (still_kept ws now) rs\<rparr>"

definition findRequest :: "string \<Rightarrow> integration_manager \<Rightarrow> pending_request option" where
  "findRequest i m = find (\<lambda>r. pq_id r = i) (im_requests m)"

fun put_request :: "pending_request \<Rightarrow> pending_request list \<Rightarrow> pending_request list" where
  "put_request r [] = [r]"
| "put_request r (x # xs) = (if pq_id x = pq_id r then r # xs else x # put_request r xs)"

definition upsertRequest :: "workstation \<Rightarrow> int \<Rightarrow> pending_request \<Rightarrow> integration_manager \<Rightarrow> integration_manager" where
  "upsertRequest ws now r m = saveRequests ws now (put_request r (im_requests m)) m"

section \<open>The state reported\<close>

text \<open>A grant that verifies was written by \<open>saveGrant\<close>: its fields are texts.\<close>

definition active_state :: "workstation \<Rightarrow> string \<Rightarrow> js_value \<Rightarrow> grant_state" where
  "active_state ws i g =
     \<lparr>gs_integration = i, gs_status = Gs_Active, gs_scopes = map js_text (js_elements (js_member g ''scopes'')),
      gs_requestId = Some (js_text (js_member g ''requestId'')), gs_grantId = Some (js_text (js_member g ''grantId'')),
      gs_roots = Some (map (displayPath (ws_home ws) \<circ> js_text) (js_elements (js_member g ''roots''))),
      gs_grantedAt = Some (js_text (js_member g ''grantedAt'')), gs_expiresAt = Some (js_text (js_member g ''expiresAt'')),
      gs_reason = None\<rparr>"

definition plain_state :: "string \<Rightarrow> grant_status \<Rightarrow> grant_state" where
  "plain_state i st =
     \<lparr>gs_integration = i, gs_status = st, gs_scopes = [], gs_requestId = None, gs_grantId = None, gs_roots = None,
      gs_grantedAt = None, gs_expiresAt = None, gs_reason = None\<rparr>"

definition request_state :: "pending_request \<Rightarrow> grant_status \<Rightarrow> grant_state" where
  "request_state r st =
     (plain_state (rq_integration (pq_command r)) st)\<lparr>gs_scopes := rq_scopes (pq_command r), gs_requestId := Some (pq_id r)\<rparr>"

text \<open>Pending and not yet expired; a time that cannot be read is never later.\<close>

definition open_request :: "workstation \<Rightarrow> int \<Rightarrow> pending_request \<Rightarrow> bool" where
  "open_request ws now r \<longleftrightarrow>
     pq_status r = Rq_Pending \<and>
     (case ws_parse ws (rq_expiresAt (pq_command r)) of None \<Rightarrow> False | Some e \<Rightarrow> e > now)"

definition state_of :: "workstation \<Rightarrow> int \<Rightarrow> js_value list \<Rightarrow> pending_request list \<Rightarrow> string \<Rightarrow> grant_state" where
  "state_of ws now valid requests i =
     (case find (for_integration i) valid of
        Some g \<Rightarrow> active_state ws i g
      | None \<Rightarrow>
          (case find (\<lambda>r. rq_integration (pq_command r) = i \<and> open_request ws now r) requests of
             Some r \<Rightarrow> (request_state r Gs_Pending)\<lparr>gs_expiresAt := Some (rq_expiresAt (pq_command r))\<rparr>
           | None \<Rightarrow> plain_state i Gs_Revoked))"

definition list_states :: "workstation \<Rightarrow> int \<Rightarrow> integration_manager \<Rightarrow> string + grant_state list" where
  "list_states ws now m =
     (case loadGrants (ws_signer ws) (ws_parse ws) now (im_grants m) of
        Inl err \<Rightarrow> Inl err
      | Inr r \<Rightarrow> Inr (map (state_of ws now (vg_valid r) (im_requests m)) (map fst INTEGRATIONS)))"

definition pendingRequests :: "workstation \<Rightarrow> int \<Rightarrow> integration_manager \<Rightarrow> pending_request list" where
  "pendingRequests ws now m = filter (open_request ws now) (im_requests m)"

definition emitState :: "workstation \<Rightarrow> int \<Rightarrow> grant_state \<Rightarrow> integration_manager \<Rightarrow> integration_manager" where
  "emitState ws now st m =
     m\<lparr>im_snapshot := (case list_states ws now m of Inl _ \<Rightarrow> im_snapshot m | Inr l \<Rightarrow> Some l),
       im_updates := im_updates m @ [st]\<rparr>"

section \<open>A request from the control plane\<close>

definition request_id_char :: "char \<Rightarrow> bool" where
  "request_id_char c \<longleftrightarrow>
     (let n = (of_char c :: nat) in
      (48 \<le> n \<and> n \<le> 57) \<or> (65 \<le> n \<and> n \<le> 90) \<or> (97 \<le> n \<and> n \<le> 122) \<or> c = CHR ''_'' \<or> c = CHR ''-'')"

definition valid_request_id :: "js_value \<Rightarrow> bool" where
  "valid_request_id v \<longleftrightarrow>
     is_text v \<and> 8 \<le> length (js_text v) \<and> length (js_text v) \<le> 80 \<and> list_all request_id_char (js_text v)"

definition offered_scope :: "string \<Rightarrow> js_value \<Rightarrow> bool" where
  "offered_scope i v \<longleftrightarrow>
     isIntegrationScope v \<and> (case map_of INTEGRATIONS i of None \<Rightarrow> False | Some scopes \<Rightarrow> js_text v \<in> set scopes)"

text \<open>
  The first scope that is refused, with the exception it raises: an inherited name has no scopes, so
  looking a scope up there throws, as does a scope that cannot be shown.
\<close>

definition scope_error :: "string \<Rightarrow> js_value \<Rightarrow> string" where
  "scope_error i v =
     (if isIntegrationScope v \<and> map_of INTEGRATIONS i = None then ''TypeError''
      else (case js_String v of
              None \<Rightarrow> ''TypeError''
            | Some t \<Rightarrow> ''Scope '' @ t @ '' is not offered by '' @ i))"

definition confirmation_ok :: "js_value \<Rightarrow> bool" where
  "confirmation_ok c \<longleftrightarrow>
     is_text (js_member c ''salt'') \<and> 16 \<le> length (js_text (js_member c ''salt'')) \<and>
     is_sha256_hex (js_text (js_member c ''sha256''))"

definition expiry_of :: "(string \<Rightarrow> int option) \<Rightarrow> js_value \<Rightarrow> string + int option" where
  "expiry_of parse v =
     (if v = JS_Undefined \<or> v = JS_Null then Inr (parse [])
      else (case js_String v of None \<Rightarrow> Inl ''TypeError'' | Some t \<Rightarrow> Inr (parse t)))"

definition validateRequest :: "workstation \<Rightarrow> int \<Rightarrow> js_value \<Rightarrow> string + grant_request" where
  "validateRequest ws now v =
     (let i = js_text (js_member v ''integration''); scopes = js_elements (js_member v ''scopes'');
          c = js_member v ''confirmation''; by = js_member v ''requestedBy'' in
      if \<not> valid_request_id (js_member v ''requestId'') then Inl ''Invalid requestId''
      else if \<not> isIntegrationId (js_member v ''integration'') then Inl ''Unknown integration''
      else if scopes = [] then Inl ''At least one scope is required''
      else (case find (\<lambda>s. \<not> offered_scope i s) scopes of
        Some s \<Rightarrow> Inl (scope_error i s)
      | None \<Rightarrow>
          if \<not> confirmation_ok c then Inl ''Request is missing its confirmation code hash''
          else (case expiry_of (ws_parse ws) (js_member v ''expiresAt'') of
            Inl err \<Rightarrow> Inl err
          | Inr None \<Rightarrow> Inl ''Request expiry is missing or outside the allowed window''
          | Inr (Some e) \<Rightarrow>
              if e \<le> now \<or> e > now + GRANT_REQUEST_TTL_MS + 60000
              then Inl ''Request expiry is missing or outside the allowed window''
              else if js_text (js_member by ''userId'') = [] then Inl ''Request does not say which account made it''
              else Inr \<lparr>rq_requestId = js_text (js_member v ''requestId''), rq_integration = i,
                        rq_scopes = js_dedupe (map js_text scopes), rq_userId = js_text (js_member by ''userId''),
                        rq_email = (if is_text (js_member by ''email'') then Some (js_text (js_member by ''email'')) else None),
                        rq_salt = js_text (js_member c ''salt''), rq_sha256 = js_text (js_member c ''sha256''),
                        rq_expiresAt = toISOString e\<rparr>)))"

definition receiveRequest :: "workstation \<Rightarrow> int \<Rightarrow> js_value \<Rightarrow> integration_manager \<Rightarrow> integration_manager \<times> (string + string)" where
  "receiveRequest ws now command m =
     (case validateRequest ws now command of
        Inl err \<Rightarrow> (m, Inl err)
      | Inr q \<Rightarrow>
          if findRequest (rq_requestId q) m \<noteq> None
          then (m, Inl (''Request '' @ rq_requestId q @ '' was already received''))
          else (let r = \<lparr>pq_command = q, pq_status = Rq_Pending, pq_receivedAt = toISOString now, pq_attempts = 0,
                         pq_decidedAt = None, pq_reason = None\<rparr>;
                    m' = upsertRequest ws now r m
                in (emitState ws now ((request_state r Gs_Pending)\<lparr>gs_expiresAt := Some (rq_expiresAt q)\<rparr>) m',
                    Inr (rq_requestId q))))"

section \<open>Approving and denying\<close>

datatype decision_status = Decide_Denied | Decide_Expired

definition decide :: "workstation \<Rightarrow> int \<Rightarrow> decision_status \<Rightarrow> string \<Rightarrow> pending_request \<Rightarrow> integration_manager \<Rightarrow> integration_manager" where
  "decide ws now d reason r m =
     (let r' = r\<lparr>pq_status := (case d of Decide_Denied \<Rightarrow> Rq_Denied | Decide_Expired \<Rightarrow> Rq_Expired),
                 pq_decidedAt := Some (toISOString now), pq_reason := Some reason\<rparr>;
          st = (case d of Decide_Denied \<Rightarrow> Gs_Denied | Decide_Expired \<Rightarrow> Gs_Expired)
      in emitState ws now ((request_state r' st)\<lparr>gs_reason := Some reason\<rparr>) (upsertRequest ws now r' m))"

datatype approve_result = Approved grant_state | Not_Approved string "nat option"

text \<open>The first half of an approval: it ends with an answer, or with a request whose code was typed.\<close>

definition approve_begin ::
  "workstation \<Rightarrow> int \<Rightarrow> string \<Rightarrow> string \<Rightarrow> bool \<Rightarrow> integration_manager
     \<Rightarrow> integration_manager \<times> (approve_result + pending_request)" where
  "approve_begin ws now i typed interactive m =
     (if \<not> interactive then (m, Inl (Not_Approved ''Approval must be made at an interactive terminal'' None))
      else (case findRequest i m of
        None \<Rightarrow> (m, Inl (Not_Approved ''No such request'' None))
      | Some r \<Rightarrow>
          if pq_status r \<noteq> Rq_Pending
          then (m, Inl (Not_Approved (''Request is already '' @ request_status_name (pq_status r)) None))
          else if (case ws_parse ws (rq_expiresAt (pq_command r)) of None \<Rightarrow> False | Some e \<Rightarrow> e \<le> now)
          then (decide ws now Decide_Expired ''Request expired before it was approved'' r m,
                Inl (Not_Approved ''Request expired'' None))
          else if \<not> confirmationMatches (ws_sha ws) typed (rq_salt (pq_command r)) (rq_sha256 (pq_command r))
          then (let r' = r\<lparr>pq_attempts := pq_attempts r + 1\<rparr> in
                if MAX_CONFIRMATION_ATTEMPTS \<le> pq_attempts r'
                then (decide ws now Decide_Denied ''Too many wrong confirmation codes'' r' m,
                      Inl (Not_Approved ''Too many wrong codes; the request was denied'' None))
                else (upsertRequest ws now r' m,
                      Inl (Not_Approved ''That code does not match the one shown in the browser''
                        (Some (MAX_CONFIRMATION_ATTEMPTS - pq_attempts r')))))
          else (m, Inr r)))"

definition resolveRoots :: "workstation \<Rightarrow> string \<Rightarrow> string list" where
  "resolveRoots ws i =
     concat (map (\<lambda>root. if fs_isDirectory (ws_fs ws) root = Some True
                         then (case fs_realpath (ws_fs ws) root of None \<Rightarrow> [] | Some p \<Rightarrow> [p]) else [])
       (integrationRoots (ws_home ws) i))"

definition grant_for :: "workstation \<Rightarrow> int \<Rightarrow> string \<Rightarrow> grant_request \<Rightarrow> stored_grant" where
  "grant_for ws now gid q =
     \<lparr>gr_grantId = gid, gr_requestId = rq_requestId q, gr_deviceId = dg_deviceId (ws_signer ws), gr_userId = rq_userId q,
      gr_integration = rq_integration q, gr_scopes = rq_scopes q, gr_roots = resolveRoots ws (rq_integration q),
      gr_grantedAt = toISOString now, gr_expiresAt = toISOString (now + GRANT_TTL_MS), gr_approvedOn = ''workstation'',
      gr_signature = []\<rparr>"

definition granted_state :: "workstation \<Rightarrow> stored_grant \<Rightarrow> grant_state" where
  "granted_state ws g =
     \<lparr>gs_integration = gr_integration g, gs_status = Gs_Active, gs_scopes = gr_scopes g,
      gs_requestId = Some (gr_requestId g), gs_grantId = Some (gr_grantId g),
      gs_roots = Some (map (displayPath (ws_home ws)) (gr_roots g)), gs_grantedAt = Some (gr_grantedAt g),
      gs_expiresAt = Some (gr_expiresAt g), gs_reason = None\<rparr>"

text \<open>The second half: the grant is signed and stored, the request marked, the state told.\<close>

definition approve_finish ::
  "workstation \<Rightarrow> int \<Rightarrow> string \<Rightarrow> pending_request \<Rightarrow> integration_manager \<Rightarrow> integration_manager \<times> (string + approve_result)" where
  "approve_finish ws now gid r m =
     (case saveGrant (ws_signer ws) (grant_for ws now gid (pq_command r)) (im_grants m) of
        Inl err \<Rightarrow> (m, Inl err)
      | Inr (f, g) \<Rightarrow>
          (let m1 = m\<lparr>im_grants := f\<rparr>;
               m2 = upsertRequest ws now (r\<lparr>pq_status := Rq_Approved, pq_decidedAt := Some (toISOString now)\<rparr>) m1
           in (emitState ws now (granted_state ws g) m2, Inr (Approved (granted_state ws g)))))"

definition approve ::
  "workstation \<Rightarrow> int \<Rightarrow> string \<Rightarrow> string \<Rightarrow> bool \<Rightarrow> string \<Rightarrow> integration_manager \<Rightarrow> integration_manager \<times> (string + approve_result)" where
  "approve ws now i typed interactive gid m =
     (case approve_begin ws now i typed interactive m of
        (m', Inl answer) \<Rightarrow> (m', Inr answer)
      | (m', Inr r) \<Rightarrow> approve_finish ws now gid r m')"

definition deny_request :: "workstation \<Rightarrow> int \<Rightarrow> string \<Rightarrow> string option \<Rightarrow> integration_manager \<Rightarrow> integration_manager \<times> bool" where
  "deny_request ws now i reason m =
     (case findRequest i m of
        None \<Rightarrow> (m, False)
      | Some r \<Rightarrow>
          if pq_status r \<noteq> Rq_Pending then (m, False)
          else (decide ws now Decide_Denied (case reason of None \<Rightarrow> ''Denied at the workstation'' | Some t \<Rightarrow> t) r m, True))"

section \<open>Revoking\<close>

datatype revoker = By_Web | By_Workstation

fun revoker_name :: "revoker \<Rightarrow> string" where
  "revoker_name By_Web = ''web''"
| "revoker_name By_Workstation = ''workstation''"

fun decide_all ::
  "workstation \<Rightarrow> int \<Rightarrow> decision_status \<Rightarrow> string \<Rightarrow> pending_request list \<Rightarrow> integration_manager \<Rightarrow> integration_manager" where
  "decide_all ws now d reason [] m = m"
| "decide_all ws now d reason (r # rs) m = decide_all ws now d reason rs (decide ws now d reason r m)"

definition waiting_for :: "string \<Rightarrow> pending_request \<Rightarrow> bool" where
  "waiting_for i r \<longleftrightarrow> rq_integration (pq_command r) = i \<and> pq_status r = Rq_Pending"

definition revoke ::
  "workstation \<Rightarrow> int \<Rightarrow> js_value \<Rightarrow> revoker \<Rightarrow> integration_manager \<Rightarrow> integration_manager \<times> (string + bool)" where
  "revoke ws now v by m =
     (if \<not> isIntegrationId v then (m, Inl ''Unknown integration'')
      else (let i = js_text v in
        case removeGrant i (im_grants m) of
          Inl err \<Rightarrow> (m, Inl err)
        | Inr (f, removed) \<Rightarrow>
            (let m1 = m\<lparr>im_grants := f\<rparr>;
                 m2 = decide_all ws now Decide_Denied (''Cancelled by revoke ('' @ revoker_name by @ '')'')
                        (filter (waiting_for i) (im_requests m1)) m1;
                 reason = ''Revoked from the '' @ (case by of By_Web \<Rightarrow> ''web app'' | By_Workstation \<Rightarrow> ''workstation'')
             in (emitState ws now ((plain_state i Gs_Revoked)\<lparr>gs_reason := Some reason\<rparr>) m2, Inr removed))))"

section \<open>Watching the files\<close>

definition stale_request :: "workstation \<Rightarrow> int \<Rightarrow> pending_request \<Rightarrow> bool" where
  "stale_request ws now r \<longleftrightarrow>
     pq_status r = Rq_Pending \<and>
     (case ws_parse ws (rq_expiresAt (pq_command r)) of None \<Rightarrow> False | Some e \<Rightarrow> e \<le> now)"

definition sweep :: "workstation \<Rightarrow> int \<Rightarrow> integration_manager \<Rightarrow> integration_manager" where
  "sweep ws now m =
     decide_all ws now Decide_Expired ''Not approved in time'' (filter (stale_request ws now) (im_requests m)) m"

definition requestLocalWebDisconnect :: "int \<Rightarrow> string \<Rightarrow> integration_manager \<Rightarrow> integration_manager" where
  "requestLocalWebDisconnect now i m =
     m\<lparr>im_webFile := Content (JS_Object [(''version'', JS_Num 1),
         (''terminateRequest'', JS_Object [(''id'', JS_Str i), (''requestedAt'', JS_Str (toISOString now))])])\<rparr>"

definition requestLocalSync :: "int \<Rightarrow> string \<Rightarrow> string \<Rightarrow> integration_manager \<Rightarrow> integration_manager" where
  "requestLocalSync now i integration m =
     m\<lparr>im_syncFile := Content (JS_Object [(''version'', JS_Num 1),
         (''request'', JS_Object [(''id'', JS_Str i), (''integration'', JS_Str integration),
            (''requestedAt'', JS_Str (toISOString now))])])\<rparr>"

text \<open>What the file holds when it is first looked at is the past; after that a new identifier is an instruction.\<close>

definition checkLocalWebControl :: "integration_manager \<Rightarrow> string + integration_manager" where
  "checkLocalWebControl m =
     (case readJsonFile (JS_Object []) (im_webFile m) of
        Inl err \<Rightarrow> Inl err
      | Inr v \<Rightarrow>
          if v = JS_Null then Inl ''TypeError''
          else (let request = js_member v ''terminateRequest''; i = js_text (js_member request ''id'');
                    at = js_text (js_member request ''requestedAt'') in
            Inr (case im_webControl m of
                   None \<Rightarrow> m\<lparr>im_webControl := Some i\<rparr>
                 | Some seen \<Rightarrow>
                     if i = [] \<or> i = seen \<or> at = [] then m
                     else m\<lparr>im_webControl := Some i, im_disconnects := im_disconnects m @ [(i, at)]\<rparr>)))"

definition checkLocalIntegrationControl :: "integration_manager \<Rightarrow> string + integration_manager" where
  "checkLocalIntegrationControl m =
     (case readJsonFile (JS_Object []) (im_syncFile m) of
        Inl err \<Rightarrow> Inl err
      | Inr v \<Rightarrow>
          if v = JS_Null then Inl ''TypeError''
          else (let request = js_member v ''request''; i = js_text (js_member request ''id'');
                    integration = js_member request ''integration'' in
            Inr (case im_syncControl m of
                   None \<Rightarrow> m\<lparr>im_syncControl := Some i\<rparr>
                 | Some seen \<Rightarrow>
                     if i = [] \<or> i = seen \<or> \<not> isIntegrationId integration then m
                     else m\<lparr>im_syncControl := Some i, im_syncs := im_syncs m @ [js_text integration]\<rparr>)))"

definition changed_states :: "grant_state list \<Rightarrow> grant_state list \<Rightarrow> grant_state list" where
  "changed_states old new = filter (\<lambda>s. find (\<lambda>b. gs_integration b = gs_integration s) old \<noteq> Some s) new"

definition compare_snapshot :: "workstation \<Rightarrow> int \<Rightarrow> integration_manager \<Rightarrow> integration_manager" where
  "compare_snapshot ws now m =
     (case list_states ws now m of
        Inl _ \<Rightarrow> m
      | Inr l \<Rightarrow>
          m\<lparr>im_snapshot := Some l,
            im_updates := im_updates m @ (case im_snapshot m of None \<Rightarrow> [] | Some old \<Rightarrow> changed_states old l)\<rparr>)"

text \<open>One tick of the watcher; an exception ends the tick.\<close>

definition check_tick :: "workstation \<Rightarrow> int \<Rightarrow> integration_manager \<Rightarrow> integration_manager" where
  "check_tick ws now m =
     (let m1 = sweep ws now m in
      case checkLocalWebControl m1 of
        Inl _ \<Rightarrow> m1
      | Inr m2 \<Rightarrow>
          (case checkLocalIntegrationControl m2 of
             Inl _ \<Rightarrow> m2
           | Inr m3 \<Rightarrow> compare_snapshot ws now m3))"

definition startWatching :: "workstation \<Rightarrow> int \<Rightarrow> integration_manager \<Rightarrow> integration_manager" where
  "startWatching ws now m = (if im_watching m then m else (check_tick ws now m)\<lparr>im_watching := True\<rparr>)"

definition stopWatching :: "integration_manager \<Rightarrow> integration_manager" where
  "stopWatching m = m\<lparr>im_watching := False\<rparr>"

section \<open>Runs\<close>

datatype manager_op =
  Op_Receive js_value
| Op_Approve string string bool string
| Op_Deny string "string option"
| Op_Revoke js_value revoker
| Op_Check

fun manager_step :: "workstation \<Rightarrow> integration_manager \<Rightarrow> int \<times> manager_op \<Rightarrow> integration_manager" where
  "manager_step ws m (t, Op_Receive command) = fst (receiveRequest ws t command m)"
| "manager_step ws m (t, Op_Approve i typed interactive gid) = fst (approve ws t i typed interactive gid m)"
| "manager_step ws m (t, Op_Deny i reason) = fst (deny_request ws t i reason m)"
| "manager_step ws m (t, Op_Revoke v by) = fst (revoke ws t v by m)"
| "manager_step ws m (t, Op_Check) = check_tick ws t m"

lemma emitState_fields [simp]:
  "im_grants (emitState ws t st m) = im_grants m" "im_requests (emitState ws t st m) = im_requests m"
  by (simp_all add: emitState_def)

lemma upsert_fields [simp]:
  "im_grants (upsertRequest ws t r m) = im_grants m"
  "im_requests (upsertRequest ws t r m) = filter (still_kept ws t) (put_request r (im_requests m))"
  by (simp_all add: upsertRequest_def saveRequests_def)

definition decided :: "decision_status \<Rightarrow> int \<Rightarrow> string \<Rightarrow> pending_request \<Rightarrow> pending_request" where
  "decided d t reason r =
     r\<lparr>pq_status := (case d of Decide_Denied \<Rightarrow> Rq_Denied | Decide_Expired \<Rightarrow> Rq_Expired),
       pq_decidedAt := Some (toISOString t), pq_reason := Some reason\<rparr>"

lemma decided_fields [simp]:
  "pq_command (decided d t reason r) = pq_command r" "pq_status (decided d t reason r) \<noteq> Rq_Pending"
  by (cases d; simp add: decided_def)+

lemma decide_fields [simp]:
  "im_grants (decide ws t d reason r m) = im_grants m"
  "im_requests (decide ws t d reason r m) = filter (still_kept ws t) (put_request (decided d t reason r) (im_requests m))"
  by (simp_all add: decide_def Let_def decided_def)

lemma set_put_request: "set (put_request r xs) \<subseteq> insert r (set xs)"
  by (induction xs) auto

lemma ids_put_request: "map pq_id (put_request r xs) = (if pq_id r \<in> set (map pq_id xs) then map pq_id xs else map pq_id xs @ [pq_id r])"
  by (induction xs) auto

lemma set_put_distinct:
  "distinct (map pq_id xs) \<Longrightarrow> set (put_request r xs) = insert r {x \<in> set xs. pq_id x \<noteq> pq_id r}"
  by (induction xs) (auto simp: image_iff)

lemma distinct_filter_ids: "distinct (map f xs) \<Longrightarrow> distinct (map f (filter P xs))"
  by (induction xs) auto

lemma decide_all_grants [simp]: "im_grants (decide_all ws t d reason rs m) = im_grants m"
  by (induction rs arbitrary: m) auto

lemma distinct_put: "distinct (map pq_id xs) \<Longrightarrow> distinct (map pq_id (put_request r xs))"
  unfolding ids_put_request by simp

lemma decide_all_ball:
  "(\<And>r. r \<in> set rs \<Longrightarrow> P (decided d t reason r)) \<Longrightarrow> \<forall>r \<in> set (im_requests m). P r \<Longrightarrow>
     \<forall>r \<in> set (im_requests (decide_all ws t d reason rs m)). P r"
proof (induction rs arbitrary: m)
  case (Cons r rs)
  have "\<forall>x \<in> set (im_requests (decide ws t d reason r m)). P x"
    using Cons.prems set_put_request [of "decided d t reason r" "im_requests m"] by auto
  then have "\<forall>x \<in> set (im_requests (decide_all ws t d reason rs (decide ws t d reason r m))). P x"
    by (rule Cons.IH [rotated]) (rule Cons.prems(1), simp)
  then show ?case by (simp only: decide_all.simps)
qed simp

lemma check_fields [simp]:
  "im_grants (check_tick ws t m) = im_grants m" "im_requests (check_tick ws t m) = im_requests (sweep ws t m)"
proof -
  have "checkLocalWebControl m1 = Inr m2 \<Longrightarrow> im_grants m2 = im_grants m1 \<and> im_requests m2 = im_requests m1"
    "checkLocalIntegrationControl m1 = Inr m2 \<Longrightarrow> im_grants m2 = im_grants m1 \<and> im_requests m2 = im_requests m1" for m1 m2
    by (auto simp: checkLocalWebControl_def checkLocalIntegrationControl_def Let_def split: sum.splits if_splits option.splits)
  moreover have "im_grants (compare_snapshot ws t m1) = im_grants m1 \<and> im_requests (compare_snapshot ws t m1) = im_requests m1" for m1
    by (auto simp: compare_snapshot_def split: sum.splits)
  ultimately show "im_grants (check_tick ws t m) = im_grants m" "im_requests (check_tick ws t m) = im_requests (sweep ws t m)"
    by (auto simp: check_tick_def Let_def sweep_def split: sum.splits)
qed

section \<open>Nothing is granted from afar\<close>

text \<open>Who asked for what, and which grants a person at the machine approved, in a run.\<close>

definition asked :: "workstation \<Rightarrow> (int \<times> manager_op) list \<Rightarrow> grant_request \<Rightarrow> bool" where
  "asked ws ops q \<longleftrightarrow> (\<exists>t command. (t, Op_Receive command) \<in> set ops \<and> validateRequest ws t command = Inr q)"

definition approved_here :: "workstation \<Rightarrow> (int \<times> manager_op) list \<Rightarrow> js_value \<Rightarrow> bool" where
  "approved_here ws ops g \<longleftrightarrow>
     (\<exists>t typed gid q. (t, Op_Approve (rq_requestId q) typed True gid) \<in> set ops \<and> asked ws ops q \<and>
        (\<forall>e. ws_parse ws (rq_expiresAt q) = Some e \<longrightarrow> t < e) \<and>
        confirmationMatches (ws_sha ws) typed (rq_salt q) (rq_sha256 q) \<and>
        g = grant_json (signed_grant (ws_signer ws) (grant_for ws t gid q)))"

definition request_ok :: "workstation \<Rightarrow> (int \<times> manager_op) list \<Rightarrow> pending_request \<Rightarrow> bool" where
  "request_ok ws ops r \<longleftrightarrow> asked ws ops (pq_command r) \<and> (pq_status r = Rq_Pending \<longrightarrow> pq_attempts r < MAX_CONFIRMATION_ATTEMPTS)"

definition traced :: "workstation \<Rightarrow> (int \<times> manager_op) list \<Rightarrow> integration_manager \<Rightarrow> bool" where
  "traced ws ops m \<longleftrightarrow>
     (\<forall>r \<in> set (im_requests m). request_ok ws ops r) \<and>
     (\<forall>gs. stored_entries (im_grants m) = Inr gs \<longrightarrow> (\<forall>g \<in> set gs. approved_here ws ops g))"

lemma asked_mono: "asked ws ops q \<Longrightarrow> set ops \<subseteq> set ops' \<Longrightarrow> asked ws ops' q"
  unfolding asked_def by blast

lemma approved_mono: "approved_here ws ops g \<Longrightarrow> set ops \<subseteq> set ops' \<Longrightarrow> approved_here ws ops' g"
  unfolding approved_here_def using asked_mono by blast

lemma traced_mono: "traced ws ops m \<Longrightarrow> set ops \<subseteq> set ops' \<Longrightarrow> traced ws ops' m"
  unfolding traced_def request_ok_def using asked_mono approved_mono by blast

lemma traced_requests:
  assumes "traced ws ops m" "im_grants m' = im_grants m" "\<forall>r \<in> set (im_requests m'). request_ok ws ops r"
  shows "traced ws ops m'"
  using assms unfolding traced_def by simp

lemma traced_put:
  assumes "traced ws ops m" "request_ok ws ops r" "im_grants m' = im_grants m"
    and "set (im_requests m') \<subseteq> set (put_request r (im_requests m))"
  shows "traced ws ops m'"
  by (rule traced_requests [OF assms(1,3)]) (use assms set_put_request [of r "im_requests m"] in \<open>auto simp: traced_def\<close>)

lemma request_ok_decided: "request_ok ws ops r \<Longrightarrow> request_ok ws ops (decided d t reason r)"
  by (simp add: request_ok_def)

lemma traced_decide: "traced ws ops m \<Longrightarrow> request_ok ws ops r \<Longrightarrow> traced ws ops (decide ws t d reason r m)"
  by (rule traced_put [of ws ops m "decided d t reason r"]) (auto intro: request_ok_decided)

lemma traced_decide_all:
  assumes "traced ws ops m" "set rs \<subseteq> set (im_requests m)"
  shows "traced ws ops (decide_all ws t d reason rs m)"
  by (rule traced_requests [OF assms(1)], simp, rule decide_all_ball)
    (use assms in \<open>auto simp: traced_def intro: request_ok_decided\<close>)

lemma entries_removed: "removeGrant i f = Inr (f', b) \<Longrightarrow> stored_entries f' = Inr gs' \<Longrightarrow>
    \<exists>gs. stored_entries f = Inr gs \<and> set gs' \<subseteq> set gs"
  by (auto simp: removeGrant_def Let_def split: sum.splits if_splits)

lemma entries_added: "saveGrant sg g f = Inr (f', g') \<Longrightarrow>
    \<exists>gs gs'. stored_entries f = Inr gs \<and> stored_entries f' = Inr gs' \<and> set gs' \<subseteq> insert (grant_json (signed_grant sg g)) (set gs)"
  by (auto simp: saveGrant_def Let_def split: sum.splits)

lemma find_member: "findRequest i m = Some r \<Longrightarrow> r \<in> set (im_requests m) \<and> pq_id r = i"
  by (auto simp: findRequest_def find_Some_iff)

lemma approve_begin_cases:
  assumes "approve_begin ws t i typed interactive m = (m', res)"
  obtains (Answer) answer where "res = Inl answer" "m' = m"
      "\<not> interactive \<or> (\<forall>r. findRequest i m = Some r \<longrightarrow> pq_status r \<noteq> Rq_Pending)"
  | (Expired) answer r where "res = Inl answer" "findRequest i m = Some r"
      "m' = decide ws t Decide_Expired ''Request expired before it was approved'' r m"
  | (Denied) answer r where "res = Inl answer" "findRequest i m = Some r" "MAX_CONFIRMATION_ATTEMPTS \<le> pq_attempts r + 1"
      "m' = decide ws t Decide_Denied ''Too many wrong confirmation codes'' (r\<lparr>pq_attempts := pq_attempts r + 1\<rparr>) m"
  | (Wrong) answer r where "res = Inl answer" "findRequest i m = Some r" "pq_attempts r + 1 < MAX_CONFIRMATION_ATTEMPTS"
      "m' = upsertRequest ws t (r\<lparr>pq_attempts := pq_attempts r + 1\<rparr>) m"
  | (Typed) r where "res = Inr r" "m' = m" "interactive" "findRequest i m = Some r" "pq_status r = Rq_Pending"
      "\<forall>e. ws_parse ws (rq_expiresAt (pq_command r)) = Some e \<longrightarrow> t < e"
      "confirmationMatches (ws_sha ws) typed (rq_salt (pq_command r)) (rq_sha256 (pq_command r))"
proof (cases "findRequest i m")
  case None
  then show thesis using assms Answer by (auto simp: approve_begin_def split: if_splits)
next
  case (Some r)
  let ?expired = "case ws_parse ws (rq_expiresAt (pq_command r)) of None \<Rightarrow> False | Some e \<Rightarrow> e \<le> t"
  show thesis
  proof (cases "\<not> interactive \<or> pq_status r \<noteq> Rq_Pending")
    case True
    then show thesis using assms Some Answer by (auto simp: approve_begin_def split: if_splits)
  next
    case live: False
    show thesis
    proof (cases "?expired")
      case True
      then have "m' = decide ws t Decide_Expired ''Request expired before it was approved'' r m"
        "res = Inl (Not_Approved ''Request expired'' None)"
        using assms Some live by (simp_all add: approve_begin_def)
      then show thesis using Some Expired by blast
    next
      case fresh: False
      show thesis
      proof (cases "confirmationMatches (ws_sha ws) typed (rq_salt (pq_command r)) (rq_sha256 (pq_command r))")
        case True
        moreover have "\<forall>e. ws_parse ws (rq_expiresAt (pq_command r)) = Some e \<longrightarrow> t < e"
          using fresh by (auto split: option.splits)
        moreover have "res = Inr r" "m' = m" using True assms Some live fresh by (simp_all add: approve_begin_def)
        ultimately show thesis using Some live Typed by blast
      next
        case False
        then have b: "(m', res) =
          (let r' = r\<lparr>pq_attempts := pq_attempts r + 1\<rparr> in
           if MAX_CONFIRMATION_ATTEMPTS \<le> pq_attempts r'
           then (decide ws t Decide_Denied ''Too many wrong confirmation codes'' r' m,
                 Inl (Not_Approved ''Too many wrong codes; the request was denied'' None))
           else (upsertRequest ws t r' m,
                 Inl (Not_Approved ''That code does not match the one shown in the browser''
                   (Some (MAX_CONFIRMATION_ATTEMPTS - pq_attempts r')))))"
          using assms Some live fresh by (simp add: approve_begin_def)
        show thesis
        proof (cases "MAX_CONFIRMATION_ATTEMPTS \<le> pq_attempts r + 1")
          case True
          with b have "m' = decide ws t Decide_Denied ''Too many wrong confirmation codes'' (r\<lparr>pq_attempts := pq_attempts r + 1\<rparr>) m"
            "res = Inl (Not_Approved ''Too many wrong codes; the request was denied'' None)" by simp_all
          with True Some Denied show thesis by blast
        next
          case False
          with b obtain k where "m' = upsertRequest ws t (r\<lparr>pq_attempts := pq_attempts r + 1\<rparr>) m"
            "res = Inl (Not_Approved ''That code does not match the one shown in the browser'' k)" by simp
          moreover have "pq_attempts r + 1 < MAX_CONFIRMATION_ATTEMPTS" using False by simp
          ultimately show thesis using Some Wrong by blast
        qed
      qed
    qed
  qed
qed

lemma traced_approve:
  assumes tr: "traced ws ops m" and op: "(t, Op_Approve i typed interactive gid) \<in> set ops"
  shows "traced ws ops (fst (approve ws t i typed interactive gid m))"
proof -
  obtain m' res where b: "approve_begin ws t i typed interactive m = (m', res)" by fastforce
  have ok: "request_ok ws ops r" if "findRequest i m = Some r" for r
    using tr find_member [OF that] by (simp add: traced_def)
  from b show ?thesis
  proof (cases rule: approve_begin_cases)
    case (Answer answer)
    then show ?thesis using b tr by (simp add: approve_def)
  next
    case (Expired answer r)
    then show ?thesis using b traced_decide [OF tr ok] by (simp add: approve_def)
  next
    case (Denied answer r)
    have "traced ws ops m'" unfolding Denied(4)
      by (rule traced_put [OF tr, of "decided Decide_Denied t ''Too many wrong confirmation codes'' (r\<lparr>pq_attempts := pq_attempts r + 1\<rparr>)"])
        (use ok [OF Denied(2)] in \<open>auto simp: request_ok_def\<close>)
    then show ?thesis using b Denied by (simp add: approve_def)
  next
    case (Wrong answer r)
    have "traced ws ops m'" unfolding Wrong(4)
      by (rule traced_put [OF tr, of "r\<lparr>pq_attempts := pq_attempts r + 1\<rparr>"])
        (use ok [OF Wrong(2)] Wrong(3) in \<open>auto simp: request_ok_def\<close>)
    then show ?thesis using b Wrong by (simp add: approve_def)
  next
    case (Typed r)
    let ?g = "grant_for ws t gid (pq_command r)"
    have as: "asked ws ops (pq_command r)" using ok [OF Typed(4)] by (simp add: request_ok_def)
    have "rq_requestId (pq_command r) = i" using find_member [OF Typed(4)] by simp
    then have here: "approved_here ws ops (grant_json (signed_grant (ws_signer ws) ?g))"
      unfolding approved_here_def using op as Typed(3,6,7) by auto
    show ?thesis
    proof (cases "saveGrant (ws_signer ws) ?g (im_grants m)")
      case (Inl err)
      then show ?thesis using b Typed tr by (simp add: approve_def approve_finish_def)
    next
      case (Inr fg)
      obtain f g where fg: "fg = (f, g)" by fastforce
      let ?m = "m\<lparr>im_grants := f\<rparr>"
      from entries_added [OF Inr [unfolded fg]] here tr have t1: "traced ws ops ?m"
        unfolding traced_def by auto
      let ?r = "r\<lparr>pq_status := Rq_Approved, pq_decidedAt := Some (toISOString t)\<rparr>"
      have "request_ok ws ops ?r" using as by (simp add: request_ok_def)
      from traced_put [OF t1 this] have "traced ws ops (upsertRequest ws t ?r ?m)" by auto
      then have "traced ws ops (emitState ws t (granted_state ws g) (upsertRequest ws t ?r ?m))"
        by (simp add: traced_def)
      then show ?thesis using b Typed Inr fg by (simp add: approve_def approve_finish_def Let_def)
    qed
  qed
qed

lemma traced_receive:
  assumes "traced ws ops m" "(t, Op_Receive command) \<in> set ops"
  shows "traced ws ops (fst (receiveRequest ws t command m))"
proof (cases "validateRequest ws t command")
  case (Inr q)
  let ?r = "\<lparr>pq_command = q, pq_status = Rq_Pending, pq_receivedAt = toISOString t, pq_attempts = 0,
    pq_decidedAt = None, pq_reason = None\<rparr>"
  have "asked ws ops q" using assms(2) Inr unfolding asked_def by blast
  then have "request_ok ws ops ?r" by (simp add: request_ok_def MAX_CONFIRMATION_ATTEMPTS_def)
  from traced_put [OF assms(1) this, of "fst (receiveRequest ws t command m)"] assms(1) show ?thesis
    using Inr by (auto simp: receiveRequest_def Let_def)
qed (use assms in \<open>simp add: receiveRequest_def\<close>)

lemma traced_revoke:
  assumes "traced ws ops m"
  shows "traced ws ops (fst (revoke ws t v by m))"
proof (cases "removeGrant (js_text v) (im_grants m)")
  case (Inr fb)
  obtain f b where fb: "fb = (f, b)" by fastforce
  let ?m = "m\<lparr>im_grants := f\<rparr>"
  from assms entries_removed [OF Inr [unfolded fb]] have "traced ws ops ?m" unfolding traced_def by fastforce
  from traced_decide_all [OF this] have "traced ws ops (decide_all ws t Decide_Denied (''Cancelled by revoke ('' @ revoker_name by @ '')'')
      (filter (waiting_for (js_text v)) (im_requests ?m)) ?m)"
    by auto
  then show ?thesis using Inr fb assms by (simp add: revoke_def Let_def) (simp add: traced_def)
qed (use assms in \<open>simp add: revoke_def\<close>)

lemma traced_step:
  assumes "traced ws ops m" "(t, op) \<in> set ops"
  shows "traced ws ops (manager_step ws m (t, op))"
proof (cases op)
  case (Op_Receive command)
  then show ?thesis using traced_receive assms by simp
next
  case (Op_Approve i typed interactive gid)
  then show ?thesis using traced_approve assms by simp
next
  case (Op_Deny i reason)
  have "traced ws ops (decide ws t d why r m)" if "findRequest i m = Some r" for d why r
    by (rule traced_decide [OF assms(1)]) (use find_member [OF that] assms(1) in \<open>simp add: traced_def\<close>)
  then show ?thesis using assms(1) Op_Deny by (simp add: deny_request_def split: option.split)
next
  case (Op_Revoke v who)
  then show ?thesis using traced_revoke assms by simp
next
  case Op_Check
  have "traced ws ops (sweep ws t m)"
    unfolding sweep_def by (rule traced_decide_all [OF assms(1)]) auto
  then have "traced ws ops (check_tick ws t m)" by (simp add: traced_def sweep_def)
  then show ?thesis using Op_Check by simp
qed

lemma traced_run: "traced ws ops (foldl (manager_step ws) (new_manager No_File []) ops)"
proof (induction ops rule: rev_induct)
  case Nil
  then show ?case
    by (simp add: traced_def new_manager_def stored_entries_def readJsonFile_def grants_file_def js_member_def
        js_field_def js_elements_def)
next
  case (snoc x ops)
  obtain t op where x: "x = (t, op)" by fastforce
  have "traced ws (ops @ [x]) (foldl (manager_step ws) (new_manager No_File []) ops)"
    by (rule traced_mono [OF snoc]) auto
  from traced_step [OF this, of t op] show ?case unfolding x by simp
qed

text \<open>
  C31: In any run from empty files, whatever the control plane sends, a grant that can be used was approved
  at this machine, interactively, before its request expired, by someone who typed the code whose hash
  came with the request; it covers the integration and the scopes the request asked for.
\<close>

theorem grants_are_approved_here:
  assumes "m = foldl (manager_step ws) (new_manager No_File []) ops"
    and "findActive (ws_signer ws) (ws_parse ws) now i (im_grants m) = Inr (Some g)"
  shows "\<exists>t typed gid q. (t, Op_Approve (rq_requestId q) typed True gid) \<in> set ops \<and>
    (\<exists>t0 command. (t0, Op_Receive command) \<in> set ops \<and> validateRequest ws t0 command = Inr q) \<and>
    (\<forall>e. ws_parse ws (rq_expiresAt q) = Some e \<longrightarrow> t < e) \<and>
    confirmationMatches (ws_sha ws) typed (rq_salt q) (rq_sha256 q) \<and>
    rq_integration q = i \<and> js_member g ''scopes'' = JS_Array (map JS_Str (rq_scopes q))"
proof -
  have tr: "traced ws ops m" unfolding assms(1) by (rule traced_run)
  from findActive_found [OF assms(2)] have f: "for_integration i g" "\<exists>gs. stored_entries (im_grants m) = Inr gs \<and> g \<in> set gs"
    by auto
  then have "approved_here ws ops g" using tr unfolding traced_def by blast
  then obtain t typed gid q where q: "(t, Op_Approve (rq_requestId q) typed True gid) \<in> set ops" "asked ws ops q"
    "\<forall>e. ws_parse ws (rq_expiresAt q) = Some e \<longrightarrow> t < e"
    "confirmationMatches (ws_sha ws) typed (rq_salt q) (rq_sha256 q)"
    "g = grant_json (signed_grant (ws_signer ws) (grant_for ws t gid q))"
    unfolding approved_here_def by blast
  have "rq_integration q = i" "js_member g ''scopes'' = JS_Array (map JS_Str (rq_scopes q))"
    using f(1) by (simp_all add: q(5) for_integration_def grant_members signed_grant_def grant_for_def)
  then show ?thesis using q unfolding asked_def by blast
qed

definition toy_ws :: workstation where
  "toy_ws = \<lparr>ws_signer = toy_signer, ws_parse = (\<lambda>_. Some 100000), ws_sha = (\<lambda>_. replicate 64 (CHR ''0'')), ws_fs = toy_fs,
     ws_home = ''/h''\<rparr>"

definition toy_command :: js_value where
  "toy_command = JS_Object
     [(''requestId'', JS_Str ''request1''), (''integration'', JS_Str ''codex''), (''scopes'', JS_Array [JS_Str ''history.read'']),
      (''requestedBy'', JS_Object [(''userId'', JS_Str ''u'')]),
      (''confirmation'', JS_Object [(''salt'', JS_Str ''0123456789abcdef''), (''sha256'', JS_Str (replicate 64 (CHR ''0'')))]),
      (''expiresAt'', JS_Str ''later'')]"

definition toy_request :: grant_request where
  "toy_request = \<lparr>rq_requestId = ''request1'', rq_integration = ''codex'', rq_scopes = [''history.read''], rq_userId = ''u'',
     rq_email = None, rq_salt = ''0123456789abcdef'', rq_sha256 = replicate 64 (CHR ''0''), rq_expiresAt = toISOString 100000\<rparr>"

definition toy_pending :: pending_request where
  "toy_pending = \<lparr>pq_command = toy_request, pq_status = Rq_Pending, pq_receivedAt = toISOString 0, pq_attempts = 0,
     pq_decidedAt = None, pq_reason = None\<rparr>"

definition toy_manager :: integration_manager where
  "toy_manager = fst (receiveRequest toy_ws 0 toy_command (new_manager No_File []))"

lemma zeros_hex: "is_sha256_hex (replicate 64 (CHR ''0''))" by code_simp

lemma toy_validates: "validateRequest toy_ws 0 toy_command = Inr toy_request"
proof -
  have "valid_request_id (JS_Str ''request1'')" "isIntegrationId (JS_Str ''codex'')"
    "find (\<lambda>s. \<not> offered_scope ''codex'' s) [JS_Str ''history.read''] = None" "js_dedupe [''history.read''] = [''history.read'']"
    by code_simp+
  then show ?thesis using zeros_hex
    by (simp add: validateRequest_def toy_command_def js_member_def js_field_def js_text_def js_elements_def Let_def
        confirmation_ok_def is_text_def expiry_of_def toy_ws_def GRANT_REQUEST_TTL_MS_def toy_request_def)
qed

lemma toy_received: "im_grants toy_manager = No_File \<and> im_requests toy_manager = [toy_pending]"
  by (simp add: toy_manager_def receiveRequest_def toy_validates findRequest_def new_manager_def Let_def still_kept_def
      toy_pending_def)

lemma toy_typed: "approve_begin toy_ws 1 ''request1'' ''A'' True toy_manager = (toy_manager, Inr toy_pending)"
proof -
  have "findRequest ''request1'' toy_manager = Some toy_pending"
    by (simp add: findRequest_def toy_received toy_pending_def toy_request_def)
  moreover have "confirmationMatches (ws_sha toy_ws) ''A'' (rq_salt toy_request) (rq_sha256 toy_request)"
    using zeros_hex by (simp add: confirmationMatches_def hashConfirmationCode_def toy_ws_def toy_request_def)
  ultimately show ?thesis by (simp add: approve_begin_def toy_pending_def toy_ws_def)
qed

lemma toy_granted: "\<exists>f. saveGrant toy_signer (grant_for toy_ws 1 ''gid'' toy_request) No_File =
      Inr (f, signed_grant toy_signer (grant_for toy_ws 1 ''gid'' toy_request)) \<and>
    findActive toy_signer (\<lambda>_. Some 100000) 5 ''codex'' f = Inr (Some (grant_json (signed_grant toy_signer (grant_for toy_ws 1 ''gid'' toy_request))))"
proof -
  have "stored_entries No_File = Inr []"
    by (simp add: stored_entries_def readJsonFile_def grants_file_def js_member_def js_field_def js_elements_def)
  from saved_grant_active_lemma [of toy_signer "grant_for toy_ws 1 ''gid'' toy_request" "\<lambda>_. Some 100000" 100000 No_File "[]" 5, OF _ _ _ _ this]
  show ?thesis by (fastforce simp: toy_signer_def toy_ws_def grant_for_def toy_request_def)
qed

theorem grants_are_approved_here_witness:
  "findActive toy_signer (\<lambda>_. Some 100000) 5 ''codex''
     (im_grants (foldl (manager_step toy_ws) (new_manager No_File [])
        [(0, Op_Receive toy_command), (1, Op_Approve ''request1'' ''A'' True ''gid'')])) \<noteq> Inr None \<and>
   confirmationMatches (ws_sha toy_ws) ''A'' ''0123456789abcdef'' (replicate 64 (CHR ''0''))"
proof -
  let ?ops = "[(0, Op_Receive toy_command), (1, Op_Approve ''request1'' ''A'' True ''gid'')]"
  let ?m = "foldl (manager_step toy_ws) (new_manager No_File []) ?ops"
  obtain f where f: "saveGrant toy_signer (grant_for toy_ws 1 ''gid'' toy_request) No_File =
      Inr (f, signed_grant toy_signer (grant_for toy_ws 1 ''gid'' toy_request))"
    "findActive toy_signer (\<lambda>_. Some 100000) 5 ''codex'' f = Inr (Some (grant_json (signed_grant toy_signer (grant_for toy_ws 1 ''gid'' toy_request))))"
    using toy_granted by blast
  have c: "pq_command toy_pending = toy_request" by (simp add: toy_pending_def)
  have w: "ws_signer toy_ws = toy_signer" "ws_parse toy_ws = (\<lambda>_. Some 100000)" by (simp_all add: toy_ws_def)
  have s: "saveGrant (ws_signer toy_ws) (grant_for toy_ws 1 ''gid'' (pq_command toy_pending)) (im_grants toy_manager) =
      Inr (f, signed_grant toy_signer (grant_for toy_ws 1 ''gid'' toy_request))" using f(1) c w toy_received by simp
  have "im_grants ?m = f"
    by (simp add: toy_manager_def [symmetric] approve_def toy_typed approve_finish_def s Let_def)
  then have fa: "findActive (ws_signer toy_ws) (ws_parse toy_ws) 5 ''codex'' (im_grants ?m) =
      Inr (Some (grant_json (signed_grant toy_signer (grant_for toy_ws 1 ''gid'' toy_request))))" using f(2) w by simp
  from grants_are_approved_here [OF refl this] obtain typed q where "(1, Op_Approve (rq_requestId q) typed True ''gid'') \<in> set ?ops"
    "validateRequest toy_ws 0 toy_command = Inr q" "confirmationMatches (ws_sha toy_ws) typed (rq_salt q) (rq_sha256 q)"
    by auto
  then show ?thesis using fa w toy_validates by (auto simp: toy_request_def)
qed

section \<open>Guessing\<close>

lemma find_filter_none: "find P xs = None \<Longrightarrow> find P (filter Q xs) = None"
  by (auto simp: find_None_iff)

lemma find_put: "find (\<lambda>x. pq_id x = i) (put_request r xs) = (if pq_id r = i then Some r else find (\<lambda>x. pq_id x = i) xs)"
  by (induction xs) auto

text \<open>With distinct identifiers, looking a request up commutes with dropping old ones.\<close>

lemma find_kept:
  "distinct (map pq_id xs) \<Longrightarrow> find (\<lambda>x. pq_id x = i) (filter Q xs) =
     (case find (\<lambda>x. pq_id x = i) xs of None \<Rightarrow> None | Some r \<Rightarrow> if Q r then Some r else None)"
proof (induction xs)
  case (Cons x xs)
  have "find (\<lambda>y. pq_id y = pq_id x) (filter Q xs) = None" using Cons.prems by (auto simp: find_None_iff image_iff)
  then show ?case using Cons by (auto split: option.splits)
qed simp

definition requests_distinct :: "integration_manager \<Rightarrow> bool" where
  "requests_distinct m \<longleftrightarrow> distinct (map pq_id (im_requests m))"

lemma find_upsert:
  "requests_distinct m \<Longrightarrow> findRequest i (upsertRequest ws t r m) =
     (if pq_id r = i then (if still_kept ws t r then Some r else None)
      else case findRequest i m of None \<Rightarrow> None | Some x \<Rightarrow> if still_kept ws t x then Some x else None)"
  by (simp add: findRequest_def find_kept [OF distinct_put] find_put requests_distinct_def)

lemma distinct_upsert: "requests_distinct m \<Longrightarrow> requests_distinct (upsertRequest ws t r m)"
  unfolding requests_distinct_def by (simp add: distinct_put distinct_filter_ids)

lemma decide_find:
  "requests_distinct m \<Longrightarrow> findRequest i (decide ws t d reason r m) = findRequest i (upsertRequest ws t (decided d t reason r) m)"
  by (simp add: findRequest_def)

lemma distinct_decide: "requests_distinct m \<Longrightarrow> requests_distinct (decide ws t d reason r m)"
  unfolding requests_distinct_def by (simp add: distinct_put distinct_filter_ids)

text \<open>What is left of the guesses at a request: a request that cannot be approved any more has none.\<close>

definition guesses_left :: "string \<Rightarrow> integration_manager \<Rightarrow> nat" where
  "guesses_left i m =
     (case findRequest i m of
        None \<Rightarrow> 0
      | Some r \<Rightarrow> if pq_status r = Rq_Pending then MAX_CONFIRMATION_ATTEMPTS - pq_attempts r else 0)"

definition wrong_code :: "workstation \<Rightarrow> string \<Rightarrow> integration_manager \<Rightarrow> string \<Rightarrow> bool" where
  "wrong_code ws i m typed \<longleftrightarrow>
     (case findRequest i m of
        None \<Rightarrow> True
      | Some r \<Rightarrow> \<not> confirmationMatches (ws_sha ws) typed (rq_salt (pq_command r)) (rq_sha256 (pq_command r)))"

lemma no_guess_left: "guesses_left i m = 0 \<Longrightarrow> \<forall>r. findRequest i m = Some r \<and> pq_status r = Rq_Pending \<longrightarrow> pq_attempts r < MAX_CONFIRMATION_ATTEMPTS
    \<Longrightarrow> \<exists>why. approve ws t i typed True gid m = (m, Inr (Not_Approved why None))"
  by (auto simp: guesses_left_def approve_def approve_begin_def split: option.splits if_splits)

definition attempts_ok :: "string \<Rightarrow> integration_manager \<Rightarrow> bool" where
  "attempts_ok i m \<longleftrightarrow> requests_distinct m \<and>
     (\<forall>r. findRequest i m = Some r \<and> pq_status r = Rq_Pending \<longrightarrow> pq_attempts r < MAX_CONFIRMATION_ATTEMPTS)"

lemma guess_decided:
  assumes "requests_distinct m" "findRequest i m = Some r" "pq_command r' = pq_command r"
  shows "findRequest i (decide ws t d reason r' m) = None \<or>
    findRequest i (decide ws t d reason r' m) = Some (decided d t reason r')"
  using find_member [OF assms(2)] assms(3) by (simp add: decide_find [OF assms(1)] find_upsert [OF assms(1)])

lemma guess_closed:
  assumes "requests_distinct m'" "findRequest i m' = None \<or> findRequest i m' = Some (decided d t reason r')"
  shows "attempts_ok i m' \<and> guesses_left i m' = 0 \<and>
    (\<forall>s. wrong_code ws i m' s \<longleftrightarrow> findRequest i m' = None \<or>
       \<not> confirmationMatches (ws_sha ws) s (rq_salt (pq_command r')) (rq_sha256 (pq_command r')))"
  using assms by (auto simp: attempts_ok_def guesses_left_def wrong_code_def)

lemma wrong_guess:
  assumes ok: "attempts_ok i m" and wrong: "wrong_code ws i m typed"
  shows "attempts_ok i (fst (approve ws t i typed True gid m)) \<and>
    guesses_left i (fst (approve ws t i typed True gid m)) \<le> guesses_left i m - 1 \<and>
    (\<forall>s. wrong_code ws i m s \<longrightarrow> wrong_code ws i (fst (approve ws t i typed True gid m)) s)"
proof -
  have d: "requests_distinct m" using ok by (simp add: attempts_ok_def)
  obtain m' res where b: "approve_begin ws t i typed True m = (m', res)" by fastforce
  from b show ?thesis
  proof (cases rule: approve_begin_cases)
    case (Answer answer)
    have "guesses_left i m = 0" using Answer(3) by (simp add: guesses_left_def split: option.split)
    then show ?thesis using b Answer ok by (simp add: approve_def)
  next
    case (Expired answer r)
    have "findRequest i m' = None \<or> findRequest i m' = Some (decided Decide_Expired t ''Request expired before it was approved'' r)"
      unfolding Expired(3) by (rule guess_decided [OF d Expired(2) refl])
    from guess_closed [OF _ this] show ?thesis using b Expired wrong distinct_decide [OF d]
      by (simp add: approve_def wrong_code_def)
  next
    case (Denied answer r)
    let ?r = "r\<lparr>pq_attempts := pq_attempts r + 1\<rparr>"
    have "findRequest i m' = None \<or> findRequest i m' = Some (decided Decide_Denied t ''Too many wrong confirmation codes'' ?r)"
      unfolding Denied(4) by (rule guess_decided [OF d Denied(2)]) simp
    from guess_closed [OF _ this] show ?thesis using b Denied wrong distinct_decide [OF d]
      by (simp add: approve_def wrong_code_def)
  next
    case (Wrong answer r)
    have f: "findRequest i m' = (if still_kept ws t (r\<lparr>pq_attempts := pq_attempts r + 1\<rparr>)
        then Some (r\<lparr>pq_attempts := pq_attempts r + 1\<rparr>) else None)"
      using find_member [OF Wrong(2)] by (simp add: Wrong(4) find_upsert [OF d])
    then show ?thesis using b Wrong distinct_upsert [OF d]
      by (auto simp: approve_def attempts_ok_def guesses_left_def wrong_code_def split: if_splits)
  next
    case (Typed r)
    then show ?thesis using wrong by (simp add: wrong_code_def)
  qed
qed

lemma distinct_decide_all: "requests_distinct m \<Longrightarrow> requests_distinct (decide_all ws t d reason rs m)"
  by (induction rs arbitrary: m) (auto intro: distinct_decide)

lemma distinct_requests: "im_requests m' = im_requests m \<Longrightarrow> requests_distinct m \<Longrightarrow> requests_distinct m'"
  by (simp add: requests_distinct_def)

lemma distinct_approve:
  assumes "requests_distinct m"
  shows "requests_distinct (fst (approve ws t i typed interactive gid m))"
proof -
  obtain m' res where b: "approve_begin ws t i typed interactive m = (m', res)" by fastforce
  from b show ?thesis
  proof (cases rule: approve_begin_cases)
    case (Typed r)
    have "requests_distinct (fst (approve_finish ws t gid r m))"
      using assms by (auto simp: approve_finish_def Let_def requests_distinct_def distinct_put distinct_filter_ids split: sum.split)
    then show ?thesis using b Typed by (simp add: approve_def)
  qed (use b assms in \<open>simp_all add: approve_def distinct_decide distinct_upsert\<close>)
qed

lemma distinct_step:
  assumes "requests_distinct m"
  shows "requests_distinct (manager_step ws m (t, op))"
proof (cases op)
  case (Op_Receive command)
  then show ?thesis using assms
    by (auto simp: receiveRequest_def Let_def requests_distinct_def distinct_put distinct_filter_ids split: sum.split)
next
  case (Op_Approve i typed interactive gid)
  then show ?thesis using distinct_approve [OF assms] by simp
next
  case (Op_Deny i reason)
  then show ?thesis using assms by (auto simp: deny_request_def distinct_decide split: option.split)
next
  case (Op_Revoke v who)
  have "requests_distinct (m\<lparr>im_grants := f\<rparr>)" for f using assms by (simp add: requests_distinct_def)
  from distinct_decide_all [OF this] have "requests_distinct (emitState ws t st (decide_all ws t d reason rs (m\<lparr>im_grants := f\<rparr>)))"
    for st d reason rs f by (rule distinct_requests [rotated]) simp
  then show ?thesis using Op_Revoke assms by (simp add: revoke_def Let_def split: sum.split prod.split)
next
  case Op_Check
  have "requests_distinct (sweep ws t m)" unfolding sweep_def by (rule distinct_decide_all [OF assms])
  then show ?thesis using Op_Check by (simp add: requests_distinct_def)
qed

interpretation manager_runs: transition_system "manager_step ws" requests_distinct for ws
  by unfold_locales (metis distinct_step surj_pair)

lemma run_attempts_ok: "attempts_ok i (foldl (manager_step ws) (new_manager No_File []) ops)"
proof -
  let ?m = "foldl (manager_step ws) (new_manager No_File []) ops"
  have "requests_distinct (new_manager No_File [])" by (simp add: requests_distinct_def new_manager_def)
  then have "requests_distinct ?m" by (rule manager_runs.run_inv)
  moreover have "traced ws ops ?m" by (rule traced_run)
  ultimately show ?thesis unfolding attempts_ok_def traced_def request_ok_def using find_member by blast
qed

definition guess_all :: "workstation \<Rightarrow> string \<Rightarrow> (int \<times> string \<times> string) list \<Rightarrow> integration_manager \<Rightarrow> integration_manager" where
  "guess_all ws i gs m = foldl (\<lambda>m (t, typed, gid). fst (approve ws t i typed True gid m)) m gs"

lemma guesses_run_out:
  "attempts_ok i m \<Longrightarrow> list_all (\<lambda>(t, typed, gid). wrong_code ws i m typed) gs \<Longrightarrow>
     attempts_ok i (guess_all ws i gs m) \<and> guesses_left i (guess_all ws i gs m) \<le> guesses_left i m - length gs"
proof (induction gs arbitrary: m)
  case (Cons g gs)
  obtain t typed gid where g: "g = (t, typed, gid)" by (cases g)
  let ?m = "fst (approve ws t i typed True gid m)"
  have "wrong_code ws i m typed" using Cons.prems(2) g by simp
  note w = wrong_guess [OF Cons.prems(1) this, of t gid]
  then have "list_all (\<lambda>(t, typed, gid). wrong_code ws i ?m typed) gs"
    using Cons.prems(2) g by (fastforce simp: list_all_iff)
  from Cons.IH [OF conjunct1 [OF w] this] have ih: "attempts_ok i (guess_all ws i gs ?m)"
    "guesses_left i (guess_all ws i gs ?m) \<le> guesses_left i ?m - length gs" by blast+
  moreover have "guesses_left i ?m \<le> guesses_left i m - 1" using w by blast
  moreover have "guess_all ws i (g # gs) m = guess_all ws i gs ?m" by (simp add: guess_all_def g)
  ultimately show ?case by simp
qed (simp add: guess_all_def)



section \<open>Revocation\<close>

lemma decide_all_settles:
  assumes "requests_distinct m" "\<forall>r \<in> set rs. pq_status r = Rq_Pending"
    and "\<forall>x \<in> set (im_requests m). waiting_for i x \<longrightarrow> x \<in> set rs"
  shows "\<forall>x \<in> set (im_requests (decide_all ws t d reason rs m)). \<not> waiting_for i x"
  using assms
proof (induction rs arbitrary: m)
  case (Cons r rs)
  let ?r = "decided d t reason r"
  have "x \<in> set rs" if x: "x \<in> set (im_requests (decide ws t d reason r m))" "waiting_for i x" for x
  proof -
    have "x = ?r \<or> x \<in> set (im_requests m) \<and> pq_id x \<noteq> pq_id ?r"
      using x(1) set_put_distinct [of "im_requests m" ?r] Cons.prems(1) by (auto simp: requests_distinct_def)
    moreover have "x \<noteq> ?r" using x(2) by (auto simp: waiting_for_def)
    ultimately show ?thesis using Cons.prems(3) x(2) by auto
  qed
  then have "\<forall>x \<in> set (im_requests (decide_all ws t d reason rs (decide ws t d reason r m))). \<not> waiting_for i x"
    using Cons.prems(2) by (intro Cons.IH distinct_decide Cons.prems(1)) auto
  then show ?case by (simp only: decide_all.simps)
qed simp

lemma same_id:
  "requests_distinct m \<Longrightarrow> x \<in> set (im_requests m) \<Longrightarrow> y \<in> set (im_requests m) \<Longrightarrow> pq_id x = pq_id y \<Longrightarrow> x = y"
  by (simp add: requests_distinct_def distinct_map inj_on_def)

text \<open>Entries that are removed do not come back, and the others stay.\<close>

lemma removed_entries:
  assumes "removeGrant i f = Inr (f', b)" "stored_entries f = Inr gs"
  shows "stored_entries f' = Inr (filter (\<lambda>x. \<not> for_integration i x) gs)"
proof (cases "length (filter (\<lambda>x. \<not> for_integration i x) gs) = length gs")
  case True
  then have "filter (\<lambda>x. \<not> for_integration i x) gs = gs" by (simp add: filter_id_conv) (metis length_filter_less less_irrefl)
  then show ?thesis using assms by (auto simp: removeGrant_def Let_def)
next
  case False
  then show ?thesis using assms by (auto simp: removeGrant_def Let_def)
qed



text \<open>
  The command that approves runs in a process of its own.  When the revocation comes between its two
  halves, the grant it then stores is active in spite of the revocation, and the request, which the
  revocation denied, is approved.
\<close>

theorem approval_undoes_revocation:
  assumes "approve_begin ws t i typed True m = (m1, Inr r)" "requests_distinct m"
    and "revoke ws t' (JS_Str (rq_integration (pq_command r))) by m1 = (m2, Inr removed)"
    and "\<forall>x. dg_sign (ws_signer ws) x \<noteq> [] \<and> dg_verify (ws_signer ws) x (dg_sign (ws_signer ws) x) = Some True"
    and "ws_parse ws (toISOString t'') = Some d" "t'' - DAY_MS < d"
    and "ws_parse ws (toISOString (t'' + GRANT_TTL_MS)) = Some e" "t'' < e"
    and "stored_entries (im_grants m2) = Inr gs" "list_all (entry_checks (ws_signer ws) (ws_parse ws) t'') gs"
  shows "\<exists>m3 st. approve_finish ws t'' gid r m2 = (m3, Inr (Approved st)) \<and>
    findActive (ws_signer ws) (ws_parse ws) t'' (rq_integration (pq_command r)) (im_grants m3) =
      Inr (Some (grant_json (signed_grant (ws_signer ws) (grant_for ws t'' gid (pq_command r))))) \<and>
    (\<exists>x \<in> set (im_requests m3). pq_command x = pq_command r \<and> pq_status x = Rq_Approved)"
proof -
  let ?g = "grant_for ws t'' gid (pq_command r)"
  have g: "gr_deviceId ?g = dg_deviceId (ws_signer ws)" "gr_approvedOn ?g = ''workstation''"
    "ws_parse ws (gr_expiresAt ?g) = Some e" "gr_integration ?g = rq_integration (pq_command r)"
    using assms(7) by (simp_all add: grant_for_def)
  from saved_grant_active_lemma [OF assms(4) g(1,2,3) assms(9,10)]
  obtain f where f: "saveGrant (ws_signer ws) ?g (im_grants m2) = Inr (f, signed_grant (ws_signer ws) ?g)"
    "findActive (ws_signer ws) (ws_parse ws) t'' (rq_integration (pq_command r)) f =
       Inr (if e \<le> t'' then None else Some (grant_json (signed_grant (ws_signer ws) ?g)))"
    unfolding g(4) by blast
  let ?r = "r\<lparr>pq_status := Rq_Approved, pq_decidedAt := Some (toISOString t'')\<rparr>"
  have kept: "still_kept ws t'' ?r" using assms(5,6) by (simp add: still_kept_def)
  have "?r \<in> set (put_request ?r xs)" for xs by (induction xs) auto
  with kept have mem: "?r \<in> set (im_requests (upsertRequest ws t'' ?r (m2\<lparr>im_grants := f\<rparr>)))" by simp
  let ?m = "fst (approve_finish ws t'' gid r m2)"
  have fin: "approve_finish ws t'' gid r m2 = (?m, Inr (Approved (granted_state ws (signed_grant (ws_signer ws) ?g))))"
    "im_grants ?m = f" "im_requests ?m = im_requests (upsertRequest ws t'' ?r (m2\<lparr>im_grants := f\<rparr>))"
    using f(1) by (simp_all add: approve_finish_def Let_def)
  moreover have "findActive (ws_signer ws) (ws_parse ws) t'' (rq_integration (pq_command r)) (im_grants ?m) =
      Inr (Some (grant_json (signed_grant (ws_signer ws) ?g)))" using f(2) fin(2) assms(8) by simp
  moreover have "pq_command ?r = pq_command r \<and> pq_status ?r = Rq_Approved" by simp
  ultimately show ?thesis using mem by metis
qed

theorem approval_undoes_revocation_witness:
  "findActive toy_signer (\<lambda>_. Some 100000) 3 ''codex''
     (im_grants (fst (approve_finish toy_ws 3 ''gid'' toy_pending (fst (revoke toy_ws 2 (JS_Str ''codex'') By_Web toy_manager))))) =
   Inr (Some (grant_json (signed_grant toy_signer (grant_for toy_ws 3 ''gid'' toy_request))))"
proof -
  have i: "isIntegrationId (JS_Str ''codex'')" by code_simp
  have e: "stored_entries No_File = Inr []"
    by (simp add: stored_entries_def readJsonFile_def grants_file_def js_member_def js_field_def js_elements_def)
  then have n: "removeGrant ''codex'' No_File = Inr (No_File, False)" by (simp add: removeGrant_def)
  obtain m' where r: "revoke toy_ws 2 (JS_Str ''codex'') By_Web toy_manager = (m', Inr False)" "im_grants m' = No_File"
    using i n by (simp add: revoke_def js_text_def toy_received Let_def)
  have c: "pq_command toy_pending = toy_request" "rq_integration toy_request = ''codex''"
    by (simp_all add: toy_pending_def toy_request_def)
  have w: "ws_signer toy_ws = toy_signer" "ws_parse toy_ws = (\<lambda>_. Some 100000)" by (simp_all add: toy_ws_def)
  have d: "requests_distinct toy_manager" by (simp add: requests_distinct_def toy_received)
  have "\<forall>x. dg_sign toy_signer x \<noteq> [] \<and> dg_verify toy_signer x (dg_sign toy_signer x) = Some True"
    by (simp add: toy_signer_def)
  from approval_undoes_revocation [OF toy_typed d r(1) [folded c(2), folded c(1)], where t'' = 3 and d = 100000 and e = 100000
      and gs = "[]" and gid = "''gid''", unfolded w c, OF this]
  show ?thesis using e r by (auto simp: DAY_MS_def)
qed

end
