(* ===== verification/Access.thy ===== *)
theory Access
  imports Integrations
begin

text \<open>
  The control plane's side of integration access: \<open>IntegrationAccessService\<close>
  (\<open>control-plane/src/integrations/integration-access.ts\<close>) on \<open>MemoryIntegrationGrantRepository\<close>
  (\<open>memory-store.ts\<close>).  It asks a gateway, it revokes, and it keeps a copy of what gateways report.  What a
  gateway answers to a command is a function given to each operation, the ingestion of synced data
  another; random texts and the clock are arguments.  Audit entries are recorded as a list; how they are
  chained is AuditTrail's subject.  Searching the imported history is not modelled.
\<close>

section \<open>Data\<close>

record grant_record =
  ir_deviceId :: string
  ir_userId :: string
  ir_integration :: string
  ir_status :: grant_status
  ir_scopes :: "string list"
  ir_requestId :: "string option"
  ir_grantId :: "string option"
  ir_roots :: "string list option"
  ir_grantedAt :: "string option"
  ir_expiresAt :: "string option"
  ir_reason :: "string option"
  ir_updatedAt :: int

record command_response =
  cr_delivered :: bool
  cr_acknowledged :: bool
  cr_payload :: js_value

record audit_note =
  an_actorType :: actor_type
  an_actorId :: string
  an_deviceId :: string
  an_action :: string
  an_decision :: audit_decision

datatype access_error = Http_Error nat string | Type_Error

text \<open>The devices with their owners, the records by device and integration, and what was done.\<close>

record access_service =
  ax_devices :: "(string, string) jmap"
  ax_grants :: "(string \<times> string, grant_record) jmap"
  ax_sent :: "(string \<times> string \<times> js_value) list"
  ax_audit :: "audit_note list"
  ax_ingested :: "(string \<times> js_value) list"
  ax_purged :: "(string \<times> string) list"
  ax_notified :: "(string \<times> js_value) list"

type_synonym gateway_link = "string \<Rightarrow> js_value \<Rightarrow> command_response"

definition REVOKE_PENDING :: string where
  "REVOKE_PENDING = ''Revoke waiting for the workstation to come online''"

definition isRevokePending :: "grant_record \<Rightarrow> bool" where
  "isRevokePending r \<longleftrightarrow> ir_status r = Gs_Revoked \<and> ir_reason r = Some REVOKE_PENDING"

definition plain_record :: "string \<Rightarrow> string \<Rightarrow> string \<Rightarrow> grant_status \<Rightarrow> grant_record" where
  "plain_record did uid i st =
     \<lparr>ir_deviceId = did, ir_userId = uid, ir_integration = i, ir_status = st, ir_scopes = [], ir_requestId = None,
      ir_grantId = None, ir_roots = None, ir_grantedAt = None, ir_expiresAt = None, ir_reason = None, ir_updatedAt = 0\<rparr>"

section \<open>The repository\<close>

definition upsert_grant :: "int \<Rightarrow> grant_record \<Rightarrow> access_service \<Rightarrow> access_service" where
  "upsert_grant now r s =
     s\<lparr>ax_grants := AList.update (ir_deviceId r, ir_integration r) (r\<lparr>ir_updatedAt := now\<rparr>) (ax_grants s)\<rparr>"

definition find_grant :: "string \<Rightarrow> string \<Rightarrow> access_service \<Rightarrow> grant_record option" where
  "find_grant did i s = map_of (ax_grants s) (did, i)"

definition listByDevice :: "string \<Rightarrow> access_service \<Rightarrow> grant_record list" where
  "listByDevice did s = filter (\<lambda>r. ir_deviceId r = did) (map snd (ax_grants s))"

definition send_command :: "string \<Rightarrow> string \<Rightarrow> js_value \<Rightarrow> access_service \<Rightarrow> access_service" where
  "send_command did command payload s = s\<lparr>ax_sent := ax_sent s @ [(did, command, payload)]\<rparr>"

definition note_audit :: "actor_type \<Rightarrow> string \<Rightarrow> string \<Rightarrow> string \<Rightarrow> audit_decision \<Rightarrow> access_service \<Rightarrow> access_service" where
  "note_audit at aid did action d s =
     s\<lparr>ax_audit := ax_audit s @
        [\<lparr>an_actorType = at, an_actorId = aid, an_deviceId = did, an_action = action, an_decision = d\<rparr>]\<rparr>"

section \<open>Asking for access\<close>

definition CODE_ALPHABET :: string where "CODE_ALPHABET = ''ABCDEFGHJKMNPQRSTUVWXYZ23456789''"

text \<open>A code from the random indices.\<close>

definition generateConfirmationCode :: "nat list \<Rightarrow> string" where
  "generateConfirmationCode rnd = map (\<lambda>k. CODE_ALPHABET ! k) rnd"

definition formatCode :: "string \<Rightarrow> string" where
  "formatCode code = take 3 code @ ''-'' @ drop 3 code"

definition cloud_hashConfirmationCode :: "(string \<Rightarrow> string) \<Rightarrow> string \<Rightarrow> string \<Rightarrow> string" where
  "cloud_hashConfirmationCode sha code salt = sha (salt @ '':'' @ concat (map code_char code))"

text \<open>The command that is sent.\<close>

definition request_command ::
  "string \<Rightarrow> string \<Rightarrow> string list \<Rightarrow> string \<Rightarrow> string option \<Rightarrow> string \<Rightarrow> string \<Rightarrow> string \<Rightarrow> js_value" where
  "request_command rid i scopes uid email salt hash expiresAt =
     JS_Object
       [(''requestId'', JS_Str rid), (''integration'', JS_Str i), (''scopes'', JS_Array (map JS_Str scopes)),
        (''requestedBy'', JS_Object ((''userId'', JS_Str uid) # (if truthy email then [(''email'', JS_Str (the email))] else []))),
        (''confirmation'', JS_Object [(''salt'', JS_Str salt), (''sha256'', JS_Str hash)]),
        (''expiresAt'', JS_Str expiresAt)]"

record access_request =
  aq_requestId :: string
  aq_confirmationCode :: string
  aq_expiresAt :: string
  aq_scopes :: "string list"

definition offline_error :: access_error where
  "offline_error = Http_Error 409 ''The workstation is offline. Start the gateway and try again.''"

definition refused_scope :: "string \<Rightarrow> js_value \<Rightarrow> access_error" where
  "refused_scope i v =
     (if isIntegrationScope v \<and> map_of INTEGRATIONS i = None then Type_Error
      else (case js_String v of
              None \<Rightarrow> Type_Error
            | Some t \<Rightarrow> Http_Error 400 (t @ '' is not offered by '' @ i)))"

text \<open>The answer to a command that failed at the workstation; its error is shown when there is one.\<close>

definition refused_answer :: "string \<Rightarrow> js_value \<Rightarrow> access_error" where
  "refused_answer fallback payload =
     (let err = js_member payload ''error'' in
      Http_Error 422 (if err = JS_Undefined \<or> err = JS_Null then fallback
                      else case js_String err of None \<Rightarrow> fallback | Some t \<Rightarrow> t))"

definition requestAccess ::
  "(string \<Rightarrow> string) \<Rightarrow> int \<Rightarrow> nat list \<Rightarrow> string \<Rightarrow> string \<Rightarrow> gateway_link \<Rightarrow> string \<Rightarrow> string option \<Rightarrow> string
     \<Rightarrow> js_value \<Rightarrow> js_value \<Rightarrow> access_service \<Rightarrow> access_service \<times> (access_error + access_request)" where
  "requestAccess sha now rnd salt uuid link uid email did integration scopes s =
     (if \<not> isIntegrationId integration then (s, Inl (Http_Error 404 ''Unknown integration''))
      else (let i = js_text integration; requested = js_elements scopes in
        if requested = [] then (s, Inl (Http_Error 400 ''Choose at least one scope''))
        else (case find (\<lambda>v. \<not> offered_scope i v) requested of
          Some v \<Rightarrow> (s, Inl (refused_scope i v))
        | None \<Rightarrow>
            (let clean = js_dedupe (map js_text requested); code = generateConfirmationCode rnd;
                 rid = ''req_'' @ uuid; expiresAt = toISOString (now + GRANT_REQUEST_TTL_MS);
                 command = request_command rid i clean uid email salt (cloud_hashConfirmationCode sha code salt) expiresAt;
                 s1 = send_command did ''integration.grant_request'' command s;
                 response = link ''integration.grant_request'' command in
             if \<not> cr_delivered response then (s1, Inl offline_error)
             else if \<not> cr_acknowledged response \<or> \<not> js_truthy (js_member (cr_payload response) ''success'')
             then (s1, Inl (refused_answer ''The workstation did not accept the request'' (cr_payload response)))
             else (let owner = (case map_of (ax_devices s1) did of None \<Rightarrow> [] | Some u \<Rightarrow> u);
                       s2 = upsert_grant now ((plain_record did owner i Gs_Pending)\<lparr>ir_scopes := clean,
                              ir_requestId := Some rid, ir_expiresAt := Some expiresAt\<rparr>) s1;
                       s3 = note_audit Actor_User uid did (''integration.'' @ i @ ''.requested'') Aud_Require_Approval s2
                   in (s3, Inr \<lparr>aq_requestId = rid, aq_confirmationCode = formatCode code, aq_expiresAt = expiresAt,
                               aq_scopes = clean\<rparr>))))))"

section \<open>Revoking\<close>

definition revoke_command :: "string \<Rightarrow> js_value" where
  "revoke_command i = JS_Object [(''integration'', JS_Str i)]"

definition purge :: "bool \<Rightarrow> string \<Rightarrow> string \<Rightarrow> access_service \<Rightarrow> access_service" where
  "purge ingesting did i s = (if ingesting then s\<lparr>ax_purged := ax_purged s @ [(did, i)]\<rparr> else s)"

text \<open>Revoking from the web: recorded as waiting when the workstation did not confirm it.\<close>

definition revoke_access ::
  "int \<Rightarrow> bool \<Rightarrow> gateway_link \<Rightarrow> string \<Rightarrow> string \<Rightarrow> js_value \<Rightarrow> access_service \<Rightarrow> access_service \<times> (access_error + bool)" where
  "revoke_access now ingesting link uid did integration s =
     (if \<not> isIntegrationId integration then (s, Inl (Http_Error 404 ''Unknown integration''))
      else (let i = js_text integration; s1 = send_command did ''integration.revoke'' (revoke_command i) s;
                response = link ''integration.revoke'' (revoke_command i);
                delivered = (cr_delivered response \<and> cr_acknowledged response \<and>
                  js_member (cr_payload response) ''success'' = JS_Bool True);
                owner = (case map_of (ax_devices s1) did of None \<Rightarrow> [] | Some u \<Rightarrow> u);
                s2 = upsert_grant now ((plain_record did owner i Gs_Revoked)\<lparr>ir_reason :=
                       Some (if delivered then ''Revoked from the web app'' else REVOKE_PENDING)\<rparr>) s1;
                s3 = purge ingesting did i s2
            in (note_audit Actor_User uid did (''integration.'' @ i @ ''.revoked'') Aud_Denied s3, Inr delivered)))"

fun deliver_each :: "int \<Rightarrow> gateway_link \<Rightarrow> string \<Rightarrow> grant_record list \<Rightarrow> access_service \<Rightarrow> access_service" where
  "deliver_each now link did [] s = s"
| "deliver_each now link did (r # rs) s =
     (let c = revoke_command (ir_integration r); s1 = send_command did ''integration.revoke'' c s;
          response = link ''integration.revoke'' c
      in deliver_each now link did rs
           (if cr_acknowledged response \<and> js_truthy (js_member (cr_payload response) ''success'')
            then upsert_grant now (r\<lparr>ir_reason := Some ''Revoked from the web app''\<rparr>) s1 else s1))"

definition deliverPendingRevokes :: "int \<Rightarrow> gateway_link \<Rightarrow> string \<Rightarrow> access_service \<Rightarrow> access_service" where
  "deliverPendingRevokes now link did s = deliver_each now link did (filter isRevokePending (listByDevice did s)) s"

section \<open>What a gateway reports\<close>

definition data_kinds :: "string list" where
  "data_kinds = [''history_summaries'', ''history_content'', ''usage_snapshot'', ''sync_failed'']"

fun grant_status_name :: "grant_status \<Rightarrow> string" where
  "grant_status_name Gs_Pending = ''pending''"
| "grant_status_name Gs_Active = ''active''"
| "grant_status_name Gs_Denied = ''denied''"
| "grant_status_name Gs_Revoked = ''revoked''"
| "grant_status_name Gs_Expired = ''expired''"

definition status_of :: "js_value \<Rightarrow> grant_status option" where
  "status_of v = find (\<lambda>st. v = JS_Str (grant_status_name st)) [Gs_Pending, Gs_Active, Gs_Denied, Gs_Revoked, Gs_Expired]"

text \<open>\<open>x ? String(x) : absent\<close>; the conversion may throw.\<close>

definition shown_text :: "js_value \<Rightarrow> access_error + string option" where
  "shown_text v =
     (if js_truthy v then (case js_String v of None \<Rightarrow> Inl Type_Error | Some t \<Rightarrow> Inr (Some t)) else Inr None)"

definition shown_roots :: "js_value \<Rightarrow> access_error + string list option" where
  "shown_roots v =
     (if is_array v
      then (case those (map js_String (js_elements v)) of None \<Rightarrow> Inl Type_Error | Some ts \<Rightarrow> Inr (Some (take 8 ts)))
      else Inr None)"

text \<open>The record made of a reported state; the owner is the device's, not one the gateway names.\<close>

definition reported_record :: "string \<Rightarrow> string \<Rightarrow> js_value \<Rightarrow> grant_status \<Rightarrow> access_error + grant_record" where
  "reported_record did owner state st =
     (case (shown_text (js_member state ''requestId''), shown_text (js_member state ''grantId''),
            shown_roots (js_member state ''roots''), shown_text (js_member state ''grantedAt''),
            shown_text (js_member state ''expiresAt''), shown_text (js_member state ''reason'')) of
        (Inr rid, Inr gid, Inr roots, Inr at, Inr until, Inr reason) \<Rightarrow>
          Inr ((plain_record did owner (js_text (js_member state ''integration'')) st)\<lparr>
            ir_scopes := map js_text (filter isIntegrationScope (js_elements (js_member state ''scopes''))),
            ir_requestId := rid, ir_grantId := gid, ir_roots := roots, ir_grantedAt := at, ir_expiresAt := until,
            ir_reason := map_option (take 300) reason\<rparr>)
      | _ \<Rightarrow> Inl Type_Error)"

definition grant_changed ::
  "int \<Rightarrow> bool \<Rightarrow> gateway_link \<Rightarrow> string \<Rightarrow> string \<Rightarrow> js_value \<Rightarrow> access_service \<Rightarrow> access_service \<times> (access_error + unit)" where
  "grant_changed now ingesting link did owner state s =
     (let i = js_text (js_member state ''integration'') in
      if \<not> js_truthy state \<or> \<not> isIntegrationId (js_member state ''integration'') then (s, Inr ())
      else (case status_of (js_member state ''status'') of
        None \<Rightarrow> (s, Inr ())
      | Some st \<Rightarrow>
          if (case find_grant did i s of None \<Rightarrow> False | Some r \<Rightarrow> isRevokePending r) \<and> st = Gs_Active
          then (deliverPendingRevokes now link did s, Inr ())
          else (case reported_record did owner state st of
            Inl err \<Rightarrow> (s, Inl err)
          | Inr r \<Rightarrow>
              (let s1 = upsert_grant now r s;
                   s2 = (if st = Gs_Revoked \<or> st = Gs_Expired then purge ingesting did i s1 else s1);
                   s3 = (if st \<noteq> Gs_Pending
                         then note_audit Actor_Device did did (''integration.'' @ i @ ''.'' @ grant_status_name st)
                                (if st = Gs_Active then Aud_Granted else Aud_Denied) s2
                         else s2)
               in (s3\<lparr>ax_notified := ax_notified s3 @ [(owner, state)]\<rparr>, Inr ())))))"

definition data_update ::
  "(js_value \<Rightarrow> js_value option) option \<Rightarrow> string \<Rightarrow> string \<Rightarrow> js_value \<Rightarrow> access_service \<Rightarrow> access_service" where
  "data_update ingest did owner payload s =
     (let integration = js_member payload ''integration'' in
      case ingest of
        None \<Rightarrow> s
      | Some f \<Rightarrow>
          if \<not> isIntegrationId integration then s
          else (case find_grant did (js_text integration) s of
            None \<Rightarrow> s
          | Some g \<Rightarrow>
              if ir_status g \<noteq> Gs_Active then s
              else (let s1 = s\<lparr>ax_ingested := ax_ingested s @ [(did, payload)]\<rparr> in
                case f payload of
                  None \<Rightarrow> s1
                | Some change \<Rightarrow> s1\<lparr>ax_notified := ax_notified s1 @ [(owner, change)]\<rparr>)))"

definition handleGatewayUpdate ::
  "int \<Rightarrow> (js_value \<Rightarrow> js_value option) option \<Rightarrow> gateway_link \<Rightarrow> string \<Rightarrow> js_value \<Rightarrow> access_service
     \<Rightarrow> access_service \<times> (access_error + unit)" where
  "handleGatewayUpdate now ingest link did payload s =
     (case map_of (ax_devices s) did of
        None \<Rightarrow> (s, Inr ())
      | Some owner \<Rightarrow>
          (let kind = js_member payload ''kind'' in
           if is_text kind \<and> js_text kind \<in> set data_kinds then (data_update ingest did owner payload s, Inr ())
           else if kind = JS_Str ''grant_changed''
           then grant_changed now (ingest \<noteq> None) link did owner (js_member payload ''state'') s
           else if kind = JS_Str ''access_refused'' \<and> isIntegrationId (js_member payload ''integration'')
           then (note_audit Actor_Device did did
                   (''integration.'' @ js_text (js_member payload ''integration'') @ ''.access_refused'') Aud_Deny s, Inr ())
           else (s, Inr ())))"

section \<open>Reading through the control plane\<close>

definition access_command ::
  "gateway_link \<Rightarrow> string \<Rightarrow> string \<Rightarrow> js_value \<Rightarrow> access_service \<Rightarrow> access_service \<times> (access_error + js_value)" where
  "access_command link did command payload s =
     (let s1 = send_command did command payload s; response = link command payload in
      if \<not> cr_delivered response then (s1, Inl offline_error)
      else if \<not> cr_acknowledged response \<or> \<not> js_truthy (js_member (cr_payload response) ''success'')
      then (s1, Inl (refused_answer ''The workstation could not do that'' (cr_payload response)))
      else (s1, Inr (js_member (cr_payload response) ''result'')))"

definition requestSync ::
  "gateway_link \<Rightarrow> string \<Rightarrow> js_value \<Rightarrow> access_service \<Rightarrow> access_service \<times> (access_error + js_value)" where
  "requestSync link did integration s =
     (if \<not> isIntegrationId integration then (s, Inl (Http_Error 404 ''Unknown integration''))
      else if (case find_grant did (js_text integration) s of None \<Rightarrow> True | Some r \<Rightarrow> ir_status r \<noteq> Gs_Active)
      then (s, Inl (Http_Error 409 ''Connect this integration before syncing it''))
      else access_command link did ''integration.sync'' (JS_Object [(''integration'', integration)]) s)"

record listed_integration =
  li_integration :: string
  li_record :: "grant_record option"
  li_revokePending :: bool

definition listForDevice :: "string \<Rightarrow> access_service \<Rightarrow> listed_integration list" where
  "listForDevice did s =
     map (\<lambda>i. let r = find (\<lambda>r. ir_integration r = i) (listByDevice did s)
              in \<lparr>li_integration = i, li_record = r, li_revokePending = (case r of None \<Rightarrow> False | Some r \<Rightarrow> isRevokePending r)\<rparr>)
       (map fst INTEGRATIONS)"

section \<open>The code shown is the code asked for\<close>

lemma alphabet_char: "c \<in> set CODE_ALPHABET \<Longrightarrow> code_char c = [c]"
proof -
  have "list_all (\<lambda>c. code_char c = [c]) CODE_ALPHABET" by code_simp
  then show "c \<in> set CODE_ALPHABET \<Longrightarrow> code_char c = [c]" by (simp add: list_all_iff)
qed

lemma normalise_plain: "set s \<subseteq> set CODE_ALPHABET \<Longrightarrow> concat (map code_char s) = s"
  by (induction s) (auto simp: alphabet_char)

lemma code_in_alphabet:
  assumes "\<forall>k \<in> set rnd. k < length CODE_ALPHABET"
  shows "set (generateConfirmationCode rnd) \<subseteq> set CODE_ALPHABET"
  using assms by (auto simp: generateConfirmationCode_def)

lemma shown_code:
  assumes "\<forall>k \<in> set rnd. k < length CODE_ALPHABET"
  shows "normaliseConfirmationCode (formatCode (generateConfirmationCode rnd)) = generateConfirmationCode rnd"
proof -
  let ?c = "generateConfirmationCode rnd"
  have "code_char (CHR ''-'') = []" by code_simp
  then have "normaliseConfirmationCode (formatCode ?c) = concat (map code_char (take 3 ?c)) @ concat (map code_char (drop 3 ?c))"
    by (simp add: normaliseConfirmationCode_def formatCode_def)
  also have "\<dots> = concat (map code_char ?c)" by (metis append_take_drop_id concat_append map_append)
  also have "\<dots> = ?c" by (rule normalise_plain [OF code_in_alphabet [OF assms]])
  finally show ?thesis .
qed

lemma offered_members: "offered_scope i v \<Longrightarrow> v = JS_Str (js_text v) \<and> map_of INTEGRATIONS i \<noteq> None"
  by (auto simp: offered_scope_def isIntegrationScope_def js_text_def split: option.splits)

lemma dedupe_offered:
  assumes "\<forall>v \<in> set vs. offered_scope i v"
  shows "find (\<lambda>v. \<not> offered_scope i v) (map JS_Str (js_dedupe (map js_text vs))) = None"
  using assms offered_members by (fastforce simp: find_None_iff)

lemma dedupe_again: "js_dedupe (js_dedupe xs) = js_dedupe xs"
  by (simp add: js_dedupe_def distinct_remdups_id)

lemma catalogue_id: "map_of INTEGRATIONS i \<noteq> None \<Longrightarrow> isIntegrationId (JS_Str i)"
  by (force simp: isIntegrationId_def is_text_def js_text_def dest!: map_of_SomeD)

lemma text_simps: "js_text (JS_Str x) = x" "is_text (JS_Str x)" "expiry_of parse (JS_Str x) = Inr (parse x)"
  by (simp_all add: js_text_def is_text_def expiry_of_def)

lemma command_members:
  "js_member (request_command rid i scopes uid email salt hash t) ''requestId'' = JS_Str rid"
  "js_member (request_command rid i scopes uid email salt hash t) ''integration'' = JS_Str i"
  "js_member (request_command rid i scopes uid email salt hash t) ''scopes'' = JS_Array (map JS_Str scopes)"
  "js_member (js_member (request_command rid i scopes uid email salt hash t) ''requestedBy'') ''userId'' = JS_Str uid"
  "js_member (js_member (request_command rid i scopes uid email salt hash t) ''confirmation'') ''salt'' = JS_Str salt"
  "js_member (js_member (request_command rid i scopes uid email salt hash t) ''confirmation'') ''sha256'' = JS_Str hash"
  "js_member (request_command rid i scopes uid email salt hash t) ''expiresAt'' = JS_Str t"
  by (simp_all add: request_command_def js_member_def js_field_def)

text \<open>A request the control plane made is sent as a command with its identifier, its scopes and the hash of its code.\<close>

lemma requestAccess_sent:
  assumes "requestAccess sha now rnd salt uuid link uid email did integration scopes s = (s', Inr a)"
  shows "\<exists>vs. js_elements scopes = vs \<and> vs \<noteq> [] \<and> (\<forall>v \<in> set vs. offered_scope (js_text integration) v) \<and>
    a = \<lparr>aq_requestId = ''req_'' @ uuid, aq_confirmationCode = formatCode (generateConfirmationCode rnd),
         aq_expiresAt = toISOString (now + GRANT_REQUEST_TTL_MS), aq_scopes = js_dedupe (map js_text vs)\<rparr> \<and>
    ax_sent s' = ax_sent s @ [(did, ''integration.grant_request'',
      request_command (''req_'' @ uuid) (js_text integration) (js_dedupe (map js_text vs)) uid email salt
        (cloud_hashConfirmationCode sha (generateConfirmationCode rnd) salt) (toISOString (now + GRANT_REQUEST_TTL_MS)))]"
  using assms
  by (auto simp: requestAccess_def Let_def send_command_def upsert_grant_def note_audit_def find_None_iff
      split: if_splits option.splits)

text \<open>
  C34: A request for access that the control plane made reaches the person it was shown to: the
  workstation takes the command sent, for the same scopes and account, as long as its clock is at most a
  minute behind and the time has not run out, and the code shown in the browser, however it is typed, is
  the code that the workstation asks for.
\<close>

theorem request_reaches_workstation:
  assumes req: "requestAccess (ws_sha ws) now rnd salt uuid link uid email did integration scopes s = (s', Inr a)"
    and random: "\<forall>k \<in> set rnd. k < length CODE_ALPHABET" "rnd \<noteq> []" "16 \<le> length salt"
      "4 \<le> length uuid" "length uuid \<le> 76" "list_all request_id_char uuid"
    and uid: "uid \<noteq> []" and sha: "\<forall>t. is_sha256_hex (ws_sha ws t)"
    and parse: "ws_parse ws (toISOString (now + GRANT_REQUEST_TTL_MS)) = Some (now + GRANT_REQUEST_TTL_MS)"
    and clock: "now - 60000 \<le> t" "t < now + GRANT_REQUEST_TTL_MS"
  shows "\<exists>payload q. last (ax_sent s') = (did, ''integration.grant_request'', payload) \<and>
    validateRequest ws t payload = Inr q \<and> rq_requestId q = aq_requestId a \<and> rq_scopes q = aq_scopes a \<and>
    rq_integration q = js_text integration \<and> rq_userId q = uid \<and> rq_expiresAt q = aq_expiresAt a \<and>
    normaliseConfirmationCode (aq_confirmationCode a) = generateConfirmationCode rnd \<and>
    (\<forall>typed. normaliseConfirmationCode typed = normaliseConfirmationCode (aq_confirmationCode a) \<longrightarrow>
       confirmationMatches (ws_sha ws) typed (rq_salt q) (rq_sha256 q))"
proof -
  let ?i = "js_text integration" let ?e = "now + GRANT_REQUEST_TTL_MS"
  let ?h = "cloud_hashConfirmationCode (ws_sha ws) (generateConfirmationCode rnd) salt"
  obtain vs where vs: "vs \<noteq> []" "\<forall>v \<in> set vs. offered_scope ?i v"
    and a: "a = \<lparr>aq_requestId = ''req_'' @ uuid, aq_confirmationCode = formatCode (generateConfirmationCode rnd),
         aq_expiresAt = toISOString ?e, aq_scopes = js_dedupe (map js_text vs)\<rparr>"
    and sent: "ax_sent s' = ax_sent s @ [(did, ''integration.grant_request'',
      request_command (''req_'' @ uuid) ?i (js_dedupe (map js_text vs)) uid email salt ?h (toISOString ?e))]"
    using requestAccess_sent [OF req] by blast
  let ?p = "request_command (''req_'' @ uuid) ?i (js_dedupe (map js_text vs)) uid email salt ?h (toISOString ?e)"
  obtain v where "v \<in> set vs" using vs(1) by (cases vs) auto
  then have id: "isIntegrationId (JS_Str ?i)" using vs(2) offered_members catalogue_id by blast
  have rid: "valid_request_id (JS_Str (''req_'' @ uuid))"
    using random by (simp add: valid_request_id_def is_text_def js_text_def request_id_char_def)
  have nonempty: "js_dedupe (map js_text vs) \<noteq> []" using vs(1) by (simp add: js_dedupe_def)
  have conf: "confirmation_ok (js_member ?p ''confirmation'')"
    using random(3) sha by (simp add: confirmation_ok_def command_members is_text_def js_text_def cloud_hashConfirmationCode_def)
  have texts: "map js_text (map JS_Str xs) = xs" for xs by (induction xs) (simp_all add: js_text_def)
  let ?em = "js_member (js_member ?p ''requestedBy'') ''email''"
  have "validateRequest ws t ?p = Inr \<lparr>rq_requestId = ''req_'' @ uuid, rq_integration = ?i,
      rq_scopes = js_dedupe (map js_text vs), rq_userId = uid, rq_email = (if is_text ?em then Some (js_text ?em) else None),
      rq_salt = salt, rq_sha256 = ?h, rq_expiresAt = toISOString ?e\<rparr>"
    using rid id nonempty conf dedupe_offered [OF vs(2)] parse clock uid
    unfolding validateRequest_def Let_def command_members js_elements_def
    by (simp add: text_simps texts [unfolded map_map] dedupe_again)
  then obtain q where q: "validateRequest ws t ?p = Inr q" "rq_requestId q = ''req_'' @ uuid" "rq_integration q = ?i"
    "rq_scopes q = js_dedupe (map js_text vs)" "rq_userId q = uid" "rq_salt q = salt" "rq_sha256 q = ?h"
    "rq_expiresAt q = toISOString ?e" by auto
  have shown: "normaliseConfirmationCode (aq_confirmationCode a) = generateConfirmationCode rnd"
    using shown_code [OF random(1)] a by simp
  have plain: "concat (map code_char (generateConfirmationCode rnd)) = generateConfirmationCode rnd"
    by (rule normalise_plain [OF code_in_alphabet [OF random(1)]])
  have "confirmationMatches (ws_sha ws) typed salt ?h" if "normaliseConfirmationCode typed = generateConfirmationCode rnd" for typed
  proof -
    have "typed \<noteq> []" using that random(2) by (auto simp: normaliseConfirmationCode_def generateConfirmationCode_def)
    moreover have "salt \<noteq> []" using random(3) by auto
    ultimately show ?thesis using that sha plain
      by (simp add: confirmationMatches_def hashConfirmationCode_def cloud_hashConfirmationCode_def)
  qed
  then show ?thesis using q sent shown a by (intro exI [of _ ?p] exI [of _ q]) simp
qed

definition toy_access :: access_service where
  "toy_access = \<lparr>ax_devices = [(''dev'', ''u'')], ax_grants = [], ax_sent = [], ax_audit = [], ax_ingested = [],
     ax_purged = [], ax_notified = []\<rparr>"

definition yes_link :: gateway_link where
  "yes_link = (\<lambda>_ _. \<lparr>cr_delivered = True, cr_acknowledged = True, cr_payload = JS_Object [(''success'', JS_Bool True)]\<rparr>)"

definition toy_cloud_ws :: workstation where
  "toy_cloud_ws = toy_ws\<lparr>ws_parse := (\<lambda>_. Some 600000)\<rparr>"

theorem request_reaches_workstation_witness:
  "\<exists>a s'. requestAccess (ws_sha toy_cloud_ws) 0 [0, 1, 2, 3, 4, 5] ''0123456789abcdef'' ''00ff'' yes_link ''u'' None ''dev''
       (JS_Str ''codex'') (JS_Array [JS_Str ''history.read'']) toy_access = (s', Inr a) \<and>
     aq_confirmationCode a = ''ABC-DEF'' \<and>
     (\<exists>payload q. last (ax_sent s') = (''dev'', ''integration.grant_request'', payload) \<and>
        validateRequest toy_cloud_ws 5 payload = Inr q \<and>
        confirmationMatches (ws_sha toy_cloud_ws) ''abc def'' (rq_salt q) (rq_sha256 q))"
proof -
  have i: "isIntegrationId (JS_Str ''codex'')" "find (\<lambda>s. \<not> offered_scope ''codex'' s) [JS_Str ''history.read''] = None" by code_simp+
  have code: "formatCode (generateConfirmationCode [0, 1, 2, 3, 4, 5]) = ''ABC-DEF''" by code_simp
  have bounds: "\<forall>k \<in> set [0, 1, 2, 3, 4, 5]. k < length CODE_ALPHABET" by (simp add: CODE_ALPHABET_def)
  have uuid: "list_all request_id_char ''00ff''" by code_simp
  have sha: "\<forall>t. is_sha256_hex (ws_sha toy_cloud_ws t)" using zeros_hex by (simp add: toy_cloud_ws_def toy_ws_def)
  have parse: "ws_parse toy_cloud_ws (toISOString (0 + GRANT_REQUEST_TTL_MS)) = Some (0 + GRANT_REQUEST_TTL_MS)"
    by (simp add: toy_cloud_ws_def GRANT_REQUEST_TTL_MS_def)
  obtain s' a where r: "requestAccess (ws_sha toy_cloud_ws) 0 [0, 1, 2, 3, 4, 5] ''0123456789abcdef'' ''00ff'' yes_link ''u'' None
      ''dev'' (JS_Str ''codex'') (JS_Array [JS_Str ''history.read'']) toy_access = (s', Inr a)" "aq_confirmationCode a = ''ABC-DEF''"
    using i code by (simp add: requestAccess_def js_text_def js_elements_def Let_def yes_link_def js_member_def js_field_def)
  have t: "normaliseConfirmationCode ''abc def'' = normaliseConfirmationCode ''ABC-DEF''" by code_simp
  from request_reaches_workstation [OF r(1) bounds _ _ _ _ uuid _ sha parse, of 5] r t show ?thesis
    by (fastforce simp: GRANT_REQUEST_TTL_MS_def)
qed

section \<open>Revocations that wait\<close>

definition access_ok :: "access_service \<Rightarrow> bool" where
  "access_ok s \<longleftrightarrow> entries_ok (\<lambda>(k, r). k = (ir_deviceId r, ir_integration r)) (ax_grants s)"

lemma upsert_ok: "access_ok s \<Longrightarrow> access_ok (upsert_grant now r s)"
  unfolding access_ok_def upsert_grant_def by (simp add: entries_ok_put)

lemma upsert_find: "find_grant d i (upsert_grant now r s) =
    (if d = ir_deviceId r \<and> i = ir_integration r then Some (r\<lparr>ir_updatedAt := now\<rparr>) else find_grant d i s)"
  by (auto simp: find_grant_def upsert_grant_def store_simps)

lemma other_fields:
  "find_grant d i (send_command d' c p s) = find_grant d i s" "find_grant d i (note_audit at aid did act dec s) = find_grant d i s"
  "find_grant d i (purge b d' j s) = find_grant d i s" "find_grant d i (s\<lparr>ax_notified := n\<rparr>) = find_grant d i s"
  "find_grant d i (s\<lparr>ax_ingested := g\<rparr>) = find_grant d i s"
  "ax_ingested (send_command d' c p s) = ax_ingested s" "ax_ingested (note_audit at aid did act dec s) = ax_ingested s"
  "ax_ingested (purge b d' j s) = ax_ingested s" "ax_ingested (upsert_grant now r s) = ax_ingested s"
  "ax_devices (send_command d' c p s) = ax_devices s" "ax_devices (note_audit at aid did act dec s) = ax_devices s"
  "ax_devices (purge b d' j s) = ax_devices s" "ax_devices (upsert_grant now r s) = ax_devices s"
  "access_ok (send_command d' c p s) = access_ok s" "access_ok (note_audit at aid did act dec s) = access_ok s"
  "access_ok (purge b d' j s) = access_ok s" "access_ok (s\<lparr>ax_notified := n\<rparr>) = access_ok s"
  "access_ok (s\<lparr>ax_ingested := g\<rparr>) = access_ok s"
  by (simp_all add: find_grant_def send_command_def note_audit_def purge_def upsert_grant_def access_ok_def)

text \<open>The gateway did not confirm a revocation.\<close>

definition unconfirmed :: "gateway_link \<Rightarrow> bool" where
  "unconfirmed link \<longleftrightarrow> (\<forall>p. \<not> (cr_acknowledged (link ''integration.revoke'' p) \<and>
     js_truthy (js_member (cr_payload (link ''integration.revoke'' p)) ''success'')))"

lemma deliver_each_find:
  assumes "unconfirmed link"
  shows "find_grant d i (deliver_each now link did rs s) = find_grant d i s \<and>
    ax_ingested (deliver_each now link did rs s) = ax_ingested s \<and>
    (access_ok s \<longrightarrow> access_ok (deliver_each now link did rs s)) \<and>
    ax_sent (deliver_each now link did rs s) =
      ax_sent s @ map (\<lambda>r. (did, ''integration.revoke'', revoke_command (ir_integration r))) rs"
proof (induction rs arbitrary: s)
  case (Cons r rs)
  have "\<not> (cr_acknowledged (link ''integration.revoke'' (revoke_command (ir_integration r))) \<and>
      js_truthy (js_member (cr_payload (link ''integration.revoke'' (revoke_command (ir_integration r)))) ''success''))"
    using assms by (simp add: unconfirmed_def)
  then have "deliver_each now link did (r # rs) s =
      deliver_each now link did rs (send_command did ''integration.revoke'' (revoke_command (ir_integration r)) s)"
    by (auto simp: Let_def)
  then show ?case using Cons.IH [of "send_command did ''integration.revoke'' (revoke_command (ir_integration r)) s"]
    by (simp add: other_fields) (simp add: send_command_def)
qed simp

text \<open>A report that does not, for this integration, say anything but that it is active.\<close>

definition tolerable :: "string \<Rightarrow> js_value \<Rightarrow> bool" where
  "tolerable i payload \<longleftrightarrow>
     js_member payload ''kind'' = JS_Str ''grant_changed'' \<and>
     js_text (js_member (js_member payload ''state'') ''integration'') = i \<longrightarrow>
     status_of (js_member (js_member payload ''state'') ''status'') \<in> {None, Some Gs_Active}"

definition data_for :: "string \<Rightarrow> js_value \<Rightarrow> bool" where
  "data_for i payload \<longleftrightarrow> js_text (js_member payload ''integration'') = i"

lemma reported_fields:
  "reported_record did owner state st = Inr r \<Longrightarrow>
     ir_deviceId r = did \<and> ir_integration r = js_text (js_member state ''integration'') \<and> ir_userId r = owner \<and> ir_status r = st"
  by (auto simp: reported_record_def plain_record_def split: sum.splits)

text \<open>What a reported state does: nothing, another delivery of the waiting revocations, or a new record.\<close>

definition same_but_notes :: "access_service \<Rightarrow> access_service \<Rightarrow> bool" where
  "same_but_notes s s' \<longleftrightarrow>
     ax_grants s' = ax_grants s \<and> ax_ingested s' = ax_ingested s \<and> ax_devices s' = ax_devices s \<and> ax_sent s' = ax_sent s"

lemma same_but_notesD:
  "same_but_notes s s' \<Longrightarrow> find_grant d i s' = find_grant d i s \<and> ax_ingested s' = ax_ingested s \<and> ax_devices s' = ax_devices s \<and>
     ax_sent s' = ax_sent s \<and> access_ok s' = access_ok s"
  by (simp add: same_but_notes_def find_grant_def access_ok_def)

lemma grant_changed_result:
  obtains (Ignored) "fst (grant_changed now b link did owner state s) = s"
  | (Again) r where "fst (grant_changed now b link did owner state s) = deliverPendingRevokes now link did s"
      "find_grant did (js_text (js_member state ''integration'')) s = Some r" "isRevokePending r"
  | (Recorded) r st where "reported_record did owner state st = Inr r" "status_of (js_member state ''status'') = Some st"
      "same_but_notes (upsert_grant now r s) (fst (grant_changed now b link did owner state s))"
proof -
  let ?i = "js_text (js_member state ''integration'')"
  let ?waiting = "case find_grant did ?i s of None \<Rightarrow> False | Some r \<Rightarrow> isRevokePending r"
  consider "\<not> js_truthy state \<or> \<not> isIntegrationId (js_member state ''integration'') \<or> status_of (js_member state ''status'') = None"
    | st where "js_truthy state" "isIntegrationId (js_member state ''integration'')" "status_of (js_member state ''status'') = Some st"
    by blast
  then show thesis
  proof cases
    case 1
    then have "fst (grant_changed now b link did owner state s) = s" by (auto simp: grant_changed_def Let_def)
    then show thesis by (rule Ignored)
  next
    case (2 st)
    show thesis
    proof (cases "?waiting \<and> st = Gs_Active")
      case True
      then have "fst (grant_changed now b link did owner state s) = deliverPendingRevokes now link did s"
        using 2 unfolding grant_changed_def Let_def by simp
      then show thesis using True Again by (auto split: option.splits)
    next
      case False
      show thesis
      proof (cases "reported_record did owner state st")
        case (Inl err)
        then have "fst (grant_changed now b link did owner state s) = s" using 2 False unfolding grant_changed_def Let_def by auto
        then show thesis by (rule Ignored)
      next
        case (Inr r)
        then have "same_but_notes (upsert_grant now r s) (fst (grant_changed now b link did owner state s))"
          using 2 False unfolding grant_changed_def Let_def by (auto simp: same_but_notes_def purge_def note_audit_def)
        then show thesis using Recorded Inr 2 by blast
      qed
    qed
  qed
qed

lemma waiting_step:
  assumes "find_grant did i s = Some r" "isRevokePending r" "unconfirmed link" "tolerable i payload"
  shows "find_grant did i (fst (handleGatewayUpdate now ingest link did payload s)) = Some r \<and>
    (\<forall>p. data_for i p \<longrightarrow> count_list (ax_ingested (fst (handleGatewayUpdate now ingest link did payload s))) (did, p) =
       count_list (ax_ingested s) (did, p))"
proof (cases "map_of (ax_devices s) did")
  case None
  then show ?thesis using assms(1) by (simp add: handleGatewayUpdate_def)
next
  case (Some owner)
  let ?kind = "js_member payload ''kind''"
  consider (Data) "is_text ?kind \<and> js_text ?kind \<in> set data_kinds"
    | (Grant) "\<not> (is_text ?kind \<and> js_text ?kind \<in> set data_kinds)" "?kind = JS_Str ''grant_changed''"
    | (Other) "\<not> (is_text ?kind \<and> js_text ?kind \<in> set data_kinds)" "?kind \<noteq> JS_Str ''grant_changed''" by blast
  then show ?thesis
  proof cases
    case Data
    have st: "ir_status r \<noteq> Gs_Active" using assms(2) by (simp add: isRevokePending_def)
    have "fst (handleGatewayUpdate now ingest link did payload s) = data_update ingest did owner payload s"
      using Some Data by (simp add: handleGatewayUpdate_def Let_def)
    moreover have "find_grant did i (data_update ingest did owner payload s) = Some r"
      using assms(1) by (auto simp: data_update_def Let_def other_fields split: option.split)
    moreover have "count_list (ax_ingested (data_update ingest did owner payload s)) (did, p) = count_list (ax_ingested s) (did, p)"
      if "data_for i p" for p
    proof (cases "js_text (js_member payload ''integration'') = i")
      case True
      then show ?thesis using assms(1) st by (auto simp: data_update_def Let_def split: option.split)
    next
      case False
      then have "p \<noteq> payload" using that by (auto simp: data_for_def)
      then show ?thesis by (auto simp: data_update_def Let_def split: option.split)
    qed
    ultimately show ?thesis by simp
  next
    case Grant
    let ?st = "js_member payload ''state''"
    have u: "fst (handleGatewayUpdate now ingest link did payload s) = fst (grant_changed now (ingest \<noteq> None) link did owner ?st s)"
      using Some Grant unfolding handleGatewayUpdate_def Let_def by (simp only: option.case if_False if_True simp_thms)
    show ?thesis
    proof (cases rule: grant_changed_result [of now "ingest \<noteq> None" link did owner ?st s])
      case Ignored
      then show ?thesis using assms(1) unfolding u by simp
    next
      case (Again r')
      then show ?thesis using assms(1) deliver_each_find [OF assms(3)] unfolding u by (simp add: deliverPendingRevokes_def)
    next
      case (Recorded r' st)
      have "\<not> (js_text (js_member ?st ''integration'') = i \<and> st = Gs_Active)"
      proof
        assume i: "js_text (js_member ?st ''integration'') = i \<and> st = Gs_Active"
        have "fst (grant_changed now (ingest \<noteq> None) link did owner ?st s) = deliverPendingRevokes now link did s \<or>
            fst (grant_changed now (ingest \<noteq> None) link did owner ?st s) = s"
          using i Recorded(2) assms(1,2) unfolding grant_changed_def Let_def by auto
        then have "find_grant did i (fst (grant_changed now (ingest \<noteq> None) link did owner ?st s)) = Some r"
          using assms(1) deliver_each_find [OF assms(3)] by (auto simp: deliverPendingRevokes_def)
        moreover have "ir_status r \<noteq> Gs_Active" using assms(2) by (simp add: isRevokePending_def)
        ultimately show False using same_but_notesD [OF Recorded(3), of did i] reported_fields [OF Recorded(1)] i
          by (auto simp: upsert_find)
      qed
      moreover have "js_text (js_member ?st ''integration'') = i \<Longrightarrow> st = Gs_Active"
        using assms(4) Grant Recorded(2) by (auto simp: tolerable_def)
      ultimately have "js_text (js_member ?st ''integration'') \<noteq> i" by blast
      then show ?thesis using same_but_notesD [OF Recorded(3), of did i] reported_fields [OF Recorded(1)] assms(1) unfolding u
        by (simp add: upsert_find other_fields)
    qed
  next
    case Other
    then have "fst (handleGatewayUpdate now ingest link did payload s) = s \<or>
        (\<exists>act dec. fst (handleGatewayUpdate now ingest link did payload s) = note_audit Actor_Device did did act dec s)"
      using Some by (auto simp: handleGatewayUpdate_def Let_def)
    then show ?thesis using assms(1) by (auto simp: other_fields)
  qed
qed

record update_event =
  ue_now :: int
  ue_link :: gateway_link
  ue_payload :: js_value

definition receive_all ::
  "(js_value \<Rightarrow> js_value option) option \<Rightarrow> string \<Rightarrow> update_event list \<Rightarrow> access_service \<Rightarrow> access_service" where
  "receive_all ingest did us s = foldl (\<lambda>s u. fst (handleGatewayUpdate (ue_now u) ingest (ue_link u) did (ue_payload u) s)) s us"

text \<open>
  C35: A revocation made while the workstation cannot be reached holds: until the workstation confirms
  it, whatever the gateway sends - other than a report that the grant is pending, denied, expired or
  revoked - the record stays revoked and no data of the integration is taken in.
\<close>

theorem waiting_revocation_holds:
  assumes "revoke_access now ingesting link uid did integration s = (s0, Inr False)"
    and "list_all (\<lambda>u. unconfirmed (ue_link u) \<and> tolerable (js_text integration) (ue_payload u)) us"
    and "data_for (js_text integration) p"
  shows "(\<exists>r. find_grant did (js_text integration) (receive_all ingest did us s0) = Some r \<and> isRevokePending r) \<and>
    count_list (ax_ingested (receive_all ingest did us s0)) (did, p) = count_list (ax_ingested s) (did, p)"
proof -
  let ?i = "js_text integration"
  have "find_grant did ?i (receive_all ingest did us s1) = Some r \<and>
      count_list (ax_ingested (receive_all ingest did us s1)) (did, p) = count_list (ax_ingested s1) (did, p)"
    if "find_grant did ?i s1 = Some r" "isRevokePending r" for s1 r
    using that assms(2)
  proof (induction us arbitrary: s1)
    case (Cons u us)
    let ?s = "fst (handleGatewayUpdate (ue_now u) ingest (ue_link u) did (ue_payload u) s1)"
    have "unconfirmed (ue_link u)" "tolerable ?i (ue_payload u)" using Cons.prems(3) by simp_all
    note w = waiting_step [OF Cons.prems(1,2) this, of "ue_now u" ingest]
    then have "find_grant did ?i (receive_all ingest did us ?s) = Some r \<and>
        count_list (ax_ingested (receive_all ingest did us ?s)) (did, p) = count_list (ax_ingested ?s) (did, p)"
      using Cons.prems(2,3) by (intro Cons.IH) auto
    moreover have "receive_all ingest did (u # us) s1 = receive_all ingest did us ?s" by (simp add: receive_all_def)
    ultimately show ?case using w assms(3) by simp
  qed (simp add: receive_all_def)
  moreover have "\<exists>r. find_grant did ?i s0 = Some r \<and> isRevokePending r" "ax_ingested s0 = ax_ingested s"
    using assms(1) by (auto simp: revoke_access_def Let_def other_fields upsert_find plain_record_def isRevokePending_def split: if_splits)
  ultimately show ?thesis by metis
qed

definition no_link :: gateway_link where
  "no_link = (\<lambda>_ _. \<lparr>cr_delivered = False, cr_acknowledged = False, cr_payload = JS_Undefined\<rparr>)"

definition report :: "string \<Rightarrow> grant_status \<Rightarrow> js_value" where
  "report i st = JS_Object [(''kind'', JS_Str ''grant_changed''), (''state'', JS_Object
     [(''integration'', JS_Str i), (''status'', JS_Str (grant_status_name st)), (''scopes'', JS_Array [])])]"

lemma report_members:
  "js_member (report i st) ''kind'' = JS_Str ''grant_changed''"
  "js_member (js_member (report i st) ''state'') ''integration'' = JS_Str i"
  "js_member (js_member (report i st) ''state'') ''status'' = JS_Str (grant_status_name st)"
  by (simp_all add: report_def js_member_def js_field_def)

lemma report_status: "status_of (JS_Str (grant_status_name st)) = Some st"
  by (cases st) (simp_all add: status_of_def)

lemma toy_revoked: "\<exists>s0. revoke_access 1 True no_link ''u'' ''dev'' (JS_Str ''codex'') toy_access = (s0, Inr False)"
proof -
  have "isIntegrationId (JS_Str ''codex'')" by code_simp
  then show ?thesis by (simp add: revoke_access_def Let_def no_link_def)
qed

theorem waiting_revocation_holds_witness:
  "\<exists>s0 r. revoke_access 1 True no_link ''u'' ''dev'' (JS_Str ''codex'') toy_access = (s0, Inr False) \<and>
    find_grant ''dev'' ''codex'' (receive_all None ''dev''
      [\<lparr>ue_now = 2, ue_link = no_link, ue_payload = report ''codex'' Gs_Active\<rparr>] s0) = Some r \<and> isRevokePending r"
proof -
  obtain s0 where s0: "revoke_access 1 True no_link ''u'' ''dev'' (JS_Str ''codex'') toy_access = (s0, Inr False)"
    using toy_revoked by blast
  let ?us = "[\<lparr>ue_now = 2, ue_link = no_link, ue_payload = report ''codex'' Gs_Active\<rparr>]"
  have "list_all (\<lambda>u. unconfirmed (ue_link u) \<and> tolerable (js_text (JS_Str ''codex'')) (ue_payload u)) ?us"
    using report_status [of Gs_Active] by (simp add: unconfirmed_def no_link_def tolerable_def report_members)
  from waiting_revocation_holds [OF s0 this, of "JS_Object [(''integration'', JS_Str ''codex'')]" None] s0 show ?thesis
    by (auto simp: data_for_def js_member_def js_field_def js_text_def)
qed

text \<open>
  A revocation that waits is lost when the gateway reports that a request for the same integration
  expired, was denied or is pending: the record is overwritten, nothing is delivered any more, and the next
  report that the grant is active makes it active again.
\<close>

theorem waiting_revocation_lost:
  assumes "map_of (ax_devices s) did = Some owner" "find_grant did i s = Some r" "isRevokePending r"
    and "map_of INTEGRATIONS i \<noteq> None" "st \<in> {Gs_Expired, Gs_Denied, Gs_Pending}"
  shows "let s1 = fst (handleGatewayUpdate t1 ingest link1 did (report i st) s);
             s2 = fst (handleGatewayUpdate t2 ingest link2 did (report i Gs_Active) s1)
         in (\<exists>r1. find_grant did i s1 = Some r1 \<and> \<not> isRevokePending r1) \<and>
            (\<exists>r2. find_grant did i s2 = Some r2 \<and> ir_status r2 = Gs_Active) \<and> ax_sent s2 = ax_sent s"
proof -
  have step: "find_grant did i (fst (handleGatewayUpdate t ingest link did (report i st') s')) =
        Some ((plain_record did owner i st')\<lparr>ir_updatedAt := t\<rparr>) \<and>
      ax_sent (fst (handleGatewayUpdate t ingest link did (report i st') s')) = ax_sent s' \<and>
      ax_devices (fst (handleGatewayUpdate t ingest link did (report i st') s')) = ax_devices s'"
    if d: "map_of (ax_devices s') did = Some owner"
      and w: "\<not> ((case find_grant did i s' of None \<Rightarrow> False | Some r \<Rightarrow> isRevokePending r) \<and> st' = Gs_Active)"
    for t link st' s'
  proof -
    let ?st = "js_member (report i st') ''state''"
    have k: "\<not> js_text (JS_Str ''grant_changed'') \<in> set data_kinds" by (simp add: text_simps data_kinds_def)
    have h: "fst (handleGatewayUpdate t ingest link did (report i st') s') = fst (grant_changed t (ingest \<noteq> None) link did owner ?st s')"
      using d k unfolding handleGatewayUpdate_def Let_def report_members by simp
    have id: "isIntegrationId (JS_Str i)" by (rule catalogue_id [OF assms(4)])
    have rec: "reported_record did owner ?st st' = Inr (plain_record did owner i st')"
      by (simp add: reported_record_def report_def js_member_def js_field_def js_elements_def shown_text_def shown_roots_def
          is_array_def text_simps plain_record_def)
    have tr: "js_truthy ?st" by (simp add: report_def js_member_def js_field_def)
    have "same_but_notes (upsert_grant t (plain_record did owner i st') s') (fst (grant_changed t (ingest \<noteq> None) link did owner ?st s'))"
      using id rec tr w report_status [of st'] unfolding grant_changed_def Let_def report_members text_simps
      by (auto simp: same_but_notes_def purge_def note_audit_def)
    from same_but_notesD [OF this, of did i] show ?thesis unfolding h
      by (simp add: upsert_find plain_record_def) (simp add: upsert_grant_def)
  qed
  let ?s1 = "fst (handleGatewayUpdate t1 ingest link1 did (report i st) s)"
  note a = step [OF assms(1), of st t1 link1]
  have np: "\<not> isRevokePending ((plain_record did owner i st)\<lparr>ir_updatedAt := t1\<rparr>)"
    by (simp add: isRevokePending_def plain_record_def)
  have a1: "find_grant did i ?s1 = Some ((plain_record did owner i st)\<lparr>ir_updatedAt := t1\<rparr>)" "ax_sent ?s1 = ax_sent s"
    "map_of (ax_devices ?s1) did = Some owner"
    using a assms(1,5) by auto
  have b: "\<not> ((case find_grant did i ?s1 of None \<Rightarrow> False | Some r \<Rightarrow> isRevokePending r) \<and> Gs_Active = Gs_Active)"
    using a1(1) np by simp
  from step [OF a1(3) b, of t2 link2] a1 np show ?thesis by (simp add: Let_def plain_record_def)
qed

theorem waiting_revocation_lost_witness:
  "\<exists>s0 r. revoke_access 1 True no_link ''u'' ''dev'' (JS_Str ''codex'') toy_access = (s0, Inr False) \<and>
    find_grant ''dev'' ''codex'' (fst (handleGatewayUpdate 3 None no_link ''dev'' (report ''codex'' Gs_Active)
      (fst (handleGatewayUpdate 2 None no_link ''dev'' (report ''codex'' Gs_Expired) s0)))) = Some r \<and> ir_status r = Gs_Active"
proof -
  have "isIntegrationId (JS_Str ''codex'')" by code_simp
  then obtain s0 where s0: "revoke_access 1 True no_link ''u'' ''dev'' (JS_Str ''codex'') toy_access = (s0, Inr False)"
    "map_of (ax_devices s0) ''dev'' = Some ''u''" "\<exists>r. find_grant ''dev'' ''codex'' s0 = Some r \<and> isRevokePending r"
    by (simp add: revoke_access_def Let_def no_link_def other_fields upsert_find plain_record_def isRevokePending_def text_simps
        toy_access_def js_member_def)
  then obtain r where "find_grant ''dev'' ''codex'' s0 = Some r" "isRevokePending r" by blast
  moreover have "map_of INTEGRATIONS ''codex'' \<noteq> None" by (simp add: INTEGRATIONS_def)
  ultimately show ?thesis
    using waiting_revocation_lost [OF s0(2), of "''codex''" r Gs_Expired 2 None no_link 3 no_link] s0(1) by (auto simp: Let_def)
qed

end
