(* ===== verification/RegExp.thy ===== *)
theory RegExp
  imports Prelude
begin

text \<open>
  JavaScript's regular expressions, as far as the program uses them: classes of characters,
  alternatives, greedy and lazy repetition, anchors, word boundaries and negative lookahead.  The
  matcher lists every way to match from a position in the order backtracking tries them, so the head
  of the list is the match \<open>exec\<close> reports; \<open>rx_rel\<close> is what a pattern means, and the two agree.
\<close>

section \<open>Patterns\<close>

datatype rx =
    REps
  | RChr "char \<Rightarrow> bool"
  | RSeq rx rx
  | RAlt rx rx
  | RStar rx
  | RLazy rx
  | RBol
  | REol
  | RWordb
  | RNotAhead rx

text \<open>A position: the character before it, and what follows.\<close>

type_synonym pos = "char option \<times> string"

definition word_char :: "char \<Rightarrow> bool" where
  "word_char c \<longleftrightarrow>
     (let n = (of_char c :: nat) in (48 \<le> n \<and> n \<le> 57) \<or> (65 \<le> n \<and> n \<le> 90) \<or> n = 95 \<or> (97 \<le> n \<and> n \<le> 122))"

definition word_before :: "pos \<Rightarrow> bool" where
  "word_before p \<longleftrightarrow> (case fst p of None \<Rightarrow> False | Some c \<Rightarrow> word_char c)"

definition word_after :: "pos \<Rightarrow> bool" where
  "word_after p \<longleftrightarrow> (case snd p of [] \<Rightarrow> False | c # _ \<Rightarrow> word_char c)"

fun step_chr :: "(char \<Rightarrow> bool) \<Rightarrow> pos \<Rightarrow> pos list" where
  "step_chr P (b, []) = []"
| "step_chr P (b, c # s) = (if P c then [(Some c, s)] else [])"

text \<open>
  Repetition.  An iteration that consumes nothing is given up, so as many rounds as characters are
  left are enough.
\<close>

definition progress :: "pos \<Rightarrow> pos list \<Rightarrow> pos list" where
  "progress p qs = filter (\<lambda>q. length (snd q) < length (snd p)) qs"

fun greedy :: "(pos \<Rightarrow> pos list) \<Rightarrow> nat \<Rightarrow> pos \<Rightarrow> pos list" where
  "greedy f 0 p = [p]"
| "greedy f (Suc n) p = concat (map (greedy f n) (progress p (f p))) @ [p]"

fun lazy :: "(pos \<Rightarrow> pos list) \<Rightarrow> nat \<Rightarrow> pos \<Rightarrow> pos list" where
  "lazy f 0 p = [p]"
| "lazy f (Suc n) p = p # concat (map (lazy f n) (progress p (f p)))"

primrec rx_run :: "rx \<Rightarrow> pos \<Rightarrow> pos list" where
  "rx_run REps p = [p]"
| "rx_run (RChr P) p = step_chr P p"
| "rx_run (RSeq a b) p = concat (map (rx_run b) (rx_run a p))"
| "rx_run (RAlt a b) p = rx_run a p @ rx_run b p"
| "rx_run (RStar a) p = greedy (rx_run a) (length (snd p)) p"
| "rx_run (RLazy a) p = lazy (rx_run a) (length (snd p)) p"
| "rx_run RBol p = (if fst p = None then [p] else [])"
| "rx_run REol p = (if snd p = [] then [p] else [])"
| "rx_run RWordb p = (if word_before p \<noteq> word_after p then [p] else [])"
| "rx_run (RNotAhead a) p = (if rx_run a p = [] then [p] else [])"

text \<open>\<open>exec\<close>: the leftmost match, as the number of characters skipped and its length.\<close>

fun rx_exec :: "rx \<Rightarrow> char option \<Rightarrow> string \<Rightarrow> (nat \<times> nat) option" where
  "rx_exec r b s =
     (case rx_run r (b, s) of
        q # _ \<Rightarrow> Some (0, length s - length (snd q))
      | [] \<Rightarrow> (case s of
            [] \<Rightarrow> None
          | c # t \<Rightarrow> map_option (\<lambda>(i, n). (Suc i, n)) (rx_exec r (Some c) t)))"

declare rx_exec.simps [simp del]

definition rx_test :: "rx \<Rightarrow> string \<Rightarrow> bool" where
  "rx_test r s \<longleftrightarrow> rx_exec r None s \<noteq> None"

text \<open>
  Under the flag \<open>i\<close> both sides are compared in one case; patterns with that flag are written in lower
  case.
\<close>

definition rx_test_i :: "rx \<Rightarrow> string \<Rightarrow> bool" where
  "rx_test_i r s \<longleftrightarrow> rx_test r (js_lower s)"

section \<open>Building patterns\<close>

primrec RSeqs :: "rx list \<Rightarrow> rx" where
  "RSeqs [] = REps"
| "RSeqs (r # rs) = RSeq r (RSeqs rs)"

text \<open>Alternatives; there is always a first.\<close>

fun RAlts :: "rx list \<Rightarrow> rx" where
  "RAlts [] = RChr (\<lambda>c. False)"
| "RAlts [r] = r"
| "RAlts (r # rs) = RAlt r (RAlts rs)"

definition ROpt :: "rx \<Rightarrow> rx" where
  "ROpt r = RAlt r REps"

definition RPlus :: "rx \<Rightarrow> rx" where
  "RPlus r = RSeq r (RStar r)"

primrec RTimes :: "nat \<Rightarrow> rx \<Rightarrow> rx" where
  "RTimes 0 r = REps"
| "RTimes (Suc n) r = RSeq r (RTimes n r)"

definition RAtLeast :: "nat \<Rightarrow> rx \<Rightarrow> rx" where
  "RAtLeast n r = RSeq (RTimes n r) (RStar r)"

definition RLit :: "string \<Rightarrow> rx" where
  "RLit s = RSeqs (map (\<lambda>c. RChr (\<lambda>d. d = c)) s)"

definition RIn :: "string \<Rightarrow> rx" where
  "RIn cs = RChr (\<lambda>c. c \<in> set cs)"

definition RNotIn :: "string \<Rightarrow> rx" where
  "RNotIn cs = RChr (\<lambda>c. c \<notin> set cs)"

definition RSpace :: rx where
  "RSpace = RChr js_ws"

definition RAny :: rx where
  "RAny = RChr (\<lambda>c. True)"

text \<open>The dot: anything but a line terminator.\<close>

definition RDot :: rx where
  "RDot = RNotIn [CHR 0x0A, CHR 0x0D]"

definition between :: "char \<Rightarrow> char \<Rightarrow> char \<Rightarrow> bool" where
  "between a b c \<longleftrightarrow> (of_char a :: nat) \<le> of_char c \<and> (of_char c :: nat) \<le> of_char b"

definition lower_char :: "char \<Rightarrow> bool" where
  "lower_char = between (CHR ''a'') (CHR ''z'')"

definition upper_char :: "char \<Rightarrow> bool" where
  "upper_char = between (CHR ''A'') (CHR ''Z'')"

definition digit_char_rx :: "char \<Rightarrow> bool" where
  "digit_char_rx = between (CHR ''0'') (CHR ''9'')"

definition alnum_char :: "char \<Rightarrow> bool" where
  "alnum_char c \<longleftrightarrow> lower_char c \<or> upper_char c \<or> digit_char_rx c"

section \<open>What a pattern means\<close>

primrec rx_rel :: "rx \<Rightarrow> (pos \<times> pos) set" where
  "rx_rel REps = Id"
| "rx_rel (RChr P) = {((b, c # s), (Some c, s)) | b c s. P c}"
| "rx_rel (RSeq a b) = rx_rel a O rx_rel b"
| "rx_rel (RAlt a b) = rx_rel a \<union> rx_rel b"
| "rx_rel (RStar a) = (rx_rel a)\<^sup>*"
| "rx_rel (RLazy a) = (rx_rel a)\<^sup>*"
| "rx_rel RBol = {(p, p) | p. fst p = None}"
| "rx_rel REol = {(p, p) | p. snd p = []}"
| "rx_rel RWordb = {(p, p) | p. word_before p \<noteq> word_after p}"
| "rx_rel (RNotAhead a) = {(p, p) | p. p \<notin> Domain (rx_rel a)}"

definition advances :: "(pos \<times> pos) set \<Rightarrow> bool" where
  "advances R \<longleftrightarrow> (\<forall>(p, q) \<in> R. q = p \<or> length (snd q) < length (snd p))"

lemma advances_rtrancl:
  assumes "advances R"
  shows "advances (R\<^sup>*)"
proof -
  have "q = p \<or> length (snd q) < length (snd p)" if "(p, q) \<in> R\<^sup>*" for p q
    using that
  proof (induction rule: rtrancl_induct)
    case base
    show ?case by simp
  next
    case (step y z)
    with assms show ?case unfolding advances_def by fastforce
  qed
  then show ?thesis unfolding advances_def by blast
qed

lemma rx_rel_advances: "advances (rx_rel r)"
proof (induction r)
  case (RSeq a b)
  have "q = p \<or> length (snd q) < length (snd p)" if "(p, q) \<in> rx_rel a O rx_rel b" for p q
  proof -
    from that obtain m where m: "(p, m) \<in> rx_rel a" "(m, q) \<in> rx_rel b" by blast
    from RSeq(1) m(1) have a: "m = p \<or> length (snd m) < length (snd p)" unfolding advances_def by blast
    from RSeq(2) m(2) have b: "q = m \<or> length (snd q) < length (snd m)" unfolding advances_def by blast
    from a b show ?thesis by auto
  qed
  then show ?case unfolding advances_def rx_rel.simps by blast
next
  case (RStar a)
  then show ?case by (simp add: advances_rtrancl)
next
  case (RLazy a)
  then show ?case by (simp add: advances_rtrancl)
qed (auto simp: advances_def)

text \<open>Iterations that consume nothing can be left out, and no more than the text's length remain.\<close>

lemma rounds_reach:
  assumes f: "\<And>p. set (f p) = R `` {p}" and R: "advances R"
    and g: "\<And>p. set (g 0 p) = {p}"
      "\<And>n p. set (g (Suc n) p) = insert p (\<Union>q \<in> set (progress p (f p)). set (g n q))"
    and n: "length (snd p) \<le> n"
  shows "set (g n p) = R\<^sup>* `` {p}"
  using n
proof (induction n arbitrary: p)
  case 0
  have "q = p" if "(p, q) \<in> R\<^sup>*" for q
    using advances_rtrancl [OF R] that 0 unfolding advances_def by fastforce
  then show ?case using g(1) by auto
next
  case (Suc n)
  have split: "q = p \<or> (\<exists>p'. (p, p') \<in> R \<and> length (snd p') < length (snd p) \<and> (p', q) \<in> R\<^sup>*)"
    if "(p, q) \<in> R\<^sup>*" for q
    using that
  proof (induction rule: converse_rtrancl_induct)
    case base
    show ?case by simp
  next
    case (step y z)
    with R show ?case unfolding advances_def by fastforce
  qed
  have IH: "set (g n q) = R\<^sup>* `` {q}" if "q \<in> set (progress p (f p))" for q
    using Suc that by (auto simp: progress_def)
  have "set (g (Suc n) p) = insert p (\<Union>q \<in> set (progress p (f p)). R\<^sup>* `` {q})"
    using g(2) IH by auto
  also have "\<dots> = R\<^sup>* `` {p}"
  proof (intro set_eqI iffI)
    fix q assume "q \<in> insert p (\<Union>q \<in> set (progress p (f p)). R\<^sup>* `` {q})"
    then show "q \<in> R\<^sup>* `` {p}" using f by (auto simp: progress_def intro: converse_rtrancl_into_rtrancl)
  next
    fix q assume "q \<in> R\<^sup>* `` {p}"
    then have "(p, q) \<in> R\<^sup>*" by simp
    from split [OF this] show "q \<in> insert p (\<Union>q \<in> set (progress p (f p)). R\<^sup>* `` {q})"
      using f by (auto simp: progress_def)
  qed
  finally show ?case .
qed

theorem rx_run_rel: "set (rx_run r p) = rx_rel r `` {p}"
proof (induction r arbitrary: p)
  case (RChr P)
  show ?case by (cases "(P, p)" rule: step_chr.cases) auto
next
  case (RSeq a b)
  then show ?case by auto
next
  case (RStar a)
  show ?case
    unfolding rx_run.simps rx_rel.simps
    by (rule rounds_reach [where f = "rx_run a" and g = "greedy (rx_run a)"])
      (use RStar rx_rel_advances in auto)
next
  case (RLazy a)
  show ?case
    unfolding rx_run.simps rx_rel.simps
    by (rule rounds_reach [where f = "rx_run a" and g = "lazy (rx_run a)"])
      (use RLazy rx_rel_advances in auto)
next
  case (RNotAhead a)
  have "rx_run a p = [] \<longleftrightarrow> p \<notin> Domain (rx_rel a)"
    using RNotAhead [of p] by (auto simp flip: set_empty)
  then show ?case by auto
qed auto

section \<open>Positions of matches\<close>

definition char_before :: "char option \<Rightarrow> string \<Rightarrow> nat \<Rightarrow> char option" where
  "char_before b s i = (case i of 0 \<Rightarrow> b | Suc j \<Rightarrow> Some (s ! j))"

definition matches_at :: "rx \<Rightarrow> char option \<Rightarrow> string \<Rightarrow> nat \<Rightarrow> bool" where
  "matches_at r b s i \<longleftrightarrow> rx_run r (char_before b s i, drop i s) \<noteq> []"

lemma matches_at_0 [simp]: "matches_at r b s 0 \<longleftrightarrow> rx_run r (b, s) \<noteq> []"
  by (simp add: matches_at_def char_before_def)

lemma matches_at_Suc [simp]: "matches_at r b (c # s) (Suc i) \<longleftrightarrow> matches_at r (Some c) s i"
  by (cases i) (simp_all add: matches_at_def char_before_def)

lemma rx_rel_suffix:
  assumes "(p, q) \<in> rx_rel r"
  shows "suffix (snd q) (snd p)"
  using assms
proof (induction r arbitrary: p q)
  case (RSeq a b)
  then obtain m where "(p, m) \<in> rx_rel a" "(m, q) \<in> rx_rel b" by auto
  with RSeq.IH show ?case by (meson suffix_order.order_trans)
next
  case (RStar a)
  from RStar.prems have "(p, q) \<in> (rx_rel a)\<^sup>*" by simp
  then show ?case
    by (induction rule: rtrancl_induct) (use RStar.IH suffix_order.order_trans in blast)+
next
  case (RLazy a)
  from RLazy.prems have "(p, q) \<in> (rx_rel a)\<^sup>*" by simp
  then show ?case
    by (induction rule: rtrancl_induct) (use RLazy.IH suffix_order.order_trans in blast)+
qed (auto simp: suffix_def)

lemma suffix_is_drop: "suffix t s \<Longrightarrow> t = drop (length s - length t) s"
  by (auto simp: suffix_def)

lemma rx_run_suffix: "q \<in> set (rx_run r p) \<Longrightarrow> suffix (snd q) (snd p)"
  using rx_run_rel rx_rel_suffix by blast

lemma rx_exec_None: "rx_exec r b s = None \<longleftrightarrow> (\<forall>i \<le> length s. \<not> matches_at r b s i)"
proof (induction s arbitrary: b)
  case Nil
  show ?case by (subst rx_exec.simps) (auto split: list.splits)
next
  case (Cons c s)
  have "(\<forall>i \<le> length (c # s). \<not> matches_at r b (c # s) i) \<longleftrightarrow>
      \<not> matches_at r b (c # s) 0 \<and> (\<forall>i \<le> length s. \<not> matches_at r b (c # s) (Suc i))"
    by (metis Suc_le_mono length_Cons not0_implies_Suc zero_le)
  with Cons.IH [of "Some c"] show ?case by (subst rx_exec.simps) (auto split: list.splits)
qed

lemma rx_exec_Some:
  assumes "rx_exec r b s = Some (i, n)"
  shows "i + n \<le> length s" "matches_at r b s i" "\<forall>j < i. \<not> matches_at r b s j"
    "\<exists>q. hd (rx_run r (char_before b s i, drop i s)) = q \<and> snd q = drop (i + n) s"
proof -
  have "i + n \<le> length s \<and> matches_at r b s i \<and> (\<forall>j < i. \<not> matches_at r b s j) \<and>
      snd (hd (rx_run r (char_before b s i, drop i s))) = drop (i + n) s"
    using assms
  proof (induction s arbitrary: b i)
    case Nil
    then obtain q qs where q: "rx_run r (b, []) = q # qs" "i = 0" "n = 0"
      by (subst (asm) rx_exec.simps) (auto split: list.splits)
    then have "suffix (snd q) []" using rx_run_suffix [of q r "(b, [])"] by simp
    with q show ?case by (simp add: char_before_def)
  next
    case (Cons c s)
    show ?case
    proof (cases "rx_run r (b, c # s)")
      case Nil
      then obtain i' where i': "i = Suc i'" "rx_exec r (Some c) s = Some (i', n)"
        using Cons.prems by (subst (asm) rx_exec.simps) auto
      have "char_before b (c # s) (Suc i') = char_before (Some c) s i'"
        by (cases i') (simp_all add: char_before_def)
      with Cons.IH [OF i'(2)] Nil i'(1) show ?thesis by (auto simp: less_Suc_eq_0_disj)
    next
      case q: (Cons q qs)
      then have suf: "suffix (snd q) (c # s)" using rx_run_suffix [of q r "(b, c # s)"] by simp
      have n: "i = 0" "n = length (c # s) - length (snd q)"
        using Cons.prems q by (subst (asm) rx_exec.simps, simp)+
      have "snd q = drop n (c # s)" "n \<le> length (c # s)"
        using suffix_is_drop [OF suf] n(2) by simp_all
      with q n(1) show ?thesis by (auto simp: char_before_def)
    qed
  qed
  then show "i + n \<le> length s" "matches_at r b s i" "\<forall>j < i. \<not> matches_at r b s j"
    "\<exists>q. hd (rx_run r (char_before b s i, drop i s)) = q \<and> snd q = drop (i + n) s"
    by auto
qed

lemma rx_test_iff: "rx_test r s \<longleftrightarrow> (\<exists>i \<le> length s. matches_at r None s i)"
  unfolding rx_test_def using rx_exec_None by auto

end
