(* ===== verification/RiskPaths.thy ===== *)
theory RiskPaths
  imports RegExp PolicyEngine
begin

text \<open>
  The findings of the risk score (\<open>packages/policy-engine/src/action-risk.ts\<close>): what a path, a host or
  a branch adds to it.  Weights are in hundredths, so that the sums the code rounds to two digits are
  exact.  The host of a URL is node's \<open>URL\<close>, an argument.
\<close>

section \<open>Findings and levels\<close>

record risk_finding =
  fd_name :: string
  fd_weight :: int
  fd_detail :: string
  fd_irreversible :: bool

definition found :: "string \<Rightarrow> int \<Rightarrow> string \<Rightarrow> risk_finding" where
  "found n w d = \<lparr>fd_name = n, fd_weight = w, fd_detail = d, fd_irreversible = False\<rparr>"

definition lasting :: "string \<Rightarrow> int \<Rightarrow> string \<Rightarrow> risk_finding" where
  "lasting n w d = \<lparr>fd_name = n, fd_weight = w, fd_detail = d, fd_irreversible = True\<rparr>"

lemma found_simps [simp]:
  "fd_name (found n w d) = n" "fd_weight (found n w d) = w" "fd_detail (found n w d) = d"
  "\<not> fd_irreversible (found n w d)"
  "fd_name (lasting n w d) = n" "fd_weight (lasting n w d) = w" "fd_detail (lasting n w d) = d"
  "fd_irreversible (lasting n w d)"
  by (simp_all add: found_def lasting_def)

definition THRESHOLD_MEDIUM :: int where "THRESHOLD_MEDIUM = 25"
definition THRESHOLD_HIGH :: int where "THRESHOLD_HIGH = 55"
definition THRESHOLD_CRITICAL :: int where "THRESHOLD_CRITICAL = 80"

lemmas thresholds = THRESHOLD_MEDIUM_def THRESHOLD_HIGH_def THRESHOLD_CRITICAL_def

definition riskLevel :: "int \<Rightarrow> risk_class" where
  "riskLevel score =
     (if score \<ge> THRESHOLD_CRITICAL then Critical
      else if score \<ge> THRESHOLD_HIGH then High
      else if score \<ge> THRESHOLD_MEDIUM then Medium
      else Low)"

definition maxRiskClass :: "risk_class \<Rightarrow> risk_class \<Rightarrow> risk_class" where
  "maxRiskClass a b = (if RISK_ORDER a \<ge> RISK_ORDER b then a else b)"

lemma riskLevel_mono: "s \<le> t \<Longrightarrow> riskLevel s \<le> riskLevel t"
  by (simp add: riskLevel_def thresholds risk_order_simps)

lemma maxRiskClass_max: "maxRiskClass a b = max a b"
  by (cases a; cases b) (simp_all add: maxRiskClass_def max_def risk_order_simps)

text \<open>What the score needs of the runtime: the host of a URL, and the ellipsis character.\<close>

record risk_runtime =
  rt_url_host :: "string \<Rightarrow> string option"
  rt_ellipsis :: string

section \<open>Patterns on paths\<close>

definition RWords :: "string list \<Rightarrow> rx" where
  "RWords ws = RAlts (map RLit ws)"

definition RNotSlash :: rx where
  "RNotSlash = RNotIn ''/''"

text \<open>\<open>(^|\/)\<close> and \<open>ya?ml\<close>.\<close>

definition RSegStart :: rx where
  "RSegStart = RAlt RBol (RLit ''/'')"

definition RYaml :: rx where
  "RYaml = RSeqs [RLit ''y'', ROpt (RLit ''a''), RLit ''ml'']"

definition SECRET_FILE :: rx where
  "SECRET_FILE = RAlt
     (RSeqs
        [RSegStart,
         RAlts
           [RSeq (RLit ''.env'')
              (ROpt (RSeqs [RLit ''.'',
                 RNotAhead (RAlts [RSeq (RLit ''example'') REol, RSeq (RLit ''sample'') REol,
                   RSeq (RLit ''template'') REol, RSeq (RLit ''dist'') REol]),
                 RStar RNotSlash])),
            RSeqs [RStar RNotSlash, RLit ''.'',
              RWords [''pem'', ''key'', ''p12'', ''pfx'', ''jks'', ''keystore'', ''ppk'']],
            RSeqs [RLit ''id_'', RWords [''rsa'', ''dsa'', ''ecdsa'', ''ed25519''], ROpt (RLit ''.pub'')],
            RLit ''.npmrc'', RLit ''.pypirc'', RLit ''.netrc'', RLit ''.pgpass'',
            RSeq (RLit ''credentials'') (ROpt (RLit ''.json'')),
            RSeqs [RLit ''secret'', ROpt (RLit ''s''), RLit ''.'', RAlts [RLit ''json'', RYaml, RLit ''toml'']],
            RSeqs [RLit ''service-account'', RStar RNotSlash, RLit ''.json''],
            RLit ''kubeconfig'', RLit ''.git-credentials''],
         REol])
     (RSeqs [RSegStart, RLit ''.'', RWords [''ssh'', ''aws'', ''gnupg'', ''kube'', ''docker''], RLit ''/''])"

definition AGENT_CONFIG :: rx where
  "AGENT_CONFIG =
     RSeq RSegStart (RAlts
       [RLit ''.claude/'', RLit ''.cursor/'', RLit ''.codex/'', RLit ''.opencode/'', RLit ''.gemini/'',
        RLit ''.windsurf/'', RLit ''.continue/'', RSeqs [RLit ''.aider'', RStar RNotSlash, REol],
        RSeq (RLit ''.mcp.json'') REol, RSeq (RLit ''mcp.json'') REol,
        RSeqs [RLit ''opencode.json'', ROpt (RLit ''c''), REol], RSeq (RLit ''agents.md'') REol,
        RSeq (RLit ''claude.md'') REol, RSeq (RLit ''gemini.md'') REol, RSeq (RLit ''.cursorrules'') REol,
        RSeq (RLit ''.windsurfrules'') REol, RLit ''.clinerules'',
        RSeqs [RLit ''.vscode/'', RWords [''settings'', ''tasks'', ''launch''], RLit ''.json'', REol],
        RLit ''.git/hooks/'', RSeq (RLit ''.git/config'') REol, RLit ''.husky/'',
        RSeq (RLit ''.gitmodules'') REol, RLit ''.odysseus/''])"

definition CI_PIPELINE :: rx where
  "CI_PIPELINE =
     RSeq RSegStart (RAlts
       [RLit ''.github/workflows/'', RLit ''.github/actions/'', RSeq (RLit ''.gitlab-ci.yml'') REol,
        RLit ''.circleci/'', RSeq (RLit ''jenkinsfile'') REol, RSeqs [RLit ''azure-pipelines.'', RYaml, REol],
        RLit ''.buildkite/'', RSeq (RLit ''bitbucket-pipelines.yml'') REol, RSeq (RLit ''.travis.yml'') REol,
        RSeq (RLit ''.drone.yml'') REol])"

definition DEPENDENCY_MANIFEST :: rx where
  "DEPENDENCY_MANIFEST =
     RSeqs [RSegStart, RAlts
       [RLit ''package.json'', RLit ''pnpm-lock.yaml'', RLit ''package-lock.json'', RLit ''yarn.lock'',
        RSeq (RLit ''bun.lock'') (ROpt (RLit ''b'')),
        RSeqs [RLit ''requirements'', RStar RNotSlash, RLit ''.txt''], RLit ''pyproject.toml'',
        RLit ''poetry.lock'', RLit ''uv.lock'', RSeq (RLit ''pipfile'') (ROpt (RLit ''.lock'')),
        RSeq (RLit ''cargo.'') (RWords [''toml'', ''lock'']), RSeq (RLit ''go.'') (RWords [''mod'', ''sum'']),
        RSeq (RLit ''gemfile'') (ROpt (RLit ''.lock'')), RSeq (RLit ''composer.'') (RWords [''json'', ''lock'']),
        RLit ''pom.xml'', RSeq (RLit ''build.gradle'') (ROpt (RLit ''.kts'')), RLit ''pnpm-workspace.yaml''],
       REol]"

definition DEPLOYMENT_CONFIG :: rx where
  "DEPLOYMENT_CONFIG =
     RSeqs [RSegStart, RAlts
       [RSeq (RLit ''dockerfile'') (RStar RNotSlash),
        RSeqs [RLit ''docker-compose'', RStar RNotSlash, RLit ''.'', RYaml], RSeq (RLit ''compose.'') RYaml,
        RSeq (RStar RNotSlash) (RLit ''.tf''), RSeq (RStar RNotSlash) (RLit ''.tfvars''), RLit ''render.yaml'',
        RLit ''vercel.json'', RLit ''fly.toml'', RLit ''netlify.toml'', RSeq (RLit ''app.'') RYaml,
        RSeq (RLit ''serverless.'') RYaml, RLit ''procfile'', RSeq (RLit ''k8s/'') (RPlus RNotSlash),
        RSeq (RLit ''helm/'') (RPlus RNotSlash), RSeq (RLit ''charts/'') (RPlus RNotSlash)],
       REol]"

definition GIT_DIRECTORY :: rx where
  "GIT_DIRECTORY = RSeqs [RSegStart, RLit ''.git'', RAlt (RLit ''/'') REol]"

definition HOME_PATH :: rx where
  "HOME_PATH =
     RSeqs [RBol, RWords [''~'', ''$home'', ''$env:userprofile'', ''%userprofile%''], RAlt (RLit ''/'') REol]"

definition DRIVE_ROOT :: rx where
  "DRIVE_ROOT = RSeqs [RBol, RChr lower_char, RLit '':'', ROpt (RLit ''/''), ROpt (RLit ''*''), REol]"

definition DRIVE_PATH :: rx where
  "DRIVE_PATH = RSeqs [RBol, RChr lower_char, RLit '':/'']"

definition SYSTEM_DIRECTORY :: rx where
  "SYSTEM_DIRECTORY =
     RSeqs [RBol, RLit ''/'',
       RWords [''etc'', ''usr'', ''bin'', ''sbin'', ''var'', ''boot'', ''sys'', ''proc'', ''root'', ''opt'', ''lib''],
       RAlt (RLit ''/'') REol]"

definition WINDOWS_DIRECTORY :: rx where
  "WINDOWS_DIRECTORY =
     RSeqs [RBol, RChr lower_char, RLit '':/'', RWords [''windows'', ''program files'']]"

section \<open>Paths\<close>

datatype path_mode = Mode_Read | Mode_Write | Mode_Delete

definition mode_verb :: "path_mode \<Rightarrow> string" where
  "mode_verb m = (case m of Mode_Read \<Rightarrow> ''reads'' | Mode_Write \<Rightarrow> ''writes'' | Mode_Delete \<Rightarrow> ''deletes'')"

text \<open>The loop of \<open>outsideProject\<close> over the segments of a relative path.\<close>

fun climbs :: "int \<Rightarrow> string list \<Rightarrow> bool" where
  "climbs depth [] = False"
| "climbs depth (w # ws) =
     (let d = (if w = ''..'' then depth - 1 else if w \<noteq> [] \<and> w \<noteq> ''.'' then depth + 1 else depth)
      in d < 0 \<or> climbs d ws)"

definition outsideProject :: "string \<Rightarrow> string option \<Rightarrow> bool" where
  "outsideProject path root =
     (if rx_test_i HOME_PATH path then True
      else if path = ''/'' \<or> path = ''/*'' \<or> rx_test_i DRIVE_ROOT path then True
      else if prefix ''/'' path \<or> rx_test_i DRIVE_PATH path then
        (if \<not> truthy root then rx_test_i SYSTEM_DIRECTORY path \<or> rx_test_i WINDOWS_DIRECTORY path
         else
           (let r = rev (dropWhile (\<lambda>c. c = CHR ''/'') (rev (normalisePath (the root))));
                caseless = rx_test_i DRIVE_PATH r;
                a = (if caseless then js_lower path else path);
                b = (if caseless then js_lower r else r)
            in \<not> (a = b \<or> prefix (b @ ''/'') a)))
      else climbs 0 (js_split (CHR ''/'') path))"

definition assessPath :: "string \<Rightarrow> path_mode \<Rightarrow> string option \<Rightarrow> risk_finding list" where
  "assessPath rawPath mode root =
     (let path = normalisePath rawPath; verb = mode_verb mode in
      if path = [] \<or> path = ''/dev/null'' \<or> js_lower path = ''nul'' then []
      else
        (if rx_test_i SECRET_FILE path
         then [(if mode \<noteq> Mode_Write then lasting else found) ''secret-file'' 45 (verb @ '' '' @ path @ '', which holds secrets'')]
         else []) @
        (if mode \<noteq> Mode_Read
         then
           (if rx_test_i AGENT_CONFIG path
            then [found ''agent-config'' 45 (verb @ '' '' @ path @ '', which changes how agents or git behave next time'')]
            else if rx_test_i CI_PIPELINE path
            then [found ''ci-pipeline'' 35 (verb @ '' '' @ path @ '', which runs in CI with its secrets'')]
            else if rx_test_i DEPLOYMENT_CONFIG path
            then [found ''deployment-config'' 20 (verb @ '' deployment file '' @ path)]
            else if rx_test_i DEPENDENCY_MANIFEST path
            then [found ''dependency-manifest'' 15 (verb @ '' dependency file '' @ path)]
            else []) @
           (if rx_test GIT_DIRECTORY path \<and> \<not> rx_test_i AGENT_CONFIG path
            then [lasting ''git-internals'' 40 (verb @ '' git'' @ [CHR 0x27] @ ''s own data in '' @ path)]
            else [])
         else []) @
        (if outsideProject path root
         then [(if mode \<noteq> Mode_Read then lasting else found) ''outside-project''
                 (if mode = Mode_Read then 15 else 30) (verb @ '' '' @ path @ '', outside the project'')]
         else []))"

section \<open>Hosts and branches\<close>

text \<open>\<open>value.replace(/^[a-z]+:\/\//i, '').split('/')[0]\<close>.\<close>

definition strip_scheme :: "string \<Rightarrow> string" where
  "strip_scheme v =
     (let w = takeWhile (\<lambda>c. lower_char c \<or> upper_char c) v; rest = drop (length w) v in
      if w \<noteq> [] \<and> prefix ''://'' rest then drop 3 rest else v)"

definition hostOf :: "risk_runtime \<Rightarrow> string \<Rightarrow> string" where
  "hostOf rt v =
     (case rt_url_host rt v of
        Some h \<Rightarrow> if h \<noteq> [] then h else v
      | None \<Rightarrow> hd (js_split (CHR ''/'') (strip_scheme v)))"

definition KNOWN_REGISTRY :: rx where
  "KNOWN_REGISTRY =
     RSeqs [RAlt RBol (RLit ''.''),
       RWords [''registry.npmjs.org'', ''npmjs.com'', ''pypi.org'', ''files.pythonhosted.org'', ''crates.io'',
         ''proxy.golang.org'', ''rubygems.org'', ''github.com'', ''githubusercontent.com'',
         ''repo.maven.apache.org'', ''nuget.org''],
       REol]"

definition assessHost :: "risk_runtime \<Rightarrow> string option \<Rightarrow> risk_finding list" where
  "assessHost rt resource =
     (if \<not> truthy resource then []
      else
        (let host = hostOf rt (the resource) in
         if rx_test_i KNOWN_REGISTRY host
         then [found ''known-registry'' (-15) (''connects to '' @ host @ '', a package registry'')]
         else [found ''unknown-host'' 10 (''connects to '' @ host)]))"

definition strip_prefix :: "string \<Rightarrow> string \<Rightarrow> string" where
  "strip_prefix p s = (if prefix p s then drop (length p) s else s)"

text \<open>\<open>resource.split('->')\<close>: the part between the first two arrows, or the whole.\<close>

definition arrow_target :: "string \<Rightarrow> string" where
  "arrow_target r =
     (case index_of ''->'' r of
        None \<Rightarrow> r
      | Some i \<Rightarrow> (let rest = drop (i + 2) r in
          case index_of ''->'' rest of None \<Rightarrow> rest | Some j \<Rightarrow> take j rest))"

definition branchName :: "string option \<Rightarrow> string option" where
  "branchName resource =
     (if \<not> truthy resource then None
      else Some (strip_prefix ''origin/'' (strip_prefix ''refs/heads/'' (js_trim (arrow_target (the resource))))))"

end
