(* ===== verification/RiskCommands.thy ===== *)
theory RiskCommands
  imports RiskPaths
begin

text \<open>
  The risk of a shell command (\<open>assessCommand\<close> and its helpers in
  \<open>packages/policy-engine/src/action-risk.ts\<close>): patterns on the whole text, then each segment by the
  program it runs.  A nested shell and \<open>env\<close> are judged by what they are handed, which is shorter.
\<close>

section \<open>What the code knows of programs\<close>

definition READ_ONLY_PROGRAMS :: "string list" where
  "READ_ONLY_PROGRAMS =
     [''ls'', ''dir'', ''cat'', ''type'', ''head'', ''tail'', ''less'', ''more'', ''grep'', ''egrep'', ''rg'', ''ag'',
      ''fd'', ''wc'', ''pwd'', ''echo'', ''printf'', ''which'', ''where'', ''whereis'', ''tree'', ''stat'', ''file'',
      ''du'', ''df'', ''date'', ''uname'', ''whoami'', ''hostname'', ''sort'', ''uniq'', ''cut'', ''diff'', ''cmp'',
      ''basename'', ''dirname'', ''realpath'', ''readlink'', ''true'', ''false'', ''test'', ''jq'', ''yq'', ''awk'',
      ''sed'', ''nl'', ''column'', ''md5sum'', ''sha256sum'', ''shasum'', ''get-childitem'', ''get-content'',
      ''select-string'', ''get-location'', ''get-item'', ''test-path'', ''resolve-path'', ''measure-object'',
      ''write-output'', ''write-host'', ''cd'', ''set-location'', ''pushd'', ''popd'', ''sleep'', ''start-sleep'',
      ''clear'', ''cls'', ''history'', ''man'', ''help'', ''node'', ''python'', ''python3'', ''ruby'', ''java'',
      ''rustc'', ''deno'']"

definition FILE_READERS :: "string list" where
  "FILE_READERS =
     [''ls'', ''dir'', ''cat'', ''type'', ''head'', ''tail'', ''less'', ''more'', ''grep'', ''egrep'', ''rg'', ''ag'',
      ''fd'', ''wc'', ''tree'', ''stat'', ''file'', ''du'', ''sort'', ''uniq'', ''cut'', ''diff'', ''cmp'', ''jq'',
      ''yq'', ''awk'', ''sed'', ''nl'', ''md5sum'', ''sha256sum'', ''shasum'', ''get-childitem'', ''get-content'',
      ''select-string'', ''get-item'', ''find'']"

definition PATTERN_FIRST :: "string list" where
  "PATTERN_FIRST = [''grep'', ''egrep'', ''rg'', ''ag'', ''awk'', ''sed'', ''jq'', ''yq'', ''select-string'']"

definition BUILD_OR_TEST_PROGRAMS :: "string list" where
  "BUILD_OR_TEST_PROGRAMS =
     [''vitest'', ''jest'', ''mocha'', ''ava'', ''pytest'', ''tox'', ''nox'', ''tsc'', ''eslint'', ''prettier'',
      ''biome'', ''ruff'', ''black'', ''isort'', ''mypy'', ''pyright'', ''flake8'', ''pylint'', ''rubocop'',
      ''phpunit'', ''playwright'', ''cypress'', ''tsx'', ''ts-node'', ''turbo'', ''nx'', ''vite'', ''next'',
      ''webpack'', ''rollup'', ''esbuild'', ''swc'', ''babel'', ''gofmt'', ''golangci-lint'', ''clippy'', ''rustfmt'']"

definition SCRIPT_RUNNERS :: "string list" where
  "SCRIPT_RUNNERS = [''npm'', ''pnpm'', ''yarn'', ''bun'']"

text \<open>\<open>.*\<close> up to the end of the text stops at a line terminator.\<close>

definition one_line :: "string \<Rightarrow> bool" where
  "one_line s \<longleftrightarrow> CHR 0x0A \<notin> set s \<and> CHR 0x0D \<notin> set s"

definition build_or_test_script :: "string \<Rightarrow> bool" where
  "build_or_test_script script \<longleftrightarrow>
     (let s = js_lower script in
      s \<in> set [''test'', ''tests'', ''lint'', ''build'', ''typecheck'', ''type-check'', ''check'', ''format'', ''fmt'',
        ''dev'', ''start'', ''preview'', ''verify'', ''coverage'', ''e2e''] \<or>
      list_ex (\<lambda>p. prefix p s \<and> one_line (drop (length p) s))
        [''test:'', ''lint:'', ''build:'', ''format:'', ''typecheck:'', ''check:''])"

definition regenerable :: "string \<Rightarrow> bool" where
  "regenerable name \<longleftrightarrow>
     (let s = js_lower name in
      s \<in> set [''node_modules'', ''dist'', ''build'', ''out'', ''.next'', ''.nuxt'', ''.svelte-kit'', ''.turbo'',
        ''.cache'', ''.parcel-cache'', ''coverage'', ''target'', ''__pycache__'', ''.pytest_cache'', ''.mypy_cache'',
        ''.ruff_cache'', ''.venv'', ''venv'', ''.tox'', ''tsconfig.tsbuildinfo'', ''.eslintcache''] \<or>
      (suffix ''.tsbuildinfo'' s \<and> one_line s))"

section \<open>Patterns on the whole command\<close>

definition RSpaces :: rx where "RSpaces = RStar RSpace"
definition RSpaces1 :: rx where "RSpaces1 = RPlus RSpace"
definition RWordChar :: rx where "RWordChar = RChr word_char"

definition RNotPipe :: rx where
  "RNotPipe = RNotIn (''|;&'' @ [CHR 0x0A])"

definition PRODUCTION_MARKER :: rx where
  "PRODUCTION_MARKER =
     RAlt (RSeqs [RWordb, RWords [''prod'', ''production'', ''live''], RWordb]) (RSeq (RLit ''--prod'') RWordb)"

definition REMOTE_CODE :: rx where
  "REMOTE_CODE =
     RSeqs [RWordb, RWords [''curl'', ''wget'', ''iwr'', ''irm'', ''invoke-webrequest'', ''invoke-restmethod''], RWordb,
       RStar RNotPipe, RLit ''|'', RSpaces, ROpt (RSeq (RLit ''sudo'') RSpaces1),
       RAlts [RLit ''sh'', RLit ''bash'', RLit ''zsh'', RLit ''dash'', RLit ''ksh'', RLit ''fish'',
         RSeq (RLit ''python'') (ROpt (RLit ''3'')), RLit ''node'', RLit ''perl'', RLit ''ruby'', RLit ''php'',
         RLit ''iex'', RLit ''invoke-expression'', RLit ''powershell'', RLit ''pwsh''], RWordb]"

definition OBFUSCATED :: rx where
  "OBFUSCATED = RAlt
     (RSeqs [RWordb, RLit ''base64'', RSpaces1, RWords [''-d'', ''--decode'', ''-d''], RWordb, RStar RNotPipe, RLit ''|'',
       RSpaces, ROpt (RSeq (RLit ''sudo'') RSpaces1),
       RAlts [RLit ''sh'', RLit ''bash'', RLit ''zsh'', RSeq (RLit ''python'') (ROpt (RLit ''3'')), RLit ''node''], RWordb])
     (RSeqs [RWordb, RLit ''frombase64string'', RWordb])"

definition DESTRUCTIVE_SQL :: rx where
  "DESTRUCTIVE_SQL =
     RSeq RWordb (RAlts
       [RSeqs [RLit ''drop'', RSpaces1, RWords [''table'', ''database'', ''schema'', ''index'', ''view'']],
        RSeqs [RLit ''truncate'', RSpaces1, ROpt (RSeq (RLit ''table'') RSpaces1), RWordChar],
        RSeqs [RLit ''delete'', RSpaces1, RLit ''from'', RSpaces1, RPlus RWordChar, RSpaces,
          RAlts [RLit '';'', REol, RLit [CHR 0x22], RLit [CHR 0x27]]]])"

definition COMPOSE_DOWN :: rx where
  "COMPOSE_DOWN =
     RSeqs [RWordb, RLit ''compose'', RWordb, RStar RDot, RWordb,
       RAlt (RSeqs [RLit ''down'', RSpaces1, RLit ''-v'']) (RLit ''rm''), RWordb]"

definition PRIVILEGED_RUN :: rx where
  "PRIVILEGED_RUN = RAlts
     [RLit ''--privileged'', RSeqs [RLit ''-v'', RSpaces1, RLit ''/:''],
      RSeqs [RLit ''--volume'', RIn ''= '', RLit ''/:''], RSeqs [RLit ''--pid'', RIn ''= '', RLit ''host''],
      RSeqs [RLit ''--network'', RIn ''= '', RLit ''host'']]"

definition RESET_WORD :: rx where
  "RESET_WORD =
     RSeqs [RWordb, RWords [''reset'', ''drop'', ''force-reset'', ''db:drop'', ''db:reset'', ''downgrade'', ''rollback'', ''undo''],
       RWordb]"

definition MIGRATE_WORD :: rx where
  "MIGRATE_WORD = RSeqs [RWordb, RWords [''migrate'', ''push'', ''deploy'', ''db:migrate'', ''upgrade'', ''up''], RWordb]"

section \<open>Results\<close>

record command_context =
  cx_projectRoot :: "string option"
  cx_protected :: "string list"
  cx_runtime :: risk_runtime

record command_result =
  cr_findings :: "risk_finding list"
  cr_recognised :: bool

record segment_result =
  sr_findings :: "risk_finding list"
  sr_recognised :: bool
  sr_readOnly :: bool

definition seg :: "risk_finding list \<Rightarrow> bool \<Rightarrow> bool \<Rightarrow> segment_result" where
  "seg fs known ro = \<lparr>sr_findings = fs, sr_recognised = known, sr_readOnly = ro\<rparr>"

lemma seg_simps [simp]:
  "sr_findings (seg fs k r) = fs" "sr_recognised (seg fs k r) = k" "sr_readOnly (seg fs k r) = r"
  by (simp_all add: seg_def)

text \<open>\<open>done\<close> of the helpers: the command is recognised.\<close>

abbreviation known :: "risk_finding list \<Rightarrow> bool \<Rightarrow> segment_result" where
  "known fs ro \<equiv> seg fs True ro"

definition is_flag :: "string \<Rightarrow> bool" where
  "is_flag a \<longleftrightarrow> prefix ''-'' a"

definition operands_of :: "string list \<Rightarrow> string list" where
  "operands_of args = filter (\<lambda>a. \<not> is_flag a) args"

definition first_operand :: "string list \<Rightarrow> string" where
  "first_operand lower = (case operands_of lower of [] \<Rightarrow> [] | a # _ \<Rightarrow> a)"

definition any_of :: "string list \<Rightarrow> string list \<Rightarrow> bool" where
  "any_of flags args \<longleftrightarrow> list_ex (\<lambda>a. a \<in> set flags) args"

definition or_else :: "string \<Rightarrow> string \<Rightarrow> string" where
  "or_else s d = (if s \<noteq> [] then s else d)"

definition words :: "string list \<Rightarrow> string" where
  "words ws = js_join '' '' ws"

definition commas :: "string list \<Rightarrow> string" where
  "commas ws = js_join '', '' ws"

section \<open>git\<close>

text \<open>The global options before the subcommand.\<close>

fun skip_git_options :: "string list \<Rightarrow> string list" where
  "skip_git_options [] = []"
| "skip_git_options (a # as) =
     (if is_flag a then skip_git_options (if a = ''-C'' \<or> a = ''-c'' then drop 1 as else as) else a # as)"

text \<open>\<open>/^-[a-z]*f/\<close>.\<close>

definition short_flag :: "char \<Rightarrow> string \<Rightarrow> bool" where
  "short_flag f a \<longleftrightarrow> is_flag a \<and> f \<in> set (takeWhile lower_char (drop 1 a))"

text \<open>The branches a push names.\<close>

definition push_targets :: "string list \<Rightarrow> string list" where
  "push_targets rest =
     map (strip_prefix ''refs/heads/'')
       (concat (map (\<lambda>a. js_split (CHR '':'') (strip_prefix ''+'' a)) (operands_of rest)))"

definition git_push_findings :: "command_context \<Rightarrow> string list \<Rightarrow> risk_finding list" where
  "git_push_findings cx rest =
     (let lower = map js_lower rest in
      [lasting ''publishes-to-remote'' 45 ''publishes commits to a remote''] @
      (if any_of [''--force'', ''-f'', ''--force-with-lease'', ''--mirror''] lower \<or> list_ex (prefix ''+'') rest
       then [lasting ''force-push'' 35 ''force-push rewrites history others may have''] else []) @
      (if any_of [''--delete'', ''-d''] lower \<or>
          list_ex (\<lambda>a. prefix '':'' a \<and> length a \<ge> 2 \<and> a ! 1 \<noteq> CHR ''/'') rest
       then [lasting ''deletes-remote-branch'' 30 ''deletes a branch on the remote''] else []) @
      (case List.find (\<lambda>r. r \<in> set (cx_protected cx)) (push_targets rest) of
         None \<Rightarrow> []
       | Some hit \<Rightarrow> [found ''protected-branch'' 30 (''pushes to protected branch '' @ hit)]))"

definition git_config_findings :: "string \<Rightarrow> string list \<Rightarrow> risk_finding list" where
  "git_config_findings sub rest =
     (let lower = map js_lower rest in
      if sub = ''config'' \<and> any_of [''--global'', ''--system''] lower
      then [found ''global-git-config'' 20 ''changes git configuration for every repository'']
      else if sub = ''remote'' \<and> any_of [''add'', ''remove'', ''rm'', ''set-url'', ''rename''] lower
      then [found ''changes-remote'' 20 ''changes where this repository pushes'']
      else if sub = ''config'' \<and> length (operands_of rest) \<ge> 2
      then [found ''changes-git-config'' 10 ''changes repository git configuration'']
      else [])"

definition git_discards :: "string \<Rightarrow> string list \<Rightarrow> bool" where
  "git_discards sub rest \<longleftrightarrow>
     (let lower = map js_lower rest in
      if sub = ''restore'' then \<not> any_of [''--staged''] lower \<or> any_of [''--worktree'', ''-w''] lower
      else ''--'' \<in> set rest \<or> any_of [''.'', '':/''] lower \<or> any_of [''-f'', ''--force''] lower)"

definition withGit :: "command_context \<Rightarrow> risk_finding list \<Rightarrow> string list \<Rightarrow> segment_result" where
  "withGit cx fs args =
     (let skipped = skip_git_options args;
          sub = (case skipped of [] \<Rightarrow> [] | a # _ \<Rightarrow> js_lower a);
          rest = drop 1 skipped;
          lower = map js_lower rest;
          has = (\<lambda>flags. any_of flags lower)
      in
      if sub \<in> set [''status'', ''log'', ''diff'', ''show'', ''rev-parse'', ''ls-files'', ''blame'', ''describe'',
           ''shortlog'', ''grep'', ''reflog'', ''fetch'', ''remote'', ''config'']
      then (let fs = fs @ git_config_findings sub rest in known fs (fs = []))
      else if sub = ''branch'' then
        (let fs = fs @
           (if has [''-d'', ''--delete'']
            then [found ''deletes-branch'' 20 ''deletes a local branch (recoverable from the reflog)'']
            else if list_ex (\<lambda>a. \<not> is_flag a) rest then [found ''creates-branch'' 5 ''creates a branch'']
            else [])
         in known fs (fs = []))
      else if sub = ''stash'' then
        known (fs @
          (if has [''drop'', ''clear''] then [lasting ''drops-stash'' 20 ''throws away stashed work'']
           else [found ''git-stash'' 5 ''git stash''])) False
      else if sub \<in> set [''add'', ''switch'', ''tag'', ''worktree'', ''mv'', ''init'', ''clone'', ''pull'',
           ''cherry-pick'', ''revert'']
      then known (fs @ [found (''git-'' @ sub) 5 (''git '' @ sub)]) False
      else if sub = ''commit'' then known (fs @ [found ''git-commit'' 15 ''records a local commit'']) False
      else if sub \<in> set [''merge'', ''rebase'', ''am'', ''apply'']
      then known (fs @ [found (''git-'' @ sub) 15 (''git '' @ sub @ '' (recoverable from the reflog)'')]) False
      else if sub \<in> set [''checkout'', ''restore''] then
        known (fs @
          (if git_discards sub rest then [lasting ''discards-changes'' 40 ''discards uncommitted changes'']
           else [found (''git-'' @ sub) 5 (''git '' @ sub)])) False
      else if sub = ''reset'' then
        known (fs @
          (if has [''--hard'', ''--merge'', ''--keep'']
           then [lasting ''discards-changes'' 40 ''git reset --hard discards uncommitted changes'']
           else [found ''git-reset'' 10 ''moves the branch pointer (recoverable from the reflog)''])) False
      else if sub = ''clean'' then
        (let fs = fs @
           (if list_ex (\<lambda>a. short_flag (CHR ''f'') a \<or> a = ''--force'') lower
            then [lasting ''deletes-untracked'' 40 ''deletes untracked files''] else [])
         in known fs (fs = []))
      else if sub = ''push'' then known (fs @ git_push_findings cx rest) False
      else if sub \<in> set [''filter-branch'', ''filter-repo'']
      then known (fs @ [lasting ''rewrites-history'' 50 ''rewrites the whole repository history'']) False
      else if sub \<in> set [''gc'', ''prune'']
      then known (fs @ [lasting ''prunes-objects'' 20 ''permanently removes unreachable commits'']) False
      else known (fs @ [found ''git-other'' 15 (''git '' @ or_else sub ''(no subcommand)'')]) False)"

section \<open>Package managers and toolchains\<close>

text \<open>\<open>replace(/@.*$/, '')\<close>.\<close>

fun drop_version :: "string \<Rightarrow> string" where
  "drop_version [] = []"
| "drop_version (c # s) = (if c = CHR ''@'' \<and> one_line s then [] else c # drop_version s)"

fun positional :: "string list \<Rightarrow> string list" where
  "positional [] = []"
| "positional (a # as) =
     (if is_flag a then
        positional (if a \<in> set [''--filter'', ''-f'', ''--dir'', ''-c'', ''--prefix'', ''--workspace'', ''-w'', ''--cwd'']
                    then drop 1 as else as)
      else a # positional as)"

definition withPackageManager :: "risk_finding list \<Rightarrow> string \<Rightarrow> string list \<Rightarrow> segment_result" where
  "withPackageManager fs name args =
     (let lower = map js_lower args; runner = name \<in> set [''npx'', ''pnpx'', ''bunx''] in
      if runner \<or> (lower \<noteq> [] \<and> hd lower \<in> set [''dlx'', ''exec'']) then
        (let tool = List.find (\<lambda>a. \<not> is_flag a) (if runner then args else drop 1 args) in
         if (case tool of None \<Rightarrow> False | Some t \<Rightarrow> drop_version (program t) \<in> set BUILD_OR_TEST_PROGRAMS)
         then known fs False
         else known (fs @ [found ''runs-registry-package'' 25
           (''downloads and runs '' @ (case tool of None \<Rightarrow> ''a package'' | Some t \<Rightarrow> t) @ '' from the registry'')]) False)
      else
        (let pos = positional lower;
             sub = (case pos of [] \<Rightarrow> [] | a # _ \<Rightarrow> a);
             rest = drop 1 pos
         in
         if sub \<in> set [''publish'', ''pack'', ''release'', ''deprecate'', ''unpublish'', ''dist-tag'']
         then known (fs @ [lasting ''publishes-package'' 60 (name @ '' '' @ sub @ '' publishes to a public registry'')]) False
         else if sub \<in> set [''install'', ''i'', ''add'', ''ci'', ''update'', ''upgrade'', ''up'', ''remove'', ''rm'', ''uninstall'', ''un'']
              \<or> (sub = [] \<and> name \<noteq> ''npm'')
         then known (fs @
           (if any_of [''-g'', ''--global''] lower
            then [found ''global-install'' 20 (name @ '' installs globally, outside the project'')] else []) @
           (if rest \<noteq> [] \<and> sub \<in> set [''install'', ''i'', ''add'']
            then [found ''adds-dependency'' 30 (''adds '' @ commas (take 3 rest) @ '', which run install scripts'')]
            else [found ''installs-dependencies'' 15 (name @ '' '' @ or_else sub ''install'' @ '' runs dependency install scripts'')])) False
         else
           (let script = (if sub = ''run'' \<or> sub = ''run-script'' then (case rest of [] \<Rightarrow> [] | a # _ \<Rightarrow> a) else sub) in
            if build_or_test_script script then known fs False
            else if sub \<in> set [''audit'', ''outdated'', ''ls'', ''list'', ''why'', ''view'', ''info'', ''config'', ''help'',
                 ''--version'', ''-v'', ''whoami'', ''cache'']
            then known fs True
            else known (fs @ [found ''runs-project-script'' 15
              (''runs the project'' @ [CHR 0x27] @ ''s '' @ or_else script sub @ '' script'')]) False)))"

definition withToolchain :: "risk_finding list \<Rightarrow> string \<Rightarrow> string list \<Rightarrow> segment_result" where
  "withToolchain fs name lower =
     (let sub = first_operand lower in
      if sub \<in> set [''publish'', ''push'', ''upload'', ''release'', ''deploy''] \<or> (name = ''dotnet'' \<and> sub = ''nuget'')
      then known (fs @ [lasting ''publishes-package'' 60 (name @ '' '' @ sub @ '' publishes to a registry'')]) False
      else if sub \<in> set [''test'', ''build'', ''check'', ''vet'', ''fmt'', ''lint'', ''clippy'', ''compile'', ''verify'', ''package'', ''run'']
           \<or> (name = ''make'' \<and> sub = [])
      then known (fs @
        (if sub = ''run'' then [found ''runs-project-code'' 15 (name @ '' run executes project code'')] else [])) False
      else if sub \<in> set [''install'', ''add'', ''get'', ''sync'', ''update'', ''upgrade'', ''require'', ''restore'', ''lock''] then
        (let named = drop 1 (operands_of lower);
             fromFile = any_of [''-r'', ''--requirement''] lower \<or> named = []
         in known (fs @
           [if fromFile then found ''installs-dependencies'' 15 (name @ '' '' @ sub @ '' installs dependencies'')
            else found ''adds-dependency'' 30 (''adds '' @ commas (take 3 named) @ '', which may run install scripts'')]) False)
      else if name = ''make'' then known (fs @ [found ''runs-project-script'' 15 (''runs make target '' @ sub)]) False
      else known (fs @ [found ''toolchain-command'' 15 (js_trim (name @ '' '' @ sub))]) False)"

section \<open>Deleting, downloading, deploying\<close>

text \<open>\<open>/^-[a-zA-Z]*[rR]/\<close> and \<open>/^(-|\/[a-z]$)/i\<close>.\<close>

definition recursive_flag :: "string \<Rightarrow> bool" where
  "recursive_flag a \<longleftrightarrow>
     is_flag a \<and> (let w = takeWhile (\<lambda>c. lower_char c \<or> upper_char c) (drop 1 a) in CHR ''r'' \<in> set w \<or> CHR ''R'' \<in> set w)"

definition switch_argument :: "string \<Rightarrow> bool" where
  "switch_argument a \<longleftrightarrow>
     is_flag a \<or> (length a = 2 \<and> a ! 0 = CHR ''/'' \<and> (lower_char (a ! 1) \<or> upper_char (a ! 1)))"

definition recursive_delete :: "string \<Rightarrow> string list \<Rightarrow> bool" where
  "recursive_delete name args \<longleftrightarrow>
     (let lower = map js_lower args in
      name = ''rmdir'' \<or> name = ''rd'' \<or>
      (if name = ''remove-item'' then any_of [''-recurse'', ''-r''] lower
       else if name = ''del'' \<or> name = ''erase'' then ''/s'' \<in> set lower
       else list_ex recursive_flag args \<or> ''--recursive'' \<in> set lower))"

definition withDelete ::
  "command_context \<Rightarrow> risk_finding list \<Rightarrow> string \<Rightarrow> string list \<Rightarrow> segment_result" where
  "withDelete cx fs name args =
     (let targets = filter (\<lambda>a. \<not> switch_argument a) args;
          regen = targets \<noteq> [] \<and> list_all (\<lambda>t. regenerable (lastSegment t)) targets
      in known (fs @
           concat (map (\<lambda>t. assessPath t Mode_Delete (cx_projectRoot cx)) targets) @
           [if regen then found ''regenerable-output'' 5
                (''deletes '' @ commas (map lastSegment targets) @ '', which a build or install recreates'')
            else if recursive_delete name args then lasting ''recursive-delete'' 45
                (''deletes '' @ or_else (commas targets) ''a directory'' @ '' and everything in it'')
            else lasting ''deletes-files'' 20 (''deletes '' @ or_else (commas targets) ''files'')]) False)"

text \<open>\<open>/^@(.+)$/\<close> and \<open>/=@([^;]+)/\<close>.\<close>

fun after_equals_at :: "string \<Rightarrow> string option" where
  "after_equals_at [] = None"
| "after_equals_at (c # s) =
     (let w = takeWhile (\<lambda>d. d \<noteq> CHR '';'') (drop 1 s) in
      if c = CHR ''='' \<and> prefix ''@'' s \<and> w \<noteq> [] then Some w else after_equals_at s)"

definition inline_file :: "string \<Rightarrow> string option" where
  "inline_file a =
     (if prefix ''@'' a \<and> length a \<ge> 2 \<and> one_line (drop 1 a) then Some (drop 1 a) else after_equals_at a)"

text \<open>The files a request sends, from left to right.\<close>

fun sent_files :: "string list \<Rightarrow> string list" where
  "sent_files [] = []"
| "sent_files (a # as) =
     (case inline_file a of
        Some f \<Rightarrow> [f]
      | None \<Rightarrow> (if js_lower a \<in> set [''-t'', ''--upload-file'', ''-infile''] \<and> as \<noteq> [] \<and> hd as \<noteq> [] then [hd as] else []))
     @ sent_files as"

fun upload_method :: "string list \<Rightarrow> bool" where
  "upload_method (a # b # as) \<longleftrightarrow>
     (a \<in> set [''-x'', ''--request'', ''-method''] \<and> b \<in> set [''post'', ''put'', ''patch'']) \<or> upload_method (b # as)"
| "upload_method _ \<longleftrightarrow> False"

definition uploads :: "string \<Rightarrow> string list \<Rightarrow> bool" where
  "uploads name args \<longleftrightarrow>
     (let lower = map js_lower args in
      list_ex (\<lambda>a. is_flag a \<and> length a \<ge> 2 \<and> a ! 1 \<in> set ''dFT'') args \<or>
      list_ex (\<lambda>a. list_ex (\<lambda>p. prefix p a) [''--data'', ''--form'', ''--upload-file'', ''--json'', ''--post-data'',
        ''--post-file'', ''-infile'', ''-body'']) lower \<or>
      upload_method lower \<or>
      (name \<in> set [''http'', ''httpie'', ''xh''] \<and> lower \<noteq> [] \<and> hd lower \<in> set [''post'', ''put'', ''patch'']))"

definition is_web_url :: "string \<Rightarrow> bool" where
  "is_web_url a \<longleftrightarrow> prefix ''http://'' (js_lower a) \<or> prefix ''https://'' (js_lower a)"

definition withHttp ::
  "command_context \<Rightarrow> risk_finding list \<Rightarrow> string \<Rightarrow> string list \<Rightarrow> segment_result" where
  "withHttp cx fs name args =
     (let url = List.find is_web_url args; rt = cx_runtime cx in
      known (fs @ concat (map (\<lambda>f. assessPath f Mode_Read None) (sent_files args)) @
        [if uploads name args
         then lasting ''uploads-data'' 45
                (''sends data to '' @ (case url of None \<Rightarrow> ''another server'' | Some u \<Rightarrow> hostOf rt u))
         else found ''network-download'' 15
                (''downloads from '' @ (case url of None \<Rightarrow> ''the network'' | Some u \<Rightarrow> hostOf rt u))]) False)"

definition withInfrastructure :: "risk_finding list \<Rightarrow> string \<Rightarrow> string list \<Rightarrow> segment_result" where
  "withInfrastructure fs name lower =
     (let sub = first_operand lower in
      if sub \<in> set [''get'', ''describe'', ''logs'', ''plan'', ''validate'', ''fmt'', ''show'', ''output'', ''version'',
           ''diff'', ''preview'', ''lint'', ''template'', ''status'', ''top'', ''explain'']
      then known fs True
      else
        (let destroys = sub \<in> set [''delete'', ''destroy'', ''uninstall'', ''drain'', ''cordon''] in
         known (fs @
           [lasting (if destroys then ''destroys-infrastructure'' else ''changes-infrastructure'')
              (if destroys then 65 else 50) (name @ '' '' @ sub @ '' changes live infrastructure'')] @
           (if list_ex (rx_test_i PRODUCTION_MARKER) lower
            then [found ''production-target'' 20 ''targets production''] else [])) False))"

definition withDeploymentCli ::
  "risk_finding list \<Rightarrow> string \<Rightarrow> string list \<Rightarrow> string \<Rightarrow> segment_result" where
  "withDeploymentCli fs name lower segment =
     (if any_of [''ls'', ''list'', ''logs'', ''whoami'', ''login'', ''status'', ''info'', ''describe'', ''get'', ''version'',
           ''--version'', ''help'', ''env''] lower \<and>
         \<not> any_of [''deploy'', ''delete'', ''destroy'', ''rm'', ''remove'', ''publish'', ''up'', ''release'', ''promote''] lower
      then known fs True
      else
        (let destroys = any_of [''delete'', ''destroy'', ''rm'', ''remove'', ''terminate-instances'', ''delete-bucket''] lower in
         known (fs @
           [lasting (if destroys then ''destroys-infrastructure'' else ''deploys'') (if destroys then 65 else 50)
              (name @ '' '' @ (if destroys then ''deletes cloud resources'' else ''deploys or changes cloud resources''))] @
           (if rx_test_i PRODUCTION_MARKER segment
            then [found ''production-target'' 20 ''targets production''] else [])) False))"

definition withContainer :: "risk_finding list \<Rightarrow> string list \<Rightarrow> string \<Rightarrow> segment_result" where
  "withContainer fs lower segment =
     (let sub = first_operand lower in
      if sub \<in> set [''ps'', ''images'', ''logs'', ''inspect'', ''version'', ''info'', ''build'', ''pull'', ''compose''] \<and>
         \<not> rx_test COMPOSE_DOWN segment
      then known fs (sub \<noteq> ''build'' \<and> sub \<noteq> ''pull'' \<and> sub \<noteq> ''compose'')
      else known (fs @
        [if sub = ''push'' then lasting ''publishes-package'' 60 ''pushes an image to a registry''
         else if sub = ''run'' \<or> sub = ''exec'' then
           (if rx_test PRIVILEGED_RUN segment
            then found ''privileged-container'' 45 ''runs a container with access to the host''
            else found ''runs-container'' 15 ''runs a container'')
         else (if sub \<in> set [''rm'', ''rmi'', ''prune'', ''system'', ''volume''] then lasting else found)
                ''changes-containers'' 15 (''docker '' @ sub @ '' removes or changes containers'')]) False)"

definition withMigration :: "risk_finding list \<Rightarrow> string \<Rightarrow> string list \<Rightarrow> segment_result" where
  "withMigration fs name lower =
     (let text = words lower in
      known (fs @
        [if rx_test RESET_WORD text
         then lasting ''destroys-database'' 50 (name @ '' '' @ text @ '' drops or resets database data'')
         else if rx_test MIGRATE_WORD text
         then found ''migrates-database'' 20 (name @ '' changes the database schema'')
         else found ''database-tool'' 10 (js_trim (name @ '' '' @ text))]) False)"

section \<open>One segment\<close>

definition isEnvironmentDump :: "string \<Rightarrow> string list \<Rightarrow> bool" where
  "isEnvironmentDump name lower \<longleftrightarrow>
     (if name = ''get-childitem'' then list_ex (prefix ''env:'') lower
      else if name = ''set'' then lower = []
      else list_all is_flag lower)"

text \<open>What follows assignments and elevation, with what elevation adds.\<close>

definition elevation :: "string \<Rightarrow> bool" where
  "elevation token \<longleftrightarrow> program token \<in> set [''sudo'', ''doas'', ''runas'', ''su'']"

definition segment_program :: "string \<Rightarrow> risk_finding list \<times> string list" where
  "segment_program segment =
     (let tokens = dropWhile isAssignment (tokenize segment) in
      if tokens \<noteq> [] \<and> elevation (hd tokens)
      then ([found ''elevated-privileges'' 35 (''runs as another user ('' @ program (hd tokens) @ '')'')],
            dropWhile is_flag (tl tokens))
      else ([], tokens))"

definition interpreter_result ::
  "risk_finding list \<Rightarrow> string \<Rightarrow> string list \<Rightarrow> segment_result" where
  "interpreter_result fs name args =
     (let lower = map js_lower args;
          module = (case find_index (\<lambda>a. a = ''-m'') lower of
             None \<Rightarrow> None
           | Some i \<Rightarrow> (case drop (Suc i) lower of [] \<Rightarrow> None | m # as \<Rightarrow> if m \<noteq> [] then Some (m, as) else None));
          fallback =
            (let inlined = any_of [''-c'', ''-e'', ''--eval''] lower in
             known (fs @ [found (if inlined then ''inline-code'' else ''runs-project-code'') (if inlined then 20 else 15)
               (if inlined then ''runs inline '' @ name @ '' code''
                else ''runs '' @ (case args of [] \<Rightarrow> name | a # _ \<Rightarrow> a))]) False)
      in
      if list_all (\<lambda>a. a \<in> set [''-v'', ''--v'', ''-version'', ''--version'', ''-h'', ''--h'', ''-help'', ''--help'']) lower
      then known fs (fs = [])
      else
        (case module of
           None \<Rightarrow> fallback
         | Some (m, as) \<Rightarrow>
             if m = ''pip'' then withToolchain fs ''pip'' as
             else if m \<in> set [''pytest'', ''unittest'', ''mypy'', ''ruff'', ''black'', ''flake8'', ''pylint'', ''isort'',
               ''tox'', ''nox'', ''coverage'', ''compileall'']
             then known fs False
             else fallback))"

definition read_only_result ::
  "command_context \<Rightarrow> risk_finding list \<Rightarrow> string \<Rightarrow> string list \<Rightarrow> segment_result" where
  "read_only_result cx fs name args =
     (let lower = map js_lower args; root = cx_projectRoot cx in
      if name \<in> set [''node'', ''python'', ''python3'', ''ruby'', ''java'', ''rustc'', ''deno'']
      then interpreter_result fs name args
      else if name = ''sed'' \<and> list_ex (\<lambda>a. prefix ''-i'' a) lower then
        known (fs @ (case last_opt (operands_of args) of None \<Rightarrow> [] | Some t \<Rightarrow> assessPath t Mode_Write root) @
          [found ''edits-file'' 5 ''edits a file in place'']) False
      else if name = ''find'' \<and> any_of [''-delete'', ''-exec''] lower then
        known (fs @ [lasting ''find-and-act'' 35 ''finds files and deletes or runs commands on them'']) False
      else
        (let fs = fs @
           (if name \<in> set FILE_READERS then
              concat (map (\<lambda>a. filter (\<lambda>f. fd_weight f > 0) (assessPath a Mode_Read root))
                (if name \<in> set PATTERN_FIRST then drop 1 (operands_of args) else operands_of args))
            else [])
         in known fs (fs = [])))"

definition unrecognised_result :: "risk_finding list \<Rightarrow> string \<Rightarrow> segment_result" where
  "unrecognised_result fs name =
     seg (fs @ [found ''unrecognised-command'' 20 (''runs '' @ name @ '', which Odysseus does not recognise'')] @
       (if list_ex (\<lambda>w. index_of w (js_lower name) \<noteq> None) [''deploy'', ''release'', ''publish'', ''prod'']
        then [found ''deploy-script'' 30 (name @ '' looks like a deployment script'')] else [])) False False"

text \<open>The programs after the nested shell, in the order of the code.\<close>

definition system_program ::
  "risk_finding list \<Rightarrow> string \<Rightarrow> string list \<Rightarrow> segment_result option" where
  "system_program fs name args =
     (let lower = map js_lower args in
      if name \<in> set [''ssh'', ''scp'', ''sftp'', ''rsync'', ''nc'', ''ncat'', ''netcat'', ''telnet'', ''ftp'']
      then Some (known (fs @ [lasting ''remote-connection'' 40 (''opens a connection to another machine ('' @ name @ '')'')]) False)
      else if name \<in> set [''env'', ''printenv'', ''set'', ''get-childitem''] \<and> isEnvironmentDump name lower
      then Some (known (fs @ [lasting ''prints-environment'' 35 ''prints environment variables, which often hold secrets'']) False)
      else None)"

definition machine_program ::
  "risk_finding list \<Rightarrow> string \<Rightarrow> string list \<Rightarrow> segment_result option" where
  "machine_program fs name args =
     (let lower = map js_lower args in
      if name \<in> set [''chmod'', ''chown'', ''chgrp'', ''icacls'', ''takeown'', ''setfacl''] then
        (let broad = list_ex (\<lambda>a. a = ''-r'' \<or> a = ''--recursive'' \<or> index_of ''777'' a \<noteq> None) lower in
         Some (known (fs @ [found ''changes-permissions'' (if broad then 25 else 10)
           (if broad then ''changes permissions broadly'' else ''changes file permissions'')]) False))
      else if name \<in> set [''kill'', ''pkill'', ''killall'', ''taskkill'', ''stop-process'']
      then Some (known (fs @ [found ''stops-processes'' 15 ''stops running processes'']) False)
      else if name \<in> set [''shutdown'', ''reboot'', ''halt'', ''poweroff'', ''restart-computer'', ''stop-computer'']
      then Some (known (fs @ [lasting ''stops-machine'' 50 ''shuts down or restarts the machine'']) False)
      else if name \<in> set [''setx'', ''reg'', ''set-executionpolicy'', ''launchctl'', ''systemctl'', ''crontab'', ''schtasks'', ''defaults'']
      then Some (known (fs @ [lasting ''system-configuration'' 40 (''changes machine configuration ('' @ name @ '')'')]) False)
      else if name \<in> set [''apt'', ''apt-get'', ''yum'', ''dnf'', ''pacman'', ''brew'', ''choco'', ''winget'', ''scoop'', ''snap'', ''apk'', ''port''] then
        (let mutating = any_of [''install'', ''remove'', ''uninstall'', ''purge'', ''upgrade'', ''update'', ''add'', ''del''] lower in
         Some (known (fs @ (if mutating
           then [found ''system-package-install'' 25
             (js_trim (''changes system packages ('' @ name @ '' '' @ (case args of [] \<Rightarrow> [] | a # _ \<Rightarrow> a) @ '')''))]
           else [])) (\<not> mutating)))
      else None)"

definition service_program ::
  "risk_finding list \<Rightarrow> string \<Rightarrow> string list \<Rightarrow> string \<Rightarrow> segment_result option" where
  "service_program fs name args segment =
     (let lower = map js_lower args in
      if name \<in> set [''kubectl'', ''helm'', ''terraform'', ''tofu'', ''pulumi'', ''cdk'', ''serverless'', ''sls'']
      then Some (withInfrastructure fs name lower)
      else if name \<in> set [''vercel'', ''netlify'', ''fly'', ''flyctl'', ''firebase'', ''heroku'', ''railway'', ''render'',
           ''wrangler'', ''gcloud'', ''az'', ''aws'', ''eb'']
      then Some (withDeploymentCli fs name lower segment)
      else if name = ''docker'' \<or> name = ''podman'' then Some (withContainer fs lower segment)
      else if name \<in> set [''psql'', ''mysql'', ''sqlite3'', ''mongosh'', ''mongo'', ''redis-cli'', ''sqlcmd'', ''cockroach'']
      then Some (known (fs @ (if list_ex (\<lambda>f. fd_name f = ''destructive-sql'') fs then []
             else [found ''database-client'' 20 (''talks to a database ('' @ name @ '')'')])) False)
      else if name \<in> set [''prisma'', ''rails'', ''rake'', ''alembic'', ''knex'', ''sequelize'', ''typeorm'', ''drizzle-kit'', ''flyway'', ''liquibase'']
      then Some (withMigration fs name lower)
      else None)"

definition plain_program ::
  "command_context \<Rightarrow> risk_finding list \<Rightarrow> string \<Rightarrow> string list \<Rightarrow> segment_result" where
  "plain_program cx fs name args =
     (if name \<in> set BUILD_OR_TEST_PROGRAMS then known fs (fs = [])
      else if name \<in> set READ_ONLY_PROGRAMS then read_only_result cx fs name args
      else if name \<in> set [''tee'', ''touch'', ''mkdir'', ''md'', ''new-item'', ''set-content'', ''add-content'', ''out-file'', ''truncate'']
      then known (fs @ concat (map (\<lambda>t. assessPath t Mode_Write (cx_projectRoot cx)) (operands_of args))) False
      else unrecognised_result fs name)"

definition tool_program ::
  "command_context \<Rightarrow> risk_finding list \<Rightarrow> string \<Rightarrow> string list \<Rightarrow> segment_result option" where
  "tool_program cx fs name args =
     (if name = ''git'' then Some (withGit cx fs args)
      else if name \<in> set SCRIPT_RUNNERS \<or> name \<in> set [''npx'', ''pnpx'', ''bunx''] then Some (withPackageManager fs name args)
      else if name \<in> set [''pip'', ''pip3'', ''uv'', ''poetry'', ''pipx'', ''conda'', ''gem'', ''cargo'', ''go'', ''composer'',
           ''dotnet'', ''mvn'', ''gradle'', ''make'']
      then Some (withToolchain fs name (map js_lower args))
      else if name \<in> set [''rm'', ''rmdir'', ''rd'', ''del'', ''erase'', ''remove-item'', ''unlink'', ''shred'']
      then Some (withDelete cx fs name args)
      else if name \<in> set [''mv'', ''cp'', ''move'', ''copy'', ''move-item'', ''copy-item'', ''rename'', ''ren'', ''xcopy'',
           ''robocopy'', ''ln'', ''mklink'']
      then Some (known (fs @
        (case last_opt (filter (\<lambda>a. \<not> is_flag a \<and> \<not> prefix ''/'' a) args) of
           None \<Rightarrow> [] | Some t \<Rightarrow> assessPath t Mode_Write (cx_projectRoot cx)) @
        [found ''moves-files'' 10 (js_trim (name @ '' '' @ words args))]) False)
      else if name \<in> set [''curl'', ''wget'', ''iwr'', ''irm'', ''invoke-webrequest'', ''invoke-restmethod'', ''http'', ''httpie'', ''xh'']
      then Some (withHttp cx fs name args)
      else None)"

text \<open>The first result there is.\<close>

fun first_result :: "segment_result option list \<Rightarrow> segment_result \<Rightarrow> segment_result" where
  "first_result [] d = d"
| "first_result (None # rs) d = first_result rs d"
| "first_result (Some r # rs) d = r"

text \<open>The text a nested shell runs; \<open>''\<close> when there is none.\<close>

definition shell_inner :: "string list \<Rightarrow> string" where
  "shell_inner args =
     (case find_index (\<lambda>a. a \<in> set [''-c'', ''/c'', ''-command'']) (map js_lower args) of
        None \<Rightarrow> []
      | Some i \<Rightarrow> words (drop (Suc i) args))"

definition env_inner :: "string list \<Rightarrow> string" where
  "env_inner args = words (filter (\<lambda>a. \<not> isAssignment a \<and> \<not> is_flag a) args)"

definition assess_program ::
  "(string \<Rightarrow> command_result) \<Rightarrow> (string \<Rightarrow> segment_result) \<Rightarrow> command_context \<Rightarrow> risk_finding list
     \<Rightarrow> string \<Rightarrow> string list \<Rightarrow> string \<Rightarrow> segment_result" where
  "assess_program nc ns cx fs name args segment =
     (if isShell name \<and> shell_inner args \<noteq> [] then
        (let nested = nc (shell_inner args) in seg (fs @ cr_findings nested) (cr_recognised nested) False)
      else if isShell name \<and> args \<noteq> [] then
        known (fs @ [found ''runs-script'' 15 (''runs script '' @ hd args)]) False
      else
        (case tool_program cx fs name args of Some r \<Rightarrow> r | None \<Rightarrow>
           (case system_program fs name args of Some r \<Rightarrow> r | None \<Rightarrow>
              (if name = ''env'' then
                 (let nested = ns (env_inner args) in nested\<lparr>sr_findings := fs @ sr_findings nested\<rparr>)
               else if name = ''set'' then known fs (fs = [])
               else first_result [machine_program fs name args, service_program fs name args segment]
                      (plain_program cx fs name args)))))"

definition segment_body ::
  "(string \<Rightarrow> command_result) \<Rightarrow> (string \<Rightarrow> segment_result) \<Rightarrow> command_context \<Rightarrow> string \<Rightarrow> segment_result" where
  "segment_body nc ns cx segment =
     (let written = concat (map (\<lambda>t. assessPath t Mode_Write (cx_projectRoot cx)) (redirectTargets segment));
          (up, tokens) = segment_program segment;
          fs = written @ up
      in case tokens of
           [] \<Rightarrow> known fs (fs = [])
         | t # args \<Rightarrow> assess_program nc ns cx fs (program t) args segment)"

section \<open>The whole command\<close>

definition text_findings :: "string \<Rightarrow> risk_finding list" where
  "text_findings trimmed =
     (if rx_test_i REMOTE_CODE trimmed
      then [lasting ''remote-code-execution'' 75 ''downloads a script and runs it unseen''] else []) @
     (if rx_test_i OBFUSCATED trimmed
      then [lasting ''obfuscated-execution'' 50 ''decodes hidden content and runs it''] else []) @
     (if rx_test_i DESTRUCTIVE_SQL trimmed
      then [lasting ''destructive-sql'' 50 ''drops or empties database data''] else [])"

definition command_body :: "(string \<Rightarrow> segment_result) \<Rightarrow> string \<Rightarrow> command_result" where
  "command_body ns command =
     (let trimmed = js_trim command in
      if trimmed = [] then \<lparr>cr_findings = [], cr_recognised = False\<rparr>
      else
        (let results = map ns (splitSegments trimmed);
             fs = text_findings trimmed @ concat (map sr_findings results)
         in \<lparr>cr_findings = fs @
               (if results \<noteq> [] \<and> list_all sr_readOnly results \<and> list_all (\<lambda>f. fd_weight f \<le> 0) fs
                then [found ''read-only-command'' (-10) ''only reads''] else []),
             cr_recognised = list_all sr_recognised results\<rparr>))"

lemma segment_program_weight:
  assumes "segment_program s = (fs, t # args)"
  shows "sum_list (map (\<lambda>t. Suc (length t)) (t # args)) \<le> Suc (length s)"
proof -
  let ?f = "\<lambda>t :: string. Suc (length t)"
  let ?ts = "dropWhile isAssignment (tokenize s)"
  have ts: "sum_list (map ?f ?ts) \<le> Suc (length s)"
    using tokenize_weight [of s] sum_dropWhile_le le_trans by blast
  have tl: "sum_list (map ?f (tl us)) \<le> sum_list (map ?f us)" for us by (cases us) auto
  have "t # args = ?ts \<or> t # args = dropWhile is_flag (tl ?ts)"
    using assms by (auto simp: segment_program_def Let_def split: if_splits)
  with ts tl [of ?ts] show ?thesis by (metis le_trans sum_dropWhile_le)
qed

lemma words_shorter:
  assumes "segment_program s = (fs, t # args)" "sum_list (map (\<lambda>t. Suc (length t)) ws) \<le> sum_list (map (\<lambda>t. Suc (length t)) args)"
  shows "words ws \<noteq> [] \<Longrightarrow> length (words ws) < length s" "length (words ws) \<le> length s"
proof -
  have join: "ws \<noteq> [] \<Longrightarrow> Suc (length (words ws)) \<le> sum_list (map (\<lambda>t. Suc (length t)) ws)"
    unfolding words_def by (induction "'' ''" ws rule: js_join.induct) auto
  have w: "Suc (length t) + sum_list (map (\<lambda>t. Suc (length t)) args) \<le> Suc (length s)"
    using segment_program_weight [OF assms(1)] by simp
  show "words ws \<noteq> [] \<Longrightarrow> length (words ws) < length s"
    using join w assms(2) by (cases "ws = []") (simp_all add: words_def)
  show "length (words ws) \<le> length s"
    using join w assms(2) by (cases "ws = []") (simp_all add: words_def)
qed

lemma nonempty_tokens: "segment_program s = (fs, t # args) \<Longrightarrow> s \<noteq> []"
  by (auto simp: segment_program_def)

lemma shell_inner_shorter:
  assumes "segment_program s = (fs, t # args)"
  shows "length (shell_inner args) < length s"
proof (cases "shell_inner args = []")
  case True
  then show ?thesis using nonempty_tokens [OF assms] by simp
next
  case False
  then obtain i where "shell_inner args = words (drop (Suc i) args)"
    by (auto simp: shell_inner_def split: option.splits)
  with False words_shorter(1) [OF assms sum_drop_le] show ?thesis by simp
qed

lemma env_inner_shorter:
  assumes "segment_program s = (fs, t # args)"
  shows "length (env_inner args) < length s"
proof (cases "env_inner args = []")
  case True
  then show ?thesis using nonempty_tokens [OF assms] by simp
next
  case False
  with words_shorter(1) [OF assms sum_filter_le] show ?thesis by (simp add: env_inner_def)
qed

lemma segment_body_cong [fundef_cong]:
  assumes "cx = cx'" "s = s'" "\<And>i. length i < length s' \<Longrightarrow> nc i = nc' i" "\<And>i. length i < length s' \<Longrightarrow> ns i = ns' i"
  shows "segment_body nc ns cx s = segment_body nc' ns' cx' s'"
proof -
  obtain up tokens where p: "segment_program s' = (up, tokens)" by fastforce
  show ?thesis
  proof (cases tokens)
    case Nil
    with p assms(1, 2) show ?thesis by (simp add: segment_body_def)
  next
    case (Cons t args)
    with p assms(3, 4) have "nc (shell_inner args) = nc' (shell_inner args)" "ns (env_inner args) = ns' (env_inner args)"
      using shell_inner_shorter env_inner_shorter by blast+
    then have "assess_program nc ns cx' fs n args s' = assess_program nc' ns' cx' fs n args s'" for fs n
      by (simp only: assess_program_def)
    with p Cons assms(1, 2) show ?thesis by (simp add: segment_body_def)
  qed
qed

lemma command_body_cong [fundef_cong]:
  assumes "c = c'" "\<And>s. s \<in> set (splitSegments (js_trim c')) \<Longrightarrow> ns s = ns' s"
  shows "command_body ns c = command_body ns' c'"
proof -
  have "map ns (splitSegments (js_trim c')) = map ns' (splitSegments (js_trim c'))" using assms(2) by simp
  with assms(1) show ?thesis unfolding command_body_def Let_def by (simp only:)
qed

function (sequential)
  assessCommand :: "command_context \<Rightarrow> string \<Rightarrow> command_result" and
  assessSegment :: "command_context \<Rightarrow> string \<Rightarrow> segment_result"
where
  "assessCommand cx command = command_body (assessSegment cx) command"
| "assessSegment cx segment = segment_body (assessCommand cx) (assessSegment cx) cx segment"
  by pat_completeness auto
termination
proof (relation "measure (\<lambda>x. case x of Inl (cx, c) \<Rightarrow> Suc (2 * length c) | Inr (cx, s) \<Rightarrow> 2 * length s)", goal_cases)
  case 1
  show ?case by simp
next
  case (2 cx c s)
  then have "length s \<le> length (js_trim c)" by (rule length_splitSegments)
  then show ?case using length_js_trim [of c] by simp
qed simp_all

declare assessCommand.simps [simp del] assessSegment.simps [simp del]

end
