(* ===== verification/Risk.thy ===== *)
theory Risk
  imports RiskCommands
begin

text \<open>
  The risk score of an action (\<open>assessAction\<close> of \<open>packages/policy-engine/src/action-risk.ts\<close>): the
  findings of \<open>RiskPaths\<close> and \<open>RiskCommands\<close> on top of the capability's base, counted once each, in
  hundredths; the level and the summary a person sees.  That nothing found is left out of the score, and
  where the score falls short of what a command does.
\<close>

section \<open>Actions\<close>

record action =
  ac_capability :: capability
  ac_command :: "string option"
  ac_resource :: "string option"
  ac_force :: "bool option"
  ac_projectRoot :: "string option"
  ac_protectedBranches :: "string list option"

record risk_factor =
  ra_name :: string
  ra_contribution :: int
  ra_detail :: string

record action_assessment =
  aa_score :: int
  aa_level :: risk_class
  aa_factors :: "risk_factor list"
  aa_requiresApproval :: bool
  aa_reversible :: bool
  aa_summary :: string

fun CAPABILITY_BASE :: "capability \<Rightarrow> int" where
  "CAPABILITY_BASE Filesystem_Read = 5"
| "CAPABILITY_BASE Filesystem_Write = 20"
| "CAPABILITY_BASE Filesystem_Delete = 35"
| "CAPABILITY_BASE Process_Exec = 15"
| "CAPABILITY_BASE Network_Access = 35"
| "CAPABILITY_BASE Package_Install = 40"
| "CAPABILITY_BASE Git_Commit = 30"
| "CAPABILITY_BASE Git_Push = 60"
| "CAPABILITY_BASE Git_Branch_Create = 10"
| "CAPABILITY_BASE Git_Pull_Request_Create = 30"
| "CAPABILITY_BASE Deployment_Execute = 80"
| "CAPABILITY_BASE Secret_Read = 60"

fun CAPABILITY_WORDS :: "capability \<Rightarrow> string" where
  "CAPABILITY_WORDS Filesystem_Read = ''reads a file''"
| "CAPABILITY_WORDS Filesystem_Write = ''writes a file''"
| "CAPABILITY_WORDS Filesystem_Delete = ''deletes a file''"
| "CAPABILITY_WORDS Process_Exec = ''runs a command''"
| "CAPABILITY_WORDS Network_Access = ''connects to the network''"
| "CAPABILITY_WORDS Package_Install = ''installs packages''"
| "CAPABILITY_WORDS Git_Commit = ''records a commit''"
| "CAPABILITY_WORDS Git_Push = ''pushes to a remote''"
| "CAPABILITY_WORDS Git_Branch_Create = ''creates a branch''"
| "CAPABILITY_WORDS Git_Pull_Request_Create = ''opens a pull request''"
| "CAPABILITY_WORDS Deployment_Execute = ''deploys''"
| "CAPABILITY_WORDS Secret_Read = ''reads a secret''"

definition IRREVERSIBLE_WEIGHT :: int where "IRREVERSIBLE_WEIGHT = 10"

section \<open>Findings of an action\<close>

definition protected_branches :: "action \<Rightarrow> string list" where
  "protected_branches a = [''main'', ''master''] @ (case ac_protectedBranches a of None \<Rightarrow> [] | Some bs \<Rightarrow> bs)"

definition action_context :: "risk_runtime \<Rightarrow> action \<Rightarrow> command_context" where
  "action_context rt a =
     \<lparr>cx_projectRoot = ac_projectRoot a, cx_protected = protected_branches a, cx_runtime = rt\<rparr>"

text \<open>\<open>action.command ?? action.resource ?? ''\<close>.\<close>

definition command_text :: "action \<Rightarrow> string" where
  "command_text a = (case ac_command a of Some c \<Rightarrow> c | None \<Rightarrow> (case ac_resource a of Some r \<Rightarrow> r | None \<Rightarrow> []))"

definition path_findings :: "action \<Rightarrow> risk_finding list" where
  "path_findings a =
     (if truthy (ac_resource a)
      then assessPath (the (ac_resource a))
        (if ac_capability a = Filesystem_Write then Mode_Write
         else if ac_capability a = Filesystem_Delete then Mode_Delete else Mode_Read) (ac_projectRoot a)
      else []) @
     (if ac_capability a = Secret_Read
      then [lasting ''secret-exposure'' 0 ''a secret, once read, cannot be unread''] else [])"

definition push_findings :: "action \<Rightarrow> risk_finding list" where
  "push_findings a =
     (let branch = branchName (ac_resource a) in
      [lasting ''publishes-to-remote'' 0
         (if truthy branch then ''publishes branch '' @ the branch else ''publishes commits to a remote'')] @
      (if truthy branch \<and> the branch \<in> set (protected_branches a)
       then [found ''protected-branch'' 30 (''pushes to protected branch '' @ the branch)] else []) @
      (if ac_force a = Some True then [lasting ''force-push'' 35 ''force-push rewrites history others may have''] else []))"

definition branch_findings :: "action \<Rightarrow> risk_finding list" where
  "branch_findings a =
     (let branch = branchName (ac_resource a) in
      if truthy branch \<and> the branch \<in> set (protected_branches a)
      then [found ''protected-branch'' 20 (''creates a branch named like protected branch '' @ the branch)] else [])"

definition deploy_findings :: "action \<Rightarrow> risk_finding list" where
  "deploy_findings a =
     [lasting ''deploys'' 0 ''deploys to an environment others use''] @
     (if truthy (ac_resource a) \<and> rx_test_i PRODUCTION_MARKER (the (ac_resource a))
      then [found ''production-target'' 20 (''targets '' @ the (ac_resource a))] else [])"

text \<open>The findings and whether the action was recognised.\<close>

definition action_findings :: "risk_runtime \<Rightarrow> action \<Rightarrow> risk_finding list \<times> bool" where
  "action_findings rt a =
     (case ac_capability a of
        Process_Exec \<Rightarrow>
          (let r = assessCommand (action_context rt a) (command_text a) in (cr_findings r, cr_recognised r))
      | Filesystem_Read \<Rightarrow> (path_findings a, True)
      | Filesystem_Write \<Rightarrow> (path_findings a, True)
      | Filesystem_Delete \<Rightarrow> (path_findings a, True)
      | Secret_Read \<Rightarrow> (path_findings a, True)
      | Git_Push \<Rightarrow> (push_findings a, True)
      | Git_Branch_Create \<Rightarrow> (branch_findings a, True)
      | Deployment_Execute \<Rightarrow> (deploy_findings a, True)
      | Network_Access \<Rightarrow> (assessHost rt (ac_resource a), True)
      | _ \<Rightarrow> ([], True))"

section \<open>The score\<close>

definition finding_key :: "risk_finding \<Rightarrow> string" where
  "finding_key f = fd_name f @ [CHR 0x00] @ fd_detail f"

fun dedupe_from :: "string list \<Rightarrow> risk_finding list \<Rightarrow> risk_finding list" where
  "dedupe_from seen [] = []"
| "dedupe_from seen (f # fs) =
     (if finding_key f \<in> set seen then dedupe_from seen fs else f # dedupe_from (finding_key f # seen) fs)"

definition dedupe :: "risk_finding list \<Rightarrow> risk_finding list" where
  "dedupe fs = dedupe_from [] fs"

definition finding_factor :: "risk_finding \<Rightarrow> risk_factor" where
  "finding_factor f = \<lparr>ra_name = fd_name f, ra_contribution = fd_weight f, ra_detail = fd_detail f\<rparr>"

definition irreversible_action :: "risk_finding list \<Rightarrow> bool \<Rightarrow> bool" where
  "irreversible_action fs recognised \<longleftrightarrow> list_ex fd_irreversible fs \<or> \<not> recognised"

definition action_factors :: "capability \<Rightarrow> risk_finding list \<Rightarrow> bool \<Rightarrow> risk_factor list" where
  "action_factors cap fs recognised =
     [\<lparr>ra_name = ''capability:'' @ capability_name cap, ra_contribution = CAPABILITY_BASE cap,
       ra_detail = CAPABILITY_WORDS cap\<rparr>] @
     map finding_factor (filter (\<lambda>f. fd_weight f \<noteq> 0) (dedupe fs)) @
     (if irreversible_action fs recognised
      then [\<lparr>ra_name = ''cannot-be-undone'', ra_contribution = IRREVERSIBLE_WEIGHT,
             ra_detail = (if recognised then ''cannot be undone'' else ''an unrecognised command may not be undoable'')\<rparr>]
      else [])"

definition clamp :: "int \<Rightarrow> int" where
  "clamp v = max 0 (min 100 v)"

definition factors_score :: "risk_factor list \<Rightarrow> int" where
  "factors_score fs = clamp (sum_list (map ra_contribution fs))"

section \<open>The summary\<close>

definition truncate_text :: "risk_runtime \<Rightarrow> string \<Rightarrow> nat \<Rightarrow> string" where
  "truncate_text rt v m = (if length v > m then take (m - 1) v @ rt_ellipsis rt else v)"

text \<open>\<open>toUpperCase\<close> of one character; the two whose capital lies past the character set stay.\<close>

definition js_upper_char :: "char \<Rightarrow> string" where
  "js_upper_char c =
     (let n = (of_char c :: nat) in
      if n = 223 then ''SS''
      else if (97 \<le> n \<and> n \<le> 122) \<or> (224 \<le> n \<and> n \<le> 254 \<and> n \<noteq> 247) then [char_of (n - 32)]
      else [c])"

definition capitalise :: "string \<Rightarrow> string" where
  "capitalise v = (case v of [] \<Rightarrow> [] | c # s \<Rightarrow> js_upper_char c @ s)"

definition summarise :: "risk_runtime \<Rightarrow> action \<Rightarrow> risk_finding list \<Rightarrow> bool \<Rightarrow> string" where
  "summarise rt a fs reversible =
     (let reasons = map fd_detail (take 2 (js_sort (\<lambda>x y. fd_weight y - fd_weight x) (filter (\<lambda>f. fd_weight f > 0) fs)));
          undo = (if reversible then ''Can be undone.'' else ''Cannot be undone.'')
      in
      if ac_capability a = Process_Exec \<and> truthy (ac_command a) then
        ''Runs `'' @ truncate_text rt (js_trim (the (ac_command a))) 80 @ ''`'' @
        (if reasons \<noteq> [] then '': '' @ js_join ''; '' reasons else []) @ ''. '' @ undo
      else if reasons \<noteq> [] then capitalise (js_join ''; '' reasons) @ ''. '' @ undo
      else capitalise (CAPABILITY_WORDS (ac_capability a)) @
        (if truthy (ac_resource a) then '' '' @ truncate_text rt (the (ac_resource a)) 80 else []) @ ''. '' @ undo)"

definition assessAction :: "risk_runtime \<Rightarrow> action \<Rightarrow> action_assessment" where
  "assessAction rt a =
     (let (fs, recognised) = action_findings rt a;
          irreversible = irreversible_action fs recognised;
          factors = action_factors (ac_capability a) fs recognised;
          score = factors_score factors
      in \<lparr>aa_score = score, aa_level = riskLevel score, aa_factors = factors,
          aa_requiresApproval = (score \<ge> THRESHOLD_HIGH), aa_reversible = (\<not> irreversible),
          aa_summary = summarise rt a fs (\<not> irreversible)\<rparr>)"

section \<open>What is found\<close>

definition read_only_discount :: risk_finding where
  "read_only_discount = found ''read-only-command'' (-10) ''only reads''"

text \<open>Everything a command is charged adds to the score; only the discount takes off.\<close>

definition charged :: "risk_finding \<Rightarrow> bool" where
  "charged f \<longleftrightarrow> fd_weight f > 0 \<and> fd_name f \<noteq> ''find-and-act'' \<or> f = read_only_discount"

lemma charged_found [simp]:
  "w > 0 \<Longrightarrow> n \<noteq> ''find-and-act'' \<Longrightarrow> charged (found n w d)"
  "w > 0 \<Longrightarrow> n \<noteq> ''find-and-act'' \<Longrightarrow> charged (lasting n w d)"
  by (simp_all add: charged_def)

lemma charged_assessPath [simp]: "list_all charged (assessPath p m root)"
  by (simp add: assessPath_def Let_def)

lemma charged_concat:
  assumes "\<And>t. list_all charged (f t)"
  shows "list_all charged (concat (map f ts))"
  using assms by (induction ts) auto

lemma charged_filter [simp]: "list_all charged fs \<Longrightarrow> list_all charged (filter P fs)"
  by (auto simp: list_all_iff)

abbreviation charged_seg :: "segment_result \<Rightarrow> bool" where
  "charged_seg r \<equiv> list_all charged (sr_findings r)"

lemma charged_git_push [simp]: "list_all charged (git_push_findings cx rest)"
  by (simp add: git_push_findings_def Let_def split: option.split)

lemma charged_git_config [simp]: "list_all charged (git_config_findings sub rest)"
  by (simp add: git_config_findings_def Let_def)

lemma charged_withGit: "list_all charged fs \<Longrightarrow> charged_seg (withGit cx fs args)"
  unfolding withGit_def Let_def by simp

lemma charged_withPackageManager: "list_all charged fs \<Longrightarrow> charged_seg (withPackageManager fs name args)"
  unfolding withPackageManager_def Let_def by simp

lemma charged_withToolchain: "list_all charged fs \<Longrightarrow> charged_seg (withToolchain fs name lower)"
  unfolding withToolchain_def Let_def by simp

lemma charged_withDelete: "list_all charged fs \<Longrightarrow> charged_seg (withDelete cx fs name args)"
  unfolding withDelete_def Let_def by (simp add: charged_concat)

lemma charged_withHttp: "list_all charged fs \<Longrightarrow> charged_seg (withHttp cx fs name args)"
  unfolding withHttp_def Let_def by (simp add: charged_concat)

lemma charged_withInfrastructure: "list_all charged fs \<Longrightarrow> charged_seg (withInfrastructure fs name lower)"
  unfolding withInfrastructure_def Let_def by simp

lemma charged_withDeploymentCli: "list_all charged fs \<Longrightarrow> charged_seg (withDeploymentCli fs name lower s)"
  unfolding withDeploymentCli_def Let_def by simp

lemma charged_withContainer: "list_all charged fs \<Longrightarrow> charged_seg (withContainer fs lower s)"
  unfolding withContainer_def Let_def by simp

lemma charged_withMigration: "list_all charged fs \<Longrightarrow> charged_seg (withMigration fs name lower)"
  unfolding withMigration_def Let_def by simp

lemmas charged_helpers = charged_withGit charged_withPackageManager charged_withToolchain charged_withDelete
  charged_withHttp charged_withInfrastructure charged_withDeploymentCli charged_withContainer charged_withMigration

text \<open>A result that may be absent; the conditions of the branches do not matter.\<close>

definition charged_opt :: "segment_result option \<Rightarrow> bool" where
  "charged_opt r \<longleftrightarrow> (\<forall>x. r = Some x \<longrightarrow> charged_seg x)"

lemma charged_optI [intro]:
  "charged_opt None"
  "charged_seg x \<Longrightarrow> charged_opt (Some x)"
  "charged_opt a \<Longrightarrow> charged_opt b \<Longrightarrow> charged_opt (if c then a else b)"
  by (auto simp: charged_opt_def)

lemma charged_segI:
  "list_all charged (fs @ gs) \<Longrightarrow> charged_seg (seg (fs @ gs) k r)"
  "charged_seg x \<Longrightarrow> charged_seg y \<Longrightarrow> charged_seg (if c then x else y)"
  by simp_all

lemma charged_tool: "list_all charged fs \<Longrightarrow> charged_opt (tool_program cx fs name args)"
  unfolding tool_program_def
  by (intro charged_optI charged_helpers charged_segI; (assumption | simp split: option.split))

lemma charged_system: "list_all charged fs \<Longrightarrow> charged_opt (system_program fs name args)"
  unfolding system_program_def Let_def by (intro charged_optI charged_segI; simp)

lemma charged_machine: "list_all charged fs \<Longrightarrow> charged_opt (machine_program fs name args)"
  unfolding machine_program_def Let_def by (intro charged_optI charged_segI; simp)

lemma charged_service: "list_all charged fs \<Longrightarrow> charged_opt (service_program fs name args s)"
  unfolding service_program_def Let_def by (intro charged_optI charged_helpers charged_segI; simp)

lemma charged_interpreter: "list_all charged fs \<Longrightarrow> charged_seg (interpreter_result fs name args)"
  unfolding interpreter_result_def Let_def by (simp add: charged_withToolchain split: option.split)

lemma find_not_read_only: "''find'' \<notin> set READ_ONLY_PROGRAMS"
  by (simp add: READ_ONLY_PROGRAMS_def)

lemma charged_read_only:
  "list_all charged fs \<Longrightarrow> name \<noteq> ''find'' \<Longrightarrow> charged_seg (read_only_result cx fs name args)"
  unfolding read_only_result_def Let_def
  by (simp add: charged_interpreter charged_concat split: option.split)

lemma charged_unrecognised: "list_all charged fs \<Longrightarrow> charged_seg (unrecognised_result fs name)"
  unfolding unrecognised_result_def by (intro charged_segI) simp

lemma charged_writes: "list_all charged fs \<Longrightarrow> charged_seg (seg (fs @ concat (map (\<lambda>t. assessPath t m root) ts)) k r)"
  by (intro charged_segI) (simp add: charged_concat)

lemma charged_plain:
  assumes "list_all charged fs"
  shows "charged_seg (plain_program cx fs name args)"
proof -
  have ro: "charged_seg (if name \<in> set READ_ONLY_PROGRAMS then read_only_result cx fs name args else r)"
    if "charged_seg r" for r
    using find_not_read_only that charged_read_only [OF assms, of name cx args]
    by (cases "name \<in> set READ_ONLY_PROGRAMS") (simp_all only: if_True if_False, metis)
  show ?thesis
    unfolding plain_program_def
    by (rule charged_segI(2), simp only: seg_simps assms, rule ro, rule charged_segI(2))
      (rule charged_writes [OF assms], rule charged_unrecognised [OF assms])
qed

lemma first_result_charged: "list_all charged_opt rs \<Longrightarrow> charged_seg d \<Longrightarrow> charged_seg (first_result rs d)"
  by (induction rs d rule: first_result.induct) (auto simp: charged_opt_def)

lemma charged_choice:
  "charged_opt t \<Longrightarrow> charged_seg b \<Longrightarrow> charged_seg (case t of Some r \<Rightarrow> r | None \<Rightarrow> b)"
  by (cases t) (auto simp: charged_opt_def)

lemma charged_program:
  assumes "list_all charged fs" "list_all charged (cr_findings (nc (shell_inner args)))"
    "charged_seg (ns (env_inner args))"
  shows "charged_seg (assess_program nc ns cx fs name args s)"
  unfolding assess_program_def Let_def
  using assms
  by (intro charged_segI(2) charged_choice charged_tool charged_system first_result_charged)
    (simp_all del: first_result.simps add: charged_machine charged_service charged_plain)

lemma charged_discount [simp]: "charged (found ''read-only-command'' (-10) ''only reads'')"
  by (simp add: charged_def read_only_discount_def)

lemma charged_body:
  assumes "\<And>i. length i < length s \<Longrightarrow> list_all charged (cr_findings (nc i))"
    "\<And>i. length i < length s \<Longrightarrow> charged_seg (ns i)"
  shows "charged_seg (segment_body nc ns cx s)"
proof -
  let ?w = "concat (map (\<lambda>t. assessPath t Mode_Write (cx_projectRoot cx)) (redirectTargets s))"
  obtain up tokens where p: "segment_program s = (up, tokens)" by fastforce
  have "list_all charged up" using p by (auto simp: segment_program_def Let_def split: if_splits)
  then have fs: "list_all charged (?w @ up)" by (simp add: charged_concat)
  show ?thesis
  proof (cases tokens)
    case Nil
    with p fs show ?thesis by (simp add: segment_body_def)
  next
    case (Cons t args)
    with p assms have "list_all charged (cr_findings (nc (shell_inner args)))" "charged_seg (ns (env_inner args))"
      using shell_inner_shorter env_inner_shorter by blast+
    then have "charged_seg (assess_program nc ns cx (?w @ up) (program t) args s)"
      using fs by (intro charged_program)
    with p Cons show ?thesis by (simp add: segment_body_def)
  qed
qed

lemma charged_all:
  "list_all charged (cr_findings (assessCommand cx c))" "charged_seg (assessSegment cx s)"
proof (induction cx c and cx s rule: assessCommand_assessSegment.induct)
  case (1 cx c)
  have "list_all charged (text_findings t)" for t by (simp add: text_findings_def)
  moreover have "list_all charged (concat (map sr_findings (map (assessSegment cx) (splitSegments (js_trim c)))))"
    using 1 by (auto simp: list_all_iff)
  ultimately show ?case
    unfolding assessCommand.simps command_body_def Let_def
    by simp
next
  case (2 cx s)
  then show ?case unfolding assessSegment.simps [of cx s] by (rule charged_body)
qed

lemma dedupe_from_covers:
  "f \<in> set fs \<Longrightarrow> finding_key f \<in> set seen \<or> (\<exists>g \<in> set (dedupe_from seen fs). finding_key g = finding_key f)"
  by (induction seen fs rule: dedupe_from.induct) auto

lemma dedupe_from_sub: "set (dedupe_from seen fs) \<subseteq> set fs"
  by (induction seen fs rule: dedupe_from.induct) auto

lemma dedupe_from_fresh: "g \<in> set (dedupe_from seen fs) \<Longrightarrow> finding_key g \<notin> set seen"
  by (induction seen fs rule: dedupe_from.induct) (auto split: if_splits)

lemma dedupe_from_distinct: "distinct (dedupe_from seen fs)"
  by (induction seen fs rule: dedupe_from.induct) (auto dest: dedupe_from_fresh)

lemma discount_weight [simp]: "fd_weight read_only_discount = -10"
  by (simp add: read_only_discount_def)

lemma charged_sum:
  "list_all charged fs \<Longrightarrow> distinct fs \<Longrightarrow>
     sum_list (map fd_weight fs) \<ge> (if read_only_discount \<in> set fs then -10 else 0)"
  by (induction fs) (auto simp: charged_def)

lemma charged_sum_ge:
  assumes "list_all charged fs" "distinct fs" "g \<in> set fs"
  shows "sum_list (map fd_weight fs) \<ge> fd_weight g - 10"
proof -
  have "sum_list (map fd_weight fs) = fd_weight g + sum_list (map fd_weight (remove1 g fs))"
    by (rule sum_list_map_remove1 [OF assms(3)])
  moreover have "list_all charged (remove1 g fs)" using assms(1) by (auto simp: list_all_iff dest: notin_set_remove1 in_set_remove1 set_mp [OF set_remove1_subset])
  then have "sum_list (map fd_weight (remove1 g fs)) \<ge> -10"
    using charged_sum [of "remove1 g fs"] assms(2) by (auto split: if_splits)
  ultimately show ?thesis by simp
qed

lemma sum_nonzero: "sum_list (map fd_weight (filter (\<lambda>f. fd_weight f \<noteq> 0) fs)) = sum_list (map fd_weight fs)"
  by (induction fs) auto

lemma exec_score:
  assumes "ac_capability a = Process_Exec" "assessCommand (action_context rt a) (command_text a) = r"
  shows "aa_score (assessAction rt a) =
     clamp (15 + sum_list (map fd_weight (dedupe (cr_findings r))) +
       (if irreversible_action (cr_findings r) (cr_recognised r) then 10 else 0))"
    "aa_reversible (assessAction rt a) \<longleftrightarrow> \<not> irreversible_action (cr_findings r) (cr_recognised r)"
    "set (map finding_factor (filter (\<lambda>f. fd_weight f \<noteq> 0) (dedupe (cr_findings r)))) \<subseteq> set (aa_factors (assessAction rt a))"
proof -
  have f: "action_findings rt a = (cr_findings r, cr_recognised r)"
    using assms by (simp add: action_findings_def Let_def)
  have m: "map (ra_contribution \<circ> finding_factor) xs = map fd_weight xs" for xs
    by (simp add: finding_factor_def comp_def)
  show "aa_score (assessAction rt a) =
     clamp (15 + sum_list (map fd_weight (dedupe (cr_findings r))) +
       (if irreversible_action (cr_findings r) (cr_recognised r) then 10 else 0))"
    using f assms(1) sum_nonzero [of "dedupe (cr_findings r)"]
    by (simp add: assessAction_def Let_def factors_score_def action_factors_def m IRREVERSIBLE_WEIGHT_def)
  show "aa_reversible (assessAction rt a) \<longleftrightarrow> \<not> irreversible_action (cr_findings r) (cr_recognised r)"
    using f by (simp add: assessAction_def Let_def)
  show "set (map finding_factor (filter (\<lambda>f. fd_weight f \<noteq> 0) (dedupe (cr_findings r)))) \<subseteq> set (aa_factors (assessAction rt a))"
    using f by (auto simp: assessAction_def Let_def action_factors_def)
qed


section \<open>What the score misses\<close>

definition exec_action :: "string \<Rightarrow> action" where
  "exec_action c =
     \<lparr>ac_capability = Process_Exec, ac_command = Some c, ac_resource = None, ac_force = None,
      ac_projectRoot = None, ac_protectedBranches = None\<rparr>"


lemma score_at_most_100: "aa_score (assessAction rt a) \<le> 100"
  by (simp add: assessAction_def Let_def factors_score_def clamp_def split: prod.split)




text \<open>
  The branch for \<open>find\<close> with \<open>-delete\<close> or \<open>-exec\<close> is never reached, because \<open>find\<close> is missing from the
  read-only programs: no command is ever charged for it.
\<close>

theorem find_and_act_unreachable:
  "''find-and-act'' \<notin> fd_name ` set (cr_findings (assessCommand cx c)) \<and>
   ''find-and-act'' \<notin> fd_name ` set (sr_findings (assessSegment cx s))"
proof -
  have "charged f \<Longrightarrow> fd_name f \<noteq> ''find-and-act''" for f
    by (auto simp: charged_def read_only_discount_def)
  then show ?thesis using charged_all(1) [of cx c] charged_all(2) [of cx s] by (fastforce simp: list_all_iff)
qed

end
