(* ===== verification/TaskRisk.thy ===== *)
theory TaskRisk
  imports Risk
begin

text \<open>
  The risk of a task before any agent has acted on it (\<open>control-plane/src/orchestration/risk-engine.ts\<close>):
  what the prompt asks for, and the commands it quotes, scored by \<open>assessAction\<close>.  Weights are in
  hundredths; the code adds the same numbers as floating point and rounds the sum to two digits.
\<close>

section \<open>Intents\<close>

datatype task_kind = Task_Planning | Task_Security_Review | Task_Test | Task_Implementation | Task_General

fun task_kind_name :: "task_kind \<Rightarrow> string" where
  "task_kind_name Task_Planning = ''planning''"
| "task_kind_name Task_Security_Review = ''security_review''"
| "task_kind_name Task_Test = ''test''"
| "task_kind_name Task_Implementation = ''implementation''"
| "task_kind_name Task_General = ''general''"

fun ROLE :: "task_kind \<Rightarrow> int \<times> string" where
  "ROLE Task_Planning = (-5, ''plans without changing anything'')"
| "ROLE Task_Security_Review = (0, ''reviews without changing anything'')"
| "ROLE Task_Test = (10, ''runs tests'')"
| "ROLE Task_Implementation = (20, ''changes code'')"
| "ROLE Task_General = (0, ''unscoped task'')"

record intent =
  it_name :: string
  it_weight :: int
  it_detail :: string
  it_pattern :: rx
  it_unless :: "string option"

text \<open>At most \<open>n\<close> times.\<close>

primrec RUpTo :: "nat \<Rightarrow> rx \<Rightarrow> rx" where
  "RUpTo 0 r = REps"
| "RUpTo (Suc n) r = RAlt (RSeq r (RUpTo n r)) REps"

definition RInSentence :: rx where
  "RInSentence = RNotIn [CHR ''.'', CHR 0x0A]"

text \<open>A word that ends in a space, which may be missing.\<close>

definition RMaybe :: "string list \<Rightarrow> rx" where
  "RMaybe ws = ROpt (RSeq (RWords ws) RSpaces1)"

definition production_deploy_rx :: rx where
  "production_deploy_rx = RAlts
     [RSeqs [RWordb, RAlts [RLit ''deploy'', RLit ''release'', RLit ''ship'', RSeqs [RLit ''roll'', RSpaces, RLit ''out''],
        RLit ''publish'', RLit ''promote''], RStar RWordChar, RWordb, RUpTo 60 RInSentence, RWordb,
        RAlts [RLit ''prod'', RLit ''production'', RLit ''live'', RLit ''customers'', RLit ''npm'', RLit ''pypi'',
          RLit ''registry'', RSeqs [RLit ''app'', RSpaces, RLit ''store'']], RWordb],
      RSeqs [RWordb, RLit ''to'', RSpaces1, RLit ''prod'', ROpt (RLit ''uction''), RWordb],
      RSeqs [RWordb, RLit ''production'', RSpaces1, RWords [''deploy'', ''release'']]]"

definition deployment_rx :: rx where
  "deployment_rx = RAlt
     (RSeqs [RWordb, ROpt (RLit ''re''), RLit ''deploy'', RWordb,
        RNotAhead (RSeq RSpaces1 (RWords [''docs'', ''documentation'', ''notes'', ''guide'', ''page'', ''script'']))])
     (RSeqs [RWordb, RWords [''cut'', ''make'', ''do'', ''create'', ''tag'', ''publish''], RSpaces1,
        RMaybe [''a'', ''the''], RMaybe [''new''], RLit ''release'', RWordb])"

definition force_push_rx :: rx where
  "force_push_rx = RAlts
     [RSeqs [RWordb, RLit ''force'', ROpt (RIn ''- ''), RLit ''push''],
      RSeqs [RLit ''push'', RSpaces1, RWords [''--force'', ''-f''], RWordb], RLit ''--force-with-lease'']"

definition push_rx :: rx where
  "push_rx = RAlt
     (RSeqs [RWordb, RLit ''git'', RSpaces1, RLit ''push'', RWordb])
     (RSeqs [RWordb, RLit ''push'', RSpaces1, RMaybe [''the'', ''your'', ''these'', ''my''],
        RAlts [RLit ''changes'', RSeq (RLit ''commit'') (ROpt (RLit ''s'')), RLit ''branch'', RLit ''code'', RLit ''fix'',
          RLit ''work'', RLit ''it'', RLit ''them'', RLit ''this'', RLit ''upstream'',
          RSeqs [RLit ''to'', RSpaces1, RAlts [RLit ''origin'', RLit ''remote'', RLit ''github'', RLit ''gitlab'',
            RSeqs [RLit ''the'', RSpaces1, RLit ''remote''], RLit ''main'', RLit ''master'']]], RWordb])"

definition destructive_rx :: rx where
  "destructive_rx = RAlts
     [RSeqs [RWordb, RLit ''rm'', RSpaces1, RLit ''-rf'', RWordb],
      RSeqs [RWordb, RWords [''drop'', ''truncate''], RSpaces1, RMaybe [''the''], RStar RWordChar, RSpaces,
        RWords [''table'', ''database'', ''schema'', ''collection''], ROpt (RLit ''s''), RWordb],
      RSeqs [RWordb, RWords [''wipe'', ''purge'', ''nuke''], RWordb],
      RSeqs [RWordb, RLit ''delete'', RSpaces1,
        ROpt (RAlts [RSeq (RLit ''the'') RSpaces1, RSeqs [RLit ''all'', RSpaces1, RMaybe [''the'']],
          RSeq (RLit ''every'') RSpaces1]),
        RUpTo 3 (RSeq (RPlus RWordChar) RSpaces1),
        RAlts [RLit ''database'', RSeq (RLit ''table'') (ROpt (RLit ''s'')), RSeq (RLit ''bucket'') (ROpt (RLit ''s'')),
          RSeq (RLit ''branch'') (ROpt (RLit ''es'')), RSeq (RLit ''repo'') (ROpt (RLit ''sitory'')), RLit ''directory'',
          RLit ''folder'', RLit ''data'', RLit ''users'', RLit ''accounts'', RLit ''records'', RLit ''history'',
          RSeq (RLit ''backup'') (ROpt (RLit ''s''))], RWordb]]"

definition secrets_rx :: rx where
  "secrets_rx = RSeqs
     [RWordb, RAlts [RSeqs [RLit ''api'', ROpt (RIn ''_ -''), RLit ''key'', ROpt (RLit ''s'')],
        RSeq (RLit ''secret'') (ROpt (RLit ''s'')), RSeq (RLit ''credential'') (ROpt (RLit ''s'')),
        RSeq (RLit ''password'') (ROpt (RLit ''s'')), RSeqs [RLit ''private'', RIn ''_ -'', RLit ''key'', ROpt (RLit ''s'')],
        RSeqs [RLit ''access'', RIn ''_ -'', RLit ''token'', ROpt (RLit ''s'')], RLit ''.env''], RWordb]"

definition infrastructure_rx :: rx where
  "infrastructure_rx = RSeqs
     [RWordb, RAlts [RLit ''terraform'', RLit ''kubectl'', RLit ''helm'', RLit ''cloudformation'',
        RSeqs [RLit ''dns'', RSpaces1, RLit ''record'', ROpt (RLit ''s'')], RLit ''firewall'',
        RSeqs [RLit ''iam'', RSpaces1, RWords [''role'', ''polic'']],
        RSeqs [RLit ''security'', RSpaces1, RLit ''group'', ROpt (RLit ''s'')]], RWordb]"

definition migration_rx :: rx where
  "migration_rx = RSeqs
     [RWordb, RAlts [RLit ''migration'', RLit ''migrate'', RSeqs [RLit ''schema'', RSpaces1, RLit ''change''],
        RSeqs [RLit ''alter'', RSpaces1, RLit ''table'']], RWordb]"

definition dependencies_rx :: rx where
  "dependencies_rx = RSeqs
     [RWordb, RWords [''upgrade'', ''update'', ''bump'', ''add'', ''install''], RWordb, RUpTo 30 RInSentence, RWordb,
      RAlts [RSeq (RLit ''dependenc'') (RWords [''y'', ''ies'']), RSeq (RLit ''package'') (ROpt (RLit ''s'')),
        RSeq (RLit ''librar'') (RWords [''y'', ''ies'']), RLit ''sdk''], RWordb]"

definition intent_of :: "string \<Rightarrow> int \<Rightarrow> string \<Rightarrow> rx \<Rightarrow> string option \<Rightarrow> intent" where
  "intent_of n w d p u = \<lparr>it_name = n, it_weight = w, it_detail = d, it_pattern = p, it_unless = u\<rparr>"

definition INTENTS :: "intent list" where
  "INTENTS =
     [intent_of ''production-deploy'' 55 ''asks to deploy or publish to production'' production_deploy_rx None,
      intent_of ''deployment'' 30 ''asks to deploy or release'' deployment_rx (Some ''production-deploy''),
      intent_of ''force-push'' 50 ''asks to force-push, which rewrites shared history'' force_push_rx None,
      intent_of ''push'' 35 ''asks to push to a remote'' push_rx (Some ''force-push''),
      intent_of ''destructive'' 40 ''asks to delete or wipe data'' destructive_rx None,
      intent_of ''secrets'' 20 ''involves keys, tokens or credentials'' secrets_rx None,
      intent_of ''infrastructure'' 25 ''changes infrastructure'' infrastructure_rx None,
      intent_of ''migration'' 15 ''changes a database schema'' migration_rx None,
      intent_of ''dependencies'' 10 ''adds or upgrades dependencies'' dependencies_rx None]"

section \<open>The assessment\<close>

record task_input =
  ti_taskKind :: task_kind
  ti_prompt :: string
  ti_protectedBranches :: "string list option"

record task_assessment =
  ta_score :: int
  ta_level :: risk_class
  ta_factors :: "risk_factor list"
  ta_requiresApproval :: bool

definition factor :: "string \<Rightarrow> int \<Rightarrow> string \<Rightarrow> risk_factor" where
  "factor n w d = \<lparr>ra_name = n, ra_contribution = w, ra_detail = d\<rparr>"

definition matched_intents :: "string \<Rightarrow> string list" where
  "matched_intents prompt = map it_name (filter (\<lambda>i. rx_test_i (it_pattern i) prompt) INTENTS)"

definition intent_factors :: "string list \<Rightarrow> risk_factor list" where
  "intent_factors matched =
     map (\<lambda>i. factor (it_name i) (it_weight i) (it_detail i))
       (filter (\<lambda>i. it_name i \<in> set matched \<and>
          (case it_unless i of None \<Rightarrow> True | Some u \<Rightarrow> u \<notin> set matched)) INTENTS)"

definition branch_rx :: "string \<Rightarrow> rx" where
  "branch_rx name =
     (let b = RLit (js_lower name) in
      RAlt (RSeqs [RWordb, RLit ''push'', RWordb, RUpTo 40 RInSentence, RWordb, b, RWordb])
           (RSeqs [RWordb, b, RWordb, RUpTo 20 RInSentence, RWordb, RLit ''push'']))"

definition task_branches :: "task_input \<Rightarrow> string list" where
  "task_branches t = js_dedupe ([''main'', ''master''] @ (case ti_protectedBranches t of None \<Rightarrow> [] | Some bs \<Rightarrow> bs))"

definition branch_factors :: "task_input \<Rightarrow> string list \<Rightarrow> risk_factor list" where
  "branch_factors t matched =
     (if ''push'' \<in> set matched \<or> ''force-push'' \<in> set matched then
        (case List.find (\<lambda>n. rx_test_i (branch_rx n) (ti_prompt t)) (task_branches t) of
           None \<Rightarrow> []
         | Some b \<Rightarrow> if b \<noteq> [] then [factor ''protected-branch'' 20 (''targets protected branch '' @ b)] else [])
      else [])"

text \<open>The commands between backquotes: 2 to 200 characters on one line.\<close>

function quoted_commands :: "string \<Rightarrow> string list" where
  "quoted_commands [] = []"
| "quoted_commands (c # s) =
     (let w = takeWhile (\<lambda>d. d \<noteq> CHR 0x60 \<and> d \<noteq> CHR 0x0A) s; rest = drop (length w) s in
      if c = CHR 0x60 \<and> 2 \<le> length w \<and> length w \<le> 200 \<and> rest \<noteq> [] \<and> hd rest = CHR 0x60
      then w # quoted_commands (tl rest)
      else quoted_commands s)"
  by pat_completeness auto
termination by (relation "measure length") (auto simp: less_Suc_eq_le)

definition quoted_action :: "task_input \<Rightarrow> string \<Rightarrow> action" where
  "quoted_action t c =
     \<lparr>ac_capability = Process_Exec, ac_command = Some c, ac_resource = None, ac_force = None,
      ac_projectRoot = None, ac_protectedBranches = Some (task_branches t)\<rparr>"

definition worst_quoted :: "risk_runtime \<Rightarrow> task_input \<Rightarrow> (string \<times> action_assessment) option" where
  "worst_quoted rt t =
     (case js_sort (\<lambda>a b. aa_score (snd b) - aa_score (snd a))
             (filter (\<lambda>(c, r). aa_score r \<ge> THRESHOLD_HIGH)
                (map (\<lambda>c. (c, assessAction rt (quoted_action t c))) (quoted_commands (ti_prompt t)))) of
        [] \<Rightarrow> None
      | w # _ \<Rightarrow> Some w)"

definition BASE :: int where "BASE = 10"

definition assessTask :: "risk_runtime \<Rightarrow> task_input \<Rightarrow> task_assessment" where
  "assessTask rt t =
     (let role = ROLE (ti_taskKind t);
          matched = matched_intents (ti_prompt t);
          fs = [factor (''role:'' @ task_kind_name (ti_taskKind t)) (fst role) (snd role)] @
               intent_factors matched @ branch_factors t matched;
          score = BASE + sum_list (map ra_contribution fs);
          quoted = (case worst_quoted rt t of
             None \<Rightarrow> []
           | Some (c, r) \<Rightarrow>
               if aa_score r > score
               then [factor ''quoted-command'' (aa_score r - score) (''quotes `'' @ c @ ''`: '' @ aa_summary r)]
               else []);
          total = clamp (score + sum_list (map ra_contribution quoted))
      in \<lparr>ta_score = total, ta_level = riskLevel total, ta_factors = fs @ quoted,
          ta_requiresApproval = (total \<ge> THRESHOLD_HIGH)\<rparr>)"

section \<open>A quoted command counts in full\<close>

lemma score_order: "consistent (\<lambda>a b. aa_score (snd b) - aa_score (snd a))"
  by (simp add: consistent_def)

lemma js_sort_head:
  assumes "consistent cmp" "js_sort cmp xs = w # ws" "x \<in> set xs"
  shows "cmp x w \<ge> 0"
proof -
  have "sorted_wrt (\<lambda>a b. cmp b a \<ge> 0) (w # ws)" using sorted_js_sort [OF assms(1), of xs] assms(2) by simp
  moreover have "x \<in> set (w # ws)" using assms(2, 3) set_js_sort [of cmp xs] by simp
  moreover have "cmp w w \<ge> 0" using assms(1) unfolding consistent_def by (metis not_le)
  ultimately show ?thesis by auto
qed

definition scored :: "risk_runtime \<Rightarrow> task_input \<Rightarrow> (string \<times> action_assessment) list" where
  "scored rt t = filter (\<lambda>(c, r). aa_score r \<ge> THRESHOLD_HIGH)
     (map (\<lambda>c. (c, assessAction rt (quoted_action t c))) (quoted_commands (ti_prompt t)))"

lemma worst_quoted_max:
  assumes "(c, r) \<in> set (scored rt t)"
  obtains c' r' where "worst_quoted rt t = Some (c', r')" "aa_score r' \<ge> aa_score r"
proof -
  let ?cmp = "\<lambda>a b :: string \<times> action_assessment. aa_score (snd b) - aa_score (snd a)"
  obtain w ws where w: "js_sort ?cmp (scored rt t) = w # ws"
    using assms set_js_sort [of ?cmp "scored rt t"] by (cases "js_sort ?cmp (scored rt t)") auto
  have "worst_quoted rt t = Some w"
    unfolding worst_quoted_def w [unfolded scored_def] by simp
  moreover have "aa_score (snd w) \<ge> aa_score r"
    using js_sort_head [OF score_order w assms] by simp
  ultimately show thesis using that [of "fst w" "snd w"] by simp
qed

text \<open>
  C40: A task whose prompt quotes a command of high risk is rated at least as high as that command.
\<close>

theorem quoted_command_counts:
  assumes "c \<in> set (quoted_commands (ti_prompt t))" "aa_score (assessAction rt (quoted_action t c)) \<ge> THRESHOLD_HIGH"
  shows "ta_score (assessTask rt t) \<ge> aa_score (assessAction rt (quoted_action t c)) \<and>
    ta_requiresApproval (assessTask rt t)"
proof -
  let ?r = "assessAction rt (quoted_action t c)"
  have "(c, ?r) \<in> set (scored rt t)" unfolding scored_def using assms by simp
  then obtain c' r where w: "worst_quoted rt t = Some (c', r)" "aa_score r \<ge> aa_score ?r" by (rule worst_quoted_max)
  let ?fs = "[factor (''role:'' @ task_kind_name (ti_taskKind t)) (fst (ROLE (ti_taskKind t))) (snd (ROLE (ti_taskKind t)))] @
    intent_factors (matched_intents (ti_prompt t)) @ branch_factors t (matched_intents (ti_prompt t))"
  let ?s = "BASE + sum_list (map ra_contribution ?fs)"
  have "ta_score (assessTask rt t) =
      clamp (?s + sum_list (map ra_contribution (case Some (c', r) of None \<Rightarrow> []
        | Some (c, r) \<Rightarrow> if aa_score r > ?s
            then [factor ''quoted-command'' (aa_score r - ?s) (''quotes `'' @ c @ ''`: '' @ aa_summary r)] else [])))"
    unfolding assessTask_def Let_def w(1) by (simp only: task_assessment.simps)
  also have "\<dots> = clamp (if aa_score r > ?s then aa_score r else ?s)" by (simp only: option.case prod.case) (simp add: factor_def)
  finally have "ta_score (assessTask rt t) = clamp (if aa_score r > ?s then aa_score r else ?s)" .
  moreover have "aa_score ?r \<le> 100" by (rule score_at_most_100)
  ultimately have "ta_score (assessTask rt t) \<ge> aa_score ?r"
    using w(2) assms(2) by (auto simp: clamp_def thresholds)
  moreover have "ta_requiresApproval (assessTask rt t) \<longleftrightarrow> ta_score (assessTask rt t) \<ge> THRESHOLD_HIGH"
    unfolding assessTask_def Let_def by (simp only: task_assessment.simps)
  ultimately show ?thesis using assms(2) by (simp only: order_trans)
qed

theorem quoted_command_counts_witness:
  "ta_score (assessTask \<lparr>rt_url_host = Map.empty, rt_ellipsis = []\<rparr>
     \<lparr>ti_taskKind = Task_Planning, ti_prompt = ''run `git push` now'', ti_protectedBranches = None\<rparr>) \<ge> 70"
proof -
  let ?rt = "\<lparr>rt_url_host = Map.empty, rt_ellipsis = []\<rparr>"
  let ?t = "\<lparr>ti_taskKind = Task_Planning, ti_prompt = ''run `git push` now'', ti_protectedBranches = None\<rparr>"
  have "quoted_commands (ti_prompt ?t) = [''git push'']" by code_simp
  moreover have "aa_score (assessAction ?rt (quoted_action ?t ''git push'')) = 70" by code_simp
  ultimately show ?thesis
    using quoted_command_counts [of "''git push''" ?t ?rt] by (simp add: thresholds)
qed

end
