(* ===== verification/Spec2Isabelle.thy ===== *)
theory Spec2Isabelle
  imports Prelude Glob Shell PolicyEngine Approvals AuditTrail Remembered PolicyService
    RateLimits Connections Checkpoints Gaps Reconcile Pairing Dates Der Certificates Revocation CertManager
    DeviceAuth Sessions Grants Integrations Access
    RegExp RiskPaths RiskCommands Risk TaskRisk
begin

text \<open>
  A verification library for the control plane of coding agents in \<open>src/odysseus\<close>.  A gateway on
  each workstation runs agents of several vendors; a control plane in the cloud decides what they may
  do, asks their owner for approval, keeps the audit log and relays events.  Paths below are relative to
  \<open>src/odysseus\<close>.

  \<^bold>\<open>The parts and how they meet.\<close>

  \<^item> Policy.  \<open>packages/policy-engine/src\<close> decides one action: \<open>Glob\<close> is the matcher of
    \<open>deny-floor.ts\<close>, \<open>Shell\<close> the part of \<open>action-risk.ts\<close> that finds the files a command writes,
    \<open>PolicyEngine\<close> the deny floor, the rules and \<open>evaluate\<close>.  \<open>PolicyService\<close> is the service and the
    store around it (\<open>control-plane/src/policy/policy-engine-service.ts\<close>, \<open>policy-store.ts\<close>): versions,
    activation, and the remembered approvals of \<open>Remembered\<close> (\<open>remembered-approvals.ts\<close>), consulted when
    the engine asks for approval.
  \<^item> Approvals.  \<open>Approvals\<close> is the workflow \<open>policy/approval-workflow.ts\<close> over the memory store, with
    the commands it sends to workstations; \<open>AuditTrail\<close> is the hash-chained log \<open>policy/audit-log.ts\<close>,
    whose texts are those of \<open>JSON.stringify\<close>.
  \<^item> Connections.  \<open>Connections\<close> is \<open>tunnel/connection-registry.ts\<close>; \<open>DeviceAuth\<close> is
    \<open>tunnel/device-auth.ts\<close>, \<open>auth/device-signature.ts\<close> and the authentication handler of
    \<open>tunnel/tunnel-server.ts\<close>, which registers a gateway there; \<open>RateLimits\<close> holds the two attempt
    limiters (\<open>auth/rate-limiter.ts\<close>, \<open>gateway/pairing/src/code-generator.ts\<close>) and the pairing codes.
  \<^item> The gateway.  \<open>Checkpoints\<close>, \<open>Gaps\<close> and \<open>Reconcile\<close> (\<open>gateway/checkpoint\<close>,
    \<open>gateway/reconciliation\<close>) are what a gateway knows of the events it sent and how it catches up after a
    reconnect; \<open>Pairing\<close> (\<open>gateway/pairing\<close>) is how it becomes trusted, with pauses as
    resumption points; \<open>Sessions\<close> is \<open>session-registry.ts\<close> and \<open>event-bus.ts\<close> of \<open>gateway/core\<close>.
  \<^item> Certificates.  \<open>Dates\<close> and \<open>Der\<close> are the encoders, \<open>Certificates\<close> the authority
    (\<open>gateway/certificate/src/ca.ts\<close>), \<open>Revocation\<close> the revocation store and checker, \<open>CertManager\<close> the
    manager that issues, renews and loses certificates on top of them.
  \<^item> Integrations.  \<open>Grants\<close> is the signed grants file and the read guard of a workstation
    (\<open>gateway/integrations/src\<close>), \<open>Integrations\<close> the manager of access requests, \<open>Access\<close> the control
    plane's side (\<open>control-plane/src/integrations/integration-access.ts\<close>); a request built by \<open>Access\<close> is
    the one \<open>Integrations\<close> validates.

  \<^bold>\<open>Conventions.\<close>  Definitions keep the names of the source; a suffix or prefix avoids a clash.  A
  \<open>Map\<close> is an association list in insertion order (\<open>jmap\<close> in \<open>Prelude\<close>), so that iteration order is that
  of JavaScript; \<open>sort\<close> is the stable \<open>js_sort\<close>; a JSON value is \<open>js_value\<close>.  Numbers the code uses
  as counters and times in milliseconds are unbounded integers: they stay far below \<open>2 ^ 53\<close>.  Bytes of
  certificates are \<open>8 word\<close>.  Strings are lists of characters; a character stands for a UTF-16 code unit up
  to 255.  A thrown error is an \<open>Inl\<close>, \<open>null\<close> and \<open>undefined\<close> are \<open>None\<close> unless the code tells them
  apart.  Clocks, random bytes, identifiers, hashes, signatures, the file system, sockets, listeners and
  \<open>Date.parse\<close> are arguments; what is relied on is a named hypothesis of the theorem, and its witness
  instantiates it.

  \<^bold>\<open>Atomicity.\<close>  A handler runs to its end in one step, which is what the event loop gives up to the next
  \<open>await\<close> on something outside the process.  Where the code waits for another party in the middle, the
  model has the halves: the pauses of \<open>Pairing\<close>, \<open>approve_begin\<close> and \<open>approve_finish\<close> of
  \<open>Integrations\<close>, the challenge and its answer in \<open>DeviceAuth\<close>; the properties about revocation during an
  approval or a challenge are about those halves.

  \<^bold>\<open>What the lemmas show.\<close>  Each component's state machine is a list of operations (\<open>approval_op\<close>,
  \<open>audit_op\<close>, \<open>registry_op\<close>, \<open>session_op\<close>, \<open>manager_op\<close> and so on) with a step function; the locales
  \<open>transition_system\<close> and \<open>progress_system\<close> of \<open>Prelude\<close> turn one preservation lemma per operation into
  facts about every run, and each is interpreted at the component's own definitions, as \<open>keyed_store\<close> is
  at the maps and \<open>attempt_window\<close> at both limiters.  Beyond invariants the theories show: the meaning of the
  glob matcher and of rule order; that tampering with the log is detected; that gaps are exactly the maximal
  runs of missing numbers; that the DER encoder has a decoder; that what is signed determines what is meant;
  that a grant is used only if its owner approved it at the machine.  Several properties show that the code
  falls short of a comment; each such theorem runs the code on a concrete history.

  \<^bold>\<open>Bounds and termination.\<close>  No definition has fuel.  The scanners of \<open>Shell\<close> and \<open>split_on\<close> recurse on
  what is left of the text, the digits of \<open>Der\<close> on the number, the gap loop on the distance to its end.  The
  batch loop of \<open>Reconcile\<close> steps by a size that a caller chooses and never ends for size 0:
  it is a partial function whose value \<open>None\<close> means that it runs forever, and \<open>replay_terminates_iff\<close>
  says exactly when.

  \<^bold>\<open>Not modelled.\<close>  Vendor adapters, process isolation, git work, the HTTP router and the web pages:
  processes, files and presentation.  The Firestore store: calls of a client library that mirror the memory
  store.  Redaction and the import of vendor files: JavaScript regular expressions over free text.  Key
  generation, tokens and passwords: calls of crypto libraries.
\<close>

end
